(* ===== verification/Clash_Prelude.thy ===== *)
theory Clash_Prelude
  imports Main "HOL-Library.Word" "HOL-Library.Sublist"
begin

text \<open>
  Shared base of the development: machine integers, byte strings, the result type in which
  every error return and every panic of the Rust code is a value, big-endian integers as the
  \<^verbatim>\<open>bytes\<close> and \<^verbatim>\<open>tokio\<close> readers and writers lay them out, the string functions of the Rust
  standard library that the modelled code calls, and the generic facts on these that the
  component theories use. A Rust \<^verbatim>\<open>String\<close> is its UTF-8 bytes, a \<open>string\<close> here, so
  \<open>length\<close> is Rust's \<^verbatim>\<open>len()\<close>.
\<close>

section \<open>Types\<close>

type_synonym u8 = "8 word"
type_synonym u16 = "16 word"
type_synonym u32 = "32 word"
type_synonym u64 = "64 word"
type_synonym u128 = "128 word"
type_synonym bytes = "u8 list"

text \<open>
  Errors. \<open>Panic\<close> is a Rust panic (an index out of range, an \<^verbatim>\<open>unwrap\<close> of nothing, an
  \<^verbatim>\<open>unreachable!\<close>); the release profile aborts the process on it. \<open>Diverges\<close> is a loop that
  does not end. \<open>Exit\<close> is
  \<^verbatim>\<open>print_and_exit!\<close>. \<open>UnexpectedEof\<close> is what \<^verbatim>\<open>read_exact\<close> returns on a stream that ends
  early, \<open>IpNetError\<close> a network that does not parse; the rest carry the message of the error
  value, of which text that a third-party error would add is left out.
\<close>

datatype error =
    UnexpectedEof
  | Other string
  | InvalidData string
  | InvalidInput string
  | InvalidConfig string
  | IpNetError
  | Panic
  | Diverges
  | Exit string

type_synonym 'a result = "error + 'a"

abbreviation Ok :: "'a \<Rightarrow> 'a result" where "Ok \<equiv> Inr"
abbreviation Err :: "error \<Rightarrow> 'a result" where "Err \<equiv> Inl"

definition bind_result :: "'a result \<Rightarrow> ('a \<Rightarrow> 'b result) \<Rightarrow> 'b result" where
  "bind_result r f = (case r of Inl e \<Rightarrow> Inl e | Inr x \<Rightarrow> f x)"

definition panics :: "'a result \<Rightarrow> bool" where
  "panics r \<longleftrightarrow> r = Inl Panic"

definition map_err :: "(error \<Rightarrow> error) \<Rightarrow> 'a result \<Rightarrow> 'a result" where
  "map_err f r = (case r of Inl e \<Rightarrow> Inl (f e) | Inr x \<Rightarrow> Inr x)"

named_theorems sample_defs \<open>concrete environments and states on which operations are evaluated\<close>

lemma bind_result_simps [simp]:
  "bind_result (Inl e) f = Inl e"
  "bind_result (Inr x) f = f x"
  by (simp_all add: bind_result_def)

lemma map_err_simps [simp]:
  "map_err f (Inl e) = Inl (f e)"
  "map_err f (Inr x) = Inr x"
  "map_err f r = Inr y \<longleftrightarrow> r = Inr y"
  by (simp_all add: map_err_def split: sum.split)

lemma bind_result_Inr_iff:
  "bind_result r f = Inr y \<longleftrightarrow> (\<exists>x. r = Inr x \<and> f x = Inr y)"
  by (cases r) auto

lemma panics_simps [simp]: "\<not> panics (Inr x)" "panics (Inl e) \<longleftrightarrow> e = Panic"
  by (simp_all add: panics_def)

section \<open>Big-endian integers\<close>

text \<open>
  \<^verbatim>\<open>put_u16\<close>, \<^verbatim>\<open>put_u32\<close>, \<^verbatim>\<open>octets\<close>, \<^verbatim>\<open>to_be_bytes\<close> write the most significant byte
  first; \<^verbatim>\<open>get_u16\<close>, \<^verbatim>\<open>read_u32\<close>, \<^verbatim>\<open>from_be_bytes\<close> read it back. Both go through
  the unsigned value.
\<close>

fun nat_be :: "nat \<Rightarrow> nat \<Rightarrow> bytes" where
  "nat_be 0 n = []"
| "nat_be (Suc k) n = nat_be k (n div 256) @ [word_of_nat (n mod 256)]"

lemma nat_be_numeral [simp]:
  "nat_be (numeral k) n = nat_be (pred_numeral k) (n div 256) @ [word_of_nat (n mod 256)]"
  by (simp add: numeral_eq_Suc [of k])

definition be_nat :: "bytes \<Rightarrow> nat" where
  "be_nat bs = foldl (\<lambda>acc b. acc * 256 + unat b) 0 bs"

definition be_put :: "nat \<Rightarrow> 'a::len word \<Rightarrow> bytes" where
  "be_put k w = nat_be k (unat w)"

definition be_get :: "bytes \<Rightarrow> 'a::len word" where
  "be_get bs = word_of_nat (be_nat bs)"

lemma length_nat_be [simp]: "length (nat_be k n) = k"
  by (induction k arbitrary: n) auto

lemma length_be_put [simp]: "length (be_put k w) = k"
  by (simp add: be_put_def)

lemma be_nat_Nil [simp]: "be_nat [] = 0"
  by (simp add: be_nat_def)

lemma be_nat_snoc [simp]: "be_nat (bs @ [b]) = be_nat bs * 256 + unat b"
  by (simp add: be_nat_def)

lemma be_nat_less: "be_nat bs < 256 ^ length bs"
proof (induction bs rule: rev_induct)
  case Nil
  then show ?case by simp
next
  case (snoc b bs)
  have "unat b < 256" using unsigned_less [of b] by simp
  with snoc.IH have "be_nat bs * 256 + unat b < (be_nat bs + 1) * 256" by simp
  also have "\<dots> \<le> 256 ^ length bs * 256" using snoc.IH by (intro mult_le_mono1) simp
  finally show ?case by simp
qed

lemma be_nat_nat_be: "be_nat (nat_be k n) = n mod 256 ^ k"
proof (induction k arbitrary: n)
  case 0
  then show ?case by simp
next
  case (Suc k)
  have "n mod (256 * 256 ^ k) = 256 * (n div 256 mod 256 ^ k) + n mod 256"
    by (rule mod_mult2_eq)
  then show ?case by (simp add: Suc.IH unat_of_nat algebra_simps)
qed

lemma nat_be_be_nat: "length bs = k \<Longrightarrow> nat_be k (be_nat bs) = bs"
proof (induction bs arbitrary: k rule: rev_induct)
  case Nil
  then show ?case by simp
next
  case (snoc b bs)
  have b: "unat b < 256" using unsigned_less [of b] by simp
  have "(be_nat bs * 256 + unat b) div 256 = be_nat bs"
    "(be_nat bs * 256 + unat b) mod 256 = unat b"
    using b by (auto simp: div_mult_self3)
  with snoc show ?case by auto
qed

lemma be_get_be_put: "LENGTH('a) = 8 * k \<Longrightarrow> be_get (be_put k (w :: 'a::len word)) = w"
proof -
  assume "LENGTH('a) = 8 * k"
  then have "unat w < 256 ^ k" using unsigned_less [of w] by (simp add: power_mult)
  then show ?thesis by (simp add: be_get_def be_put_def be_nat_nat_be)
qed

lemma be_put_be_get:
  assumes "LENGTH('a) = 8 * k" and "length bs = k"
  shows "be_put k (be_get bs :: 'a::len word) = bs"
proof -
  have "be_nat bs < 2 ^ LENGTH('a)"
    using be_nat_less [of bs] assms by (simp add: power_mult)
  then have "unat (word_of_nat (be_nat bs) :: 'a word) = be_nat bs"
    by (simp add: unat_of_nat)
  with assms(2) show ?thesis by (simp add: be_put_def be_get_def nat_be_be_nat)
qed

lemma be_get_u16 [simp]: "be_get (be_put 2 (w :: u16)) = w"
  and be_get_u32 [simp]: "be_get (be_put 4 (w32 :: u32)) = w32"
  and be_get_u64 [simp]: "be_get (be_put 8 (w64 :: u64)) = w64"
  and be_get_u128 [simp]: "be_get (be_put 16 (w128 :: u128)) = w128"
  by (simp_all add: be_get_be_put)

section \<open>Readers\<close>

text \<open>
  A stream that is read with \<^verbatim>\<open>read_exact\<close>, \<^verbatim>\<open>read_u8\<close>, \<^verbatim>\<open>read_u16\<close> and their kin is the
  list of the bytes its peer sends before it closes: a read takes them from the front, and fails
  with \<^verbatim>\<open>UnexpectedEof\<close> when too few are left.
\<close>

definition read_exact :: "nat \<Rightarrow> bytes \<Rightarrow> (bytes \<times> bytes) result" where
  "read_exact n s = (if length s < n then Err UnexpectedEof else Ok (take n s, drop n s))"

definition read_be :: "nat \<Rightarrow> bytes \<Rightarrow> ('a::len word \<times> bytes) result" where
  "read_be n s = bind_result (read_exact n s) (\<lambda>(b, r). Ok (be_get b, r))"

definition read_u8 :: "bytes \<Rightarrow> (u8 \<times> bytes) result" where
  "read_u8 s = (case s of [] \<Rightarrow> Err UnexpectedEof | b # r \<Rightarrow> Ok (b, r))"

lemma read_exact_append [simp]: "length a = n \<Longrightarrow> read_exact n (a @ r) = Ok (a, r)"
  by (simp add: read_exact_def)

lemma read_exact_short: "length s < n \<Longrightarrow> read_exact n s = Err UnexpectedEof"
  by (simp add: read_exact_def)

lemma read_exact_OkD: "read_exact n s = Ok (a, r) \<Longrightarrow> s = a @ r \<and> length a = n"
  by (auto simp: read_exact_def split: if_splits)

lemma read_be_put [simp]:
  "LENGTH('a) = 8 * n \<Longrightarrow> read_be n (be_put n (w :: 'a::len word) @ r) = Ok (w, r)"
  by (simp add: read_be_def be_get_be_put)

lemma read_be_OkD:
  "read_be n s = Ok (w, r) \<Longrightarrow> LENGTH('a) = 8 * n \<Longrightarrow> s = be_put n (w :: 'a::len word) @ r"
  by (auto simp: read_be_def bind_result_Inr_iff be_put_be_get dest!: read_exact_OkD)

lemma read_u8_simps [simp]: "read_u8 [] = Err UnexpectedEof" "read_u8 (b # r) = Ok (b, r)"
  by (simp_all add: read_u8_def)

lemma read_u8_OkD: "read_u8 s = Ok (b, r) \<Longrightarrow> s = b # r"
  by (auto simp: read_u8_def split: list.splits)

lemma read_exact_no_panic [simp]: "\<not> panics (read_exact n s)"
  and read_be_no_panic [simp]: "\<not> panics (read_be n s)"
  and read_u8_no_panic [simp]: "\<not> panics (read_u8 s)"
  by (simp_all add: read_exact_def read_be_def read_u8_def split: list.splits)

section \<open>Strings\<close>

definition str_of_bytes :: "bytes \<Rightarrow> string" where
  "str_of_bytes bs = map (\<lambda>b. char_of (unat b)) bs"

definition bytes_of_str :: "string \<Rightarrow> bytes" where
  "bytes_of_str s = map (\<lambda>c. word_of_nat (of_char c)) s"

lemma length_bytes_of_str [simp]: "length (bytes_of_str s) = length s"
  and length_str_of_bytes [simp]: "length (str_of_bytes bs) = length bs"
  by (simp_all add: bytes_of_str_def str_of_bytes_def)

lemma bytes_of_str_eq_Nil [simp]: "bytes_of_str s = [] \<longleftrightarrow> s = []"
  by (simp add: bytes_of_str_def)

lemma str_of_bytes_of_str [simp]: "str_of_bytes (bytes_of_str s) = s"
proof -
  have "char_of (unat (word_of_nat (of_char c) :: u8)) = c" for c
  proof -
    have "(of_char c :: nat) < 256" by (rule nat_of_char_less_256)
    then have "unat (word_of_nat (of_char c) :: u8) = of_char c" by (simp add: unat_of_nat)
    then show ?thesis by simp
  qed
  then show ?thesis by (simp add: str_of_bytes_def bytes_of_str_def comp_def)
qed

lemma bytes_of_str_of_bytes [simp]: "bytes_of_str (str_of_bytes bs) = bs"
proof -
  have "word_of_nat (of_char (char_of (unat b) :: char)) = b" for b :: u8
  proof -
    have "unat b < 256" using unsigned_less [of b] by simp
    then show ?thesis by simp
  qed
  then show ?thesis by (simp add: str_of_bytes_def bytes_of_str_def comp_def)
qed

text \<open>\<^verbatim>\<open>str::from_utf8\<close>: the well-formed byte sequences of the Unicode standard.\<close>

definition utf8_cont :: "u8 \<Rightarrow> bool" where
  "utf8_cont b \<longleftrightarrow> 0x80 \<le> b \<and> b \<le> 0xBF"

fun utf8_valid :: "bytes \<Rightarrow> bool" where
  "utf8_valid [] = True"
| "utf8_valid (b # bs) =
    (if b < 0x80 then utf8_valid bs
     else case bs of [] \<Rightarrow> False | c # cs \<Rightarrow>
       if 0xC2 \<le> b \<and> b \<le> 0xDF then utf8_cont c \<and> utf8_valid cs
       else case cs of [] \<Rightarrow> False | d # ds \<Rightarrow>
         if 0xE0 \<le> b \<and> b \<le> 0xEF
         then (if b = 0xE0 then 0xA0 \<le> c \<and> c \<le> 0xBF
               else if b = 0xED then 0x80 \<le> c \<and> c \<le> 0x9F else utf8_cont c) \<and>
              utf8_cont d \<and> utf8_valid ds
         else case ds of [] \<Rightarrow> False | e # es \<Rightarrow>
           0xF0 \<le> b \<and> b \<le> 0xF4 \<and>
           (if b = 0xF0 then 0x90 \<le> c \<and> c \<le> 0xBF
            else if b = 0xF4 then 0x80 \<le> c \<and> c \<le> 0x8F else utf8_cont c) \<and>
           utf8_cont d \<and> utf8_cont e \<and> utf8_valid es)"

definition from_utf8 :: "bytes \<Rightarrow> string option" where
  "from_utf8 bs = (if utf8_valid bs then Some (str_of_bytes bs) else None)"

text \<open>A Rust string is valid UTF-8; \<open>str_ok\<close> states it of a modelled string.\<close>

definition str_ok :: "string \<Rightarrow> bool" where
  "str_ok s \<longleftrightarrow> utf8_valid (bytes_of_str s)"

lemma from_utf8_bytes [simp]: "str_ok s \<Longrightarrow> from_utf8 (bytes_of_str s) = Some s"
  by (simp add: from_utf8_def str_ok_def)

lemma from_utf8_SomeD: "from_utf8 bs = Some s \<Longrightarrow> bs = bytes_of_str s \<and> str_ok s"
  by (auto simp: from_utf8_def str_ok_def split: if_splits)

end
