(* ===== verification/Rust_Str.thy ===== *)
theory Rust_Str
  imports Clash_Prelude "HOL-Library.Char_ord" "HOL-Library.List_Lexorder"
begin

text \<open>
  The functions of Rust's \<^verbatim>\<open>str\<close> that the modelled code calls: \<^verbatim>\<open>split\<close>, \<^verbatim>\<open>join\<close>, \<^verbatim>\<open>trim\<close>,
  \<^verbatim>\<open>rsplit_once\<close>, the ASCII case functions, decimal and hexadecimal printing, and integer
  parsing. \<^verbatim>\<open>contains\<close>, \<^verbatim>\<open>starts_with\<close> and \<^verbatim>\<open>ends_with\<close> are \<open>sublist\<close>, \<open>prefix\<close>
  and \<open>suffix\<close> of the library. The module also has the lemmas on them that the
  parsers and the domain trie rest on.
\<close>

section \<open>Splitting and joining\<close>

fun str_split :: "char \<Rightarrow> string \<Rightarrow> string list" where
  "str_split c [] = [[]]"
| "str_split c (x # xs) =
    (if x = c then [] # str_split c xs
     else case str_split c xs of [] \<Rightarrow> [[x]] | p # ps \<Rightarrow> (x # p) # ps)"

fun str_join :: "char \<Rightarrow> string list \<Rightarrow> string" where
  "str_join c [] = []"
| "str_join c [p] = p"
| "str_join c (p # q # ps) = p @ [c] @ str_join c (q # ps)"

text \<open>\<^verbatim>\<open>rsplit_once\<close>: split at the last separator.\<close>

definition rsplit_once :: "char \<Rightarrow> string \<Rightarrow> (string \<times> string) option" where
  "rsplit_once c s =
    (let ps = str_split c s
     in if length ps < 2 then None else Some (str_join c (butlast ps), last ps))"

lemma str_split_not_Nil [simp]: "str_split c s \<noteq> []"
  by (induction s) (auto split: list.splits)

lemma str_join_Cons: "ps \<noteq> [] \<Longrightarrow> str_join c (p # ps) = p @ [c] @ str_join c ps"
  by (cases ps) auto

lemma str_join_Cons_Cons [simp]: "str_join c ((x # p) # ps) = x # str_join c (p # ps)"
  by (cases ps) auto

lemma str_join_split [simp]: "str_join c (str_split c s) = s"
proof (induction s)
  case (Cons x xs)
  show ?case
  proof (cases "x = c")
    case True
    with Cons show ?thesis by (simp add: str_join_Cons)
  next
    case False
    with Cons show ?thesis by (auto split: list.splits)
  qed
qed simp

lemma str_split_free: "p \<in> set (str_split c s) \<Longrightarrow> c \<notin> set p"
proof (induction s arbitrary: p)
  case (Cons x xs)
  then show ?case
    by (auto split: list.splits if_splits)
qed simp

lemma str_split_no_sep: "c \<notin> set s \<Longrightarrow> str_split c s = [s]"
  by (induction s) auto

lemma str_split_append_sep: "c \<notin> set p \<Longrightarrow> str_split c (p @ c # s) = p # str_split c s"
  by (induction p) auto

lemma str_split_join:
  "ps \<noteq> [] \<Longrightarrow> (\<forall>p \<in> set ps. c \<notin> set p) \<Longrightarrow> str_split c (str_join c ps) = ps"
proof (induction ps rule: str_join.induct)
  case (3 c p q ps)
  then show ?case by (simp add: str_split_append_sep)
qed (auto simp: str_split_no_sep)

lemma str_split_eq_iff:
  "str_split c s = ps \<longleftrightarrow> ps \<noteq> [] \<and> (\<forall>p \<in> set ps. c \<notin> set p) \<and> s = str_join c ps"
  using str_split_join str_split_free by fastforce

lemma str_split_inj: "str_split c s = str_split c t \<Longrightarrow> s = t"
  by (metis str_join_split)

lemma str_split_eq_split_iff: "str_split c s = str_split c t \<longleftrightarrow> s = t"
  using str_split_inj by blast

lemma str_split_append: "str_split c (a @ c # b) = str_split c a @ str_split c b"
  by (induction a) (auto split: list.splits)

lemma str_join_append: "as \<noteq> [] \<Longrightarrow> bs \<noteq> [] \<Longrightarrow> str_join c (as @ bs) = str_join c as @ c # str_join c bs"
  by (induction as rule: str_join.induct) (auto simp: str_join_Cons)

lemma str_join_snoc: "ps \<noteq> [] \<Longrightarrow> str_join c (ps @ [p]) = str_join c ps @ [c] @ p"
  by (induction ps rule: str_join.induct) (auto simp: str_join_Cons)

lemma rsplit_once_snoc: "c \<notin> set p \<Longrightarrow> rsplit_once c (h @ c # p) = Some (h, p)"
proof -
  assume p: "c \<notin> set p"
  have "h @ c # p = str_join c (str_split c h @ [p])" by (simp add: str_join_snoc)
  moreover have "\<forall>q \<in> set (str_split c h @ [p]). c \<notin> set q"
    using p by (auto dest: str_split_free)
  ultimately have "str_split c (h @ c # p) = str_split c h @ [p]"
    by (simp add: str_split_join)
  moreover have "length (str_split c h) > 0" by simp
  ultimately show ?thesis by (simp add: rsplit_once_def Let_def)
qed

section \<open>Trimming\<close>

text \<open>
  \<^verbatim>\<open>str::trim\<close> drops leading and trailing characters with the Unicode property White_Space:
  the ASCII ones, U+0085, U+00A0, U+1680, U+2000 to U+200A, U+2028, U+2029, U+202F, U+205F and
  U+3000, here by their UTF-8 bytes. \<open>ws_len\<close> is the number of bytes of the white-space
  character at the front, 0 when there is none; \<open>ws_len_rev\<close> is the same for a reversed
  string, so for its last character.
\<close>

definition ws3 :: "u8 \<Rightarrow> u8 \<Rightarrow> u8 \<Rightarrow> bool" where
  "ws3 a b c \<longleftrightarrow>
     a = 0xE1 \<and> b = 0x9A \<and> c = 0x80 \<or>
     a = 0xE2 \<and> b = 0x80 \<and> (0x80 \<le> c \<and> c \<le> 0x8A \<or> c = 0xA8 \<or> c = 0xA9 \<or> c = 0xAF) \<or>
     a = 0xE2 \<and> b = 0x81 \<and> c = 0x9F \<or>
     a = 0xE3 \<and> b = 0x80 \<and> c = 0x80"

definition ws1 :: "u8 \<Rightarrow> bool" where
  "ws1 a \<longleftrightarrow> 9 \<le> a \<and> a \<le> 13 \<or> a = 32"

definition ws2 :: "u8 \<Rightarrow> u8 \<Rightarrow> bool" where
  "ws2 a b \<longleftrightarrow> a = 0xC2 \<and> (b = 0x85 \<or> b = 0xA0)"

fun ws_len :: "bytes \<Rightarrow> nat" where
  "ws_len (a # b # c # r) = (if ws1 a then 1 else if ws2 a b then 2 else if ws3 a b c then 3 else 0)"
| "ws_len [a, b] = (if ws1 a then 1 else if ws2 a b then 2 else 0)"
| "ws_len [a] = (if ws1 a then 1 else 0)"
| "ws_len [] = 0"

fun ws_len_rev :: "bytes \<Rightarrow> nat" where
  "ws_len_rev (a # b # c # r) = (if ws1 a then 1 else if ws2 b a then 2 else if ws3 c b a then 3 else 0)"
| "ws_len_rev [a, b] = (if ws1 a then 1 else if ws2 b a then 2 else 0)"
| "ws_len_rev [a] = (if ws1 a then 1 else 0)"
| "ws_len_rev [] = 0"

function trim_with :: "(bytes \<Rightarrow> nat) \<Rightarrow> bytes \<Rightarrow> bytes" where
  "trim_with f bs = (if f bs = 0 \<or> bs = [] then bs else trim_with f (drop (f bs) bs))"
  by pat_completeness auto
termination
  by (relation "measure (\<lambda>(f, bs). length bs)") auto

declare trim_with.simps [simp del]

definition str_trim :: "string \<Rightarrow> string" where
  "str_trim s = str_of_bytes (rev (trim_with ws_len_rev (rev (trim_with ws_len (bytes_of_str s)))))"

text \<open>\<^verbatim>\<open>trim_end_matches(c)\<close> for a character.\<close>

definition trim_end_matches :: "char \<Rightarrow> string \<Rightarrow> string" where
  "trim_end_matches c s = rev (dropWhile (\<lambda>x. x = c) (rev s))"

lemma trim_with_id: "f bs = 0 \<Longrightarrow> trim_with f bs = bs"
  by (subst trim_with.simps) simp

lemma trim_with_suffix: "suffix (trim_with f bs) bs"
proof (induction f bs rule: trim_with.induct)
  case (1 f bs)
  show ?case
  proof (cases "f bs = 0 \<or> bs = []")
    case True
    then show ?thesis by (subst trim_with.simps) simp
  next
    case False
    with 1 have "suffix (trim_with f (drop (f bs) bs)) (drop (f bs) bs)" by simp
    then have "suffix (trim_with f (drop (f bs) bs)) bs"
      using suffix_drop suffix_order.trans by blast
    with False show ?thesis by (subst trim_with.simps) simp
  qed
qed

text \<open>A string of visible ASCII characters is its own trim.\<close>

definition visible :: "string \<Rightarrow> bool" where
  "visible s \<longleftrightarrow> (\<forall>c \<in> set s. 33 \<le> (of_char c :: nat) \<and> (of_char c :: nat) < 127)"

lemma visible_byte:
  assumes "visible s" and "b \<in> set (bytes_of_str s)"
  shows "33 \<le> unat b \<and> unat b < 127"
  using assms by (auto simp: visible_def bytes_of_str_def unat_of_nat)

lemma ws_len_visible:
  assumes "\<forall>b \<in> set bs. 33 \<le> unat b \<and> unat b < 127"
  shows "ws_len bs = 0" and "ws_len_rev bs = 0"
proof -
  have "\<not> ws1 a \<and> \<not> ws2 a b \<and> \<not> ws3 a b c" if "33 \<le> unat a \<and> unat a < 127" for a b c
    using that by (auto simp: ws1_def ws2_def ws3_def word_le_nat_alt)
  with assms show "ws_len bs = 0" "ws_len_rev bs = 0"
    by (cases bs rule: ws_len.cases; force)+
qed

lemma str_trim_visible: "visible s \<Longrightarrow> str_trim s = s"
proof -
  assume "visible s"
  then have "\<forall>b \<in> set (bytes_of_str s). 33 \<le> unat b \<and> unat b < 127" by (blast dest: visible_byte)
  then have "trim_with ws_len (bytes_of_str s) = bytes_of_str s"
    and "trim_with ws_len_rev (rev (bytes_of_str s)) = rev (bytes_of_str s)"
    by (simp_all add: trim_with_id ws_len_visible)
  then show ?thesis by (simp add: str_trim_def)
qed

section \<open>ASCII case\<close>

definition ascii_lower_char :: "char \<Rightarrow> char" where
  "ascii_lower_char c =
    (let n = (of_char c :: nat) in if 65 \<le> n \<and> n \<le> 90 then char_of (n + 32) else c)"

definition to_ascii_lowercase :: "string \<Rightarrow> string" where
  "to_ascii_lowercase s = map ascii_lower_char s"

definition eq_ignore_ascii_case :: "string \<Rightarrow> string \<Rightarrow> bool" where
  "eq_ignore_ascii_case s t \<longleftrightarrow> to_ascii_lowercase s = to_ascii_lowercase t"

lemma ascii_lower_char_idem [simp]: "ascii_lower_char (ascii_lower_char c) = ascii_lower_char c"
  by (auto simp: ascii_lower_char_def Let_def)

lemma to_ascii_lowercase_idem [simp]:
  "to_ascii_lowercase (to_ascii_lowercase s) = to_ascii_lowercase s"
  by (simp add: to_ascii_lowercase_def comp_def)

section \<open>Numbers\<close>

text \<open>Digits: the value of a character in a radix up to 16, and the lower-case digit of a value.\<close>

definition digit_val :: "nat \<Rightarrow> char \<Rightarrow> nat option" where
  "digit_val radix c =
    (let n = (of_char c :: nat);
         v = (if 48 \<le> n \<and> n \<le> 57 then Some (n - 48)
              else if 97 \<le> n \<and> n \<le> 102 then Some (n - 87)
              else if 65 \<le> n \<and> n \<le> 70 then Some (n - 55) else None)
     in case v of None \<Rightarrow> None | Some d \<Rightarrow> if d < radix then Some d else None)"

definition digit_char :: "nat \<Rightarrow> char" where
  "digit_char d = (if d < 10 then char_of (48 + d) else char_of (87 + d))"

lemma digit_val_char [simp]: "d < radix \<Longrightarrow> radix \<le> 16 \<Longrightarrow> digit_val radix (digit_char d) = Some d"
  by (auto simp: digit_val_def digit_char_def Let_def)

lemma digit_val_less: "digit_val radix c = Some d \<Longrightarrow> d < radix"
  by (auto simp: digit_val_def Let_def split: option.splits if_splits)

text \<open>\<^verbatim>\<open>{}\<close> and \<^verbatim>\<open>{:x}\<close> formatting of an unsigned integer.\<close>

fun show_nat :: "nat \<Rightarrow> nat \<Rightarrow> string" where
  "show_nat radix n =
    (if radix < 2 \<or> n < radix then [digit_char n]
     else show_nat radix (n div radix) @ [digit_char (n mod radix)])"

declare show_nat.simps [simp del]

lemmas show_nat_numeral [simp] =
  show_nat.simps [of "numeral r" "numeral n"]
  show_nat.simps [of "numeral r" 0]
  show_nat.simps [of "numeral r" 1]
  show_nat.simps [of "numeral r" "Suc 0"] for r n

lemma digit_char_values [simp]:
  "digit_char 0 = CHR ''0''"
  "digit_char 1 = CHR ''1''"
  "digit_char (Suc 0) = CHR ''1''"
  "digit_char 2 = CHR ''2''"
  "digit_char 3 = CHR ''3''"
  "digit_char 4 = CHR ''4''"
  "digit_char 5 = CHR ''5''"
  "digit_char 6 = CHR ''6''"
  "digit_char 7 = CHR ''7''"
  "digit_char 8 = CHR ''8''"
  "digit_char 9 = CHR ''9''"
  "digit_char 10 = CHR ''a''"
  "digit_char 11 = CHR ''b''"
  "digit_char 12 = CHR ''c''"
  "digit_char 13 = CHR ''d''"
  "digit_char 14 = CHR ''e''"
  "digit_char 15 = CHR ''f''"
  by code_simp+

abbreviation show_dec :: "nat \<Rightarrow> string" where "show_dec \<equiv> show_nat 10"
abbreviation show_hex :: "nat \<Rightarrow> string" where "show_hex \<equiv> show_nat 16"

text \<open>The value of a digit string, most significant digit first.\<close>

definition digits_val :: "nat \<Rightarrow> nat list \<Rightarrow> nat" where
  "digits_val radix ds = foldl (\<lambda>acc d. acc * radix + d) 0 ds"

lemma digits_val_simps [simp]:
  "digits_val r [] = 0" "digits_val r (ds @ [d]) = digits_val r ds * r + d"
  by (simp_all add: digits_val_def)

text \<open>The digits of a printed number, as values.\<close>

fun show_digits :: "nat \<Rightarrow> nat \<Rightarrow> nat list" where
  "show_digits radix n =
    (if radix < 2 \<or> n < radix then [n] else show_digits radix (n div radix) @ [n mod radix])"

declare show_digits.simps [simp del]

lemma show_nat_digits: "show_nat r n = map digit_char (show_digits r n)"
proof (induction r n rule: show_nat.induct)
  case (1 r n)
  then show ?case by (subst show_nat.simps, subst show_digits.simps) simp
qed

lemma show_digits_not_Nil [simp]: "show_digits r n \<noteq> []"
  by (subst show_digits.simps) simp

lemma show_nat_not_Nil [simp]: "show_nat r n \<noteq> []"
  by (simp add: show_nat_digits)

lemma show_digits_less: "2 \<le> r \<Longrightarrow> d \<in> set (show_digits r n) \<Longrightarrow> d < r"
proof (induction r n rule: show_digits.induct)
  case (1 r n)
  then show ?case by (subst (asm) (2) show_digits.simps) (auto split: if_splits)
qed

lemma show_digits_val: "2 \<le> r \<Longrightarrow> digits_val r (show_digits r n) = n"
proof (induction r n rule: show_digits.induct)
  case (1 r n)
  show ?case
  proof (cases "n < r")
    case True
    with 1 show ?thesis by (subst show_digits.simps) (simp add: digits_val_def)
  next
    case False
    with 1 have "digits_val r (show_digits r (n div r)) = n div r" by simp
    with False 1 show ?thesis by (subst show_digits.simps) simp
  qed
qed

lemma show_digits_hd: "2 \<le> r \<Longrightarrow> hd (show_digits r n) = 0 \<Longrightarrow> n = 0"
proof (induction r n rule: show_digits.induct)
  case (1 r n)
  show ?case
  proof (cases "n < r")
    case True
    with 1 show ?thesis by (subst (asm) (2) show_digits.simps) simp
  next
    case False
    with 1 have "hd (show_digits r (n div r)) = 0" by (subst (asm) (2) show_digits.simps) simp
    with 1 False have "n div r = 0" by simp
    with False 1 show ?thesis by (simp add: div_eq_0_iff)
  qed
qed

lemma show_digits_length: "2 \<le> r \<Longrightarrow> n < r ^ Suc k \<Longrightarrow> length (show_digits r n) \<le> Suc k"
proof (induction k arbitrary: n)
  case 0
  then show ?case by (subst show_digits.simps) simp
next
  case (Suc k)
  show ?case
  proof (cases "n < r")
    case True
    then show ?thesis by (subst show_digits.simps) simp
  next
    case False
    have "n div r < r ^ Suc k"
      using Suc.prems by (auto simp: div_less_iff_less_mult mult.commute)
    then have "length (show_digits r (n div r)) \<le> Suc k" using Suc by blast
    with False show ?thesis by (subst show_digits.simps) simp
  qed
qed

lemma digit_vals_show:
  assumes "2 \<le> r" "r \<le> 16"
  shows "map (digit_val r) (show_nat r n) = map Some (show_digits r n)"
  using assms by (auto simp: show_nat_digits intro!: digit_val_char show_digits_less)

lemma digit_char_show:
  "2 \<le> r \<Longrightarrow> r \<le> 16 \<Longrightarrow> c \<in> set (show_nat r n) \<Longrightarrow> digit_val r c \<noteq> None"
  by (auto simp: show_nat_digits dest!: show_digits_less)

text \<open>
  \<^verbatim>\<open>parse::<u16>()\<close> and \<^verbatim>\<open>parse::<u32>()\<close>: an optional plus sign, then at least one decimal
  digit, and the value below the type's bound.
\<close>

definition parse_digits :: "nat \<Rightarrow> string \<Rightarrow> nat option" where
  "parse_digits bound s =
    (let vs = map (digit_val 10) s
     in if s = [] \<or> None \<in> set vs then None
        else let n = digits_val 10 (map the vs) in if n < bound then Some n else None)"

definition parse_uint :: "nat \<Rightarrow> string \<Rightarrow> nat option" where
  "parse_uint bound s =
    (case s of [] \<Rightarrow> None
     | c # r \<Rightarrow> if c = CHR ''+'' then parse_digits bound r else parse_digits bound s)"

definition parse_u16 :: "string \<Rightarrow> u16 option" where
  "parse_u16 s = map_option word_of_nat (parse_uint 65536 s)"

lemma parse_digits_show: "n < bound \<Longrightarrow> parse_digits bound (show_dec n) = Some n"
  by (simp add: parse_digits_def digit_vals_show Let_def image_iff del: map_map)
    (simp add: show_digits_val comp_def)

lemma show_dec_no_sign: "show_dec n = c # r \<Longrightarrow> c \<noteq> CHR ''+''"
proof
  assume "show_dec n = c # r" and "c = CHR ''+''"
  then have "digit_val 10 (CHR ''+'') \<noteq> None" using digit_char_show [of 10 "CHR ''+''" n] by simp
  then show False by (simp add: digit_val_def)
qed

lemma parse_u16_show [simp]: "parse_u16 (show_dec (unat (p :: u16))) = Some p"
proof -
  have b: "unat p < 65536" using unsigned_less [of p] by simp
  obtain c r where s: "show_dec (unat p) = c # r" by (cases "show_dec (unat p)") auto
  with b have "parse_uint 65536 (show_dec (unat p)) = Some (unat p)"
    using parse_digits_show [OF b] by (auto simp: parse_uint_def dest: show_dec_no_sign)
  then show ?thesis by (simp add: parse_u16_def)
qed

lemma show_dec_no_char:
  "digit_val 10 c = None \<Longrightarrow> c \<notin> set (show_dec n)"
  using digit_char_show [of 10 c n] by auto

end
