(* ===== verification/Net_Addr.thy ===== *)
theory Net_Addr
  imports Rust_Str
begin

text \<open>
  \<^verbatim>\<open>std::net\<close>: IP and socket addresses, their textual form and its parser, as far as the
  modelled code uses them (\<^verbatim>\<open>to_string\<close>, \<^verbatim>\<open>parse\<close>, \<^verbatim>\<open>octets\<close>, \<^verbatim>\<open>ip\<close>, \<^verbatim>\<open>port\<close>). The
  parser follows the recursive-descent parser of the standard library.
\<close>

section \<open>Addresses\<close>

datatype ip_addr = V4 u32 | V6 u128

text \<open>A V6 socket address also carries a flow label and a scope id.\<close>

datatype socket_addr = SocketV4 u32 u16 | SocketV6 u128 u16 u32 u32

fun is_ipv4 :: "ip_addr \<Rightarrow> bool" where
  "is_ipv4 (V4 _) = True"
| "is_ipv4 (V6 _) = False"

fun socket_ip :: "socket_addr \<Rightarrow> ip_addr" where
  "socket_ip (SocketV4 a _) = V4 a"
| "socket_ip (SocketV6 a _ _ _) = V6 a"

fun socket_port :: "socket_addr \<Rightarrow> u16" where
  "socket_port (SocketV4 _ p) = p"
| "socket_port (SocketV6 _ p _ _) = p"

text \<open>\<^verbatim>\<open>SocketAddr::new\<close> and the conversion from a pair: flow label and scope id are 0.\<close>

fun socket_new :: "ip_addr \<Rightarrow> u16 \<Rightarrow> socket_addr" where
  "socket_new (V4 a) p = SocketV4 a p"
| "socket_new (V6 a) p = SocketV6 a p 0 0"

lemma socket_new_simps [simp]: "socket_ip (socket_new a p) = a" "socket_port (socket_new a p) = p"
  by (cases a; simp)+

section \<open>Parsing\<close>

type_synonym 'a parser = "string \<Rightarrow> ('a \<times> string) option"

definition read_given_char :: "char \<Rightarrow> unit parser" where
  "read_given_char c s = (case s of [] \<Rightarrow> None | x # r \<Rightarrow> if x = c then Some ((), r) else None)"

text \<open>
  \<^verbatim>\<open>read_number\<close>: as many digits as there are; more than \<open>max_digits\<close>, no digit, a refused
  leading zero or a value outside the integer type (\<open>bound\<close>) is a failure.
\<close>

definition read_number :: "nat \<Rightarrow> nat option \<Rightarrow> bool \<Rightarrow> nat \<Rightarrow> nat parser" where
  "read_number radix max_digits allow_zero_prefix bound s =
    (let ds = takeWhile (\<lambda>c. digit_val radix c \<noteq> None) s;
         n = digits_val radix (map (\<lambda>c. the (digit_val radix c)) ds)
     in if ds = [] \<or>
           (case max_digits of None \<Rightarrow> False | Some m \<Rightarrow> m < length ds) \<or>
           (\<not> allow_zero_prefix \<and> hd s = CHR ''0'' \<and> 1 < length ds) \<or>
           bound \<le> n
        then None else Some (n, drop (length ds) s))"

definition read_separator :: "char \<Rightarrow> nat \<Rightarrow> 'a parser \<Rightarrow> 'a parser" where
  "read_separator sep i p s =
    (if 0 < i then (case read_given_char sep s of None \<Rightarrow> None | Some (_, r) \<Rightarrow> p r) else p s)"

definition read_octet :: "nat \<Rightarrow> nat parser" where
  "read_octet i = read_separator (CHR ''.'') i (read_number 10 (Some 3) False 256)"

definition read_ipv4_addr :: "u32 parser" where
  "read_ipv4_addr s =
    Option.bind (read_octet 0 s) (\<lambda>(a, s).
    Option.bind (read_octet 1 s) (\<lambda>(b, s).
    Option.bind (read_octet 2 s) (\<lambda>(c, s).
    Option.bind (read_octet 3 s) (\<lambda>(d, s).
      Some (be_get (map word_of_nat [a, b, c, d]), s)))))"

text \<open>
  \<open>read_groups limit k s acc\<close>: the groups of an IPv6 address, \<open>k\<close> slots of \<open>limit\<close>
  still free and \<open>acc\<close> read; the flag says that the last two came from an embedded IPv4 address.
\<close>

fun read_groups :: "nat \<Rightarrow> nat \<Rightarrow> string \<Rightarrow> u16 list \<Rightarrow> u16 list \<times> bool \<times> string" where
  "read_groups limit 0 s acc = (acc, False, s)"
| "read_groups limit (Suc k) s acc =
    (let i = length acc in
     case (if i < limit - 1 then read_separator (CHR '':'') i read_ipv4_addr s else None) of
       Some (v4, r) \<Rightarrow>
         (acc @ [be_get (take 2 (be_put 4 v4)), be_get (drop 2 (be_put 4 v4))], True, r)
     | None \<Rightarrow>
         (case read_separator (CHR '':'') i (read_number 16 (Some 4) True 65536) s of
            Some (g, r) \<Rightarrow> read_groups limit k r (acc @ [word_of_nat g])
          | None \<Rightarrow> (acc, False, s)))"

definition ipv6_of_groups :: "u16 list \<Rightarrow> u128" where
  "ipv6_of_groups gs = be_get (concat (map (be_put 2) gs))"

definition read_ipv6_addr :: "u128 parser" where
  "read_ipv6_addr s =
    (let (head, head_ipv4, s1) = read_groups 8 8 s [] in
     if length head = 8 then Some (ipv6_of_groups head, s1)
     else if head_ipv4 then None
     else Option.bind (read_given_char (CHR '':'') s1) (\<lambda>(_, s2).
          Option.bind (read_given_char (CHR '':'') s2) (\<lambda>(_, s3).
            let limit = 8 - (length head + 1);
                (tail, _, s4) = read_groups limit limit s3 []
            in Some (ipv6_of_groups (head @ replicate (8 - length head - length tail) 0 @ tail), s4))))"

definition read_ip_addr :: "ip_addr parser" where
  "read_ip_addr s =
    (case read_ipv4_addr s of
       Some (a, r) \<Rightarrow> Some (V4 a, r)
     | None \<Rightarrow> map_option (apfst V6) (read_ipv6_addr s))"

definition read_port :: "u16 parser" where
  "read_port s =
    Option.bind (read_given_char (CHR '':'') s) (\<lambda>(_, r).
      map_option (apfst word_of_nat) (read_number 10 None True 65536 r))"

definition read_socket_addr_v4 :: "socket_addr parser" where
  "read_socket_addr_v4 s =
    Option.bind (read_ipv4_addr s) (\<lambda>(a, s).
    Option.bind (read_port s) (\<lambda>(p, s). Some (SocketV4 a p, s)))"

definition read_scope_id :: "u32 parser" where
  "read_scope_id s =
    Option.bind (read_given_char (CHR ''%'') s) (\<lambda>(_, r).
      map_option (apfst word_of_nat) (read_number 10 None True (2 ^ 32) r))"

definition read_socket_addr_v6 :: "socket_addr parser" where
  "read_socket_addr_v6 s =
    Option.bind (read_given_char (CHR ''['') s) (\<lambda>(_, s).
    Option.bind (read_ipv6_addr s) (\<lambda>(a, s).
      let (scope, s) = (case read_scope_id s of None \<Rightarrow> (0, s) | Some (i, r) \<Rightarrow> (i, r)) in
    Option.bind (read_given_char (CHR '']'') s) (\<lambda>(_, s).
    Option.bind (read_port s) (\<lambda>(p, s). Some (SocketV6 a p 0 scope, s)))))"

definition read_socket_addr :: "socket_addr parser" where
  "read_socket_addr s =
    (case read_socket_addr_v4 s of Some r \<Rightarrow> Some r | None \<Rightarrow> read_socket_addr_v6 s)"

text \<open>\<^verbatim>\<open>parse_with\<close>: the whole input has to be consumed.\<close>

definition parse_with :: "'a parser \<Rightarrow> string \<Rightarrow> 'a option" where
  "parse_with p s = (case p s of Some (x, []) \<Rightarrow> Some x | _ \<Rightarrow> None)"

definition parse_ipv4 :: "string \<Rightarrow> u32 option" where
  "parse_ipv4 = parse_with read_ipv4_addr"

definition parse_ipv6 :: "string \<Rightarrow> u128 option" where
  "parse_ipv6 = parse_with read_ipv6_addr"

definition parse_ip :: "string \<Rightarrow> ip_addr option" where
  "parse_ip = parse_with read_ip_addr"

definition parse_socket_addr :: "string \<Rightarrow> socket_addr option" where
  "parse_socket_addr = parse_with read_socket_addr"

section \<open>Printing\<close>

definition show_ipv4 :: "u32 \<Rightarrow> string" where
  "show_ipv4 a = str_join (CHR ''.'') (map (\<lambda>b. show_dec (unat b)) (be_put 4 a))"

definition ipv6_groups :: "u128 \<Rightarrow> u16 list" where
  "ipv6_groups a = map (\<lambda>i. be_get (take 2 (drop (2 * i) (be_put 16 a)))) [0..<8]"

text \<open>\<^verbatim>\<open>to_ipv4_mapped\<close>: \<^verbatim>\<open>::ffff:a.b.c.d\<close>.\<close>

definition to_ipv4_mapped :: "u128 \<Rightarrow> u32 option" where
  "to_ipv4_mapped a =
    (let bs = be_put 16 a
     in if take 12 bs = replicate 10 0 @ [0xFF, 0xFF] then Some (be_get (drop 12 bs)) else None)"

text \<open>The longest run of zero groups, the first one of that length: start and length.\<close>

fun zero_run :: "u16 list \<Rightarrow> nat \<Rightarrow> nat \<times> nat \<Rightarrow> nat \<times> nat \<Rightarrow> nat \<times> nat" where
  "zero_run [] i longest current = longest"
| "zero_run (g # gs) i longest current =
    (if g = 0
     then let current = (if snd current = 0 then (i, 1) else (fst current, snd current + 1))
          in zero_run gs (i + 1) (if snd longest < snd current then current else longest) current
     else zero_run gs (i + 1) longest (0, 0))"

definition show_groups :: "u16 list \<Rightarrow> string" where
  "show_groups gs = str_join (CHR '':'') (map (\<lambda>g. show_hex (unat g)) gs)"

definition show_ipv6 :: "u128 \<Rightarrow> string" where
  "show_ipv6 a =
    (case to_ipv4_mapped a of
       Some v4 \<Rightarrow> ''::ffff:'' @ show_ipv4 v4
     | None \<Rightarrow>
         (let gs = ipv6_groups a; (start, len) = zero_run gs 0 (0, 0) (0, 0)
          in if 1 < len then show_groups (take start gs) @ ''::'' @ show_groups (drop (start + len) gs)
             else show_groups gs))"

fun show_ip :: "ip_addr \<Rightarrow> string" where
  "show_ip (V4 a) = show_ipv4 a"
| "show_ip (V6 a) = show_ipv6 a"

fun show_socket_addr :: "socket_addr \<Rightarrow> string" where
  "show_socket_addr (SocketV4 a p) = show_ipv4 a @ '':'' @ show_dec (unat p)"
| "show_socket_addr (SocketV6 a p _ scope) =
     ''['' @ show_ipv6 a @ (if scope = 0 then [] else ''%'' @ show_dec (unat scope)) @ '']:'' @
     show_dec (unat p)"

section \<open>Printing and parsing are inverse\<close>

text \<open>A rest of input at which a number ends.\<close>

definition ends_num :: "nat \<Rightarrow> string \<Rightarrow> bool" where
  "ends_num radix r \<longleftrightarrow> r = [] \<or> digit_val radix (hd r) = None"

lemma ends_num_simps [simp]:
  "ends_num radix []" "ends_num radix (c # r) \<longleftrightarrow> digit_val radix c = None"
  by (simp_all add: ends_num_def)

lemma sep_not_digit [simp]:
  "digit_val r (CHR ''.'') = None" "digit_val r (CHR '':'') = None" "digit_val r (CHR ''['') = None"
  "digit_val r (CHR '']'') = None" "digit_val r (CHR ''%'') = None"
  by (simp_all add: digit_val_def)

lemma digit_char_eq_zero: "d < 16 \<Longrightarrow> digit_char d = CHR ''0'' \<longleftrightarrow> d = 0"
proof -
  assume d: "d < 16"
  have "digit_val 16 (digit_char d) = Some d" using d by simp
  moreover have "digit_val 16 (CHR ''0'') = Some 0" by (simp add: digit_val_def)
  moreover have "digit_char 0 = CHR ''0''" by code_simp
  ultimately show ?thesis by auto
qed

lemma takeWhile_show:
  assumes "2 \<le> radix" "radix \<le> 16" "ends_num radix r"
  shows "takeWhile (\<lambda>c. digit_val radix c \<noteq> None) (show_nat radix n @ r) = show_nat radix n"
proof -
  have "\<forall>c \<in> set (show_nat radix n). digit_val radix c \<noteq> None"
    using assms digit_char_show by blast
  then have "takeWhile (\<lambda>c. digit_val radix c \<noteq> None) (show_nat radix n @ r) =
      show_nat radix n @ takeWhile (\<lambda>c. digit_val radix c \<noteq> None) r"
    by (simp add: takeWhile_append2)
  also have "takeWhile (\<lambda>c. digit_val radix c \<noteq> None) r = []"
    using assms(3) by (cases r) auto
  finally show ?thesis by simp
qed

lemma read_number_show:
  assumes "2 \<le> radix" "radix \<le> 16" "n < bound" "ends_num radix r"
    and "\<And>m. max_digits = Some m \<Longrightarrow> length (show_nat radix n) \<le> m"
  shows "read_number radix max_digits zero bound (show_nat radix n @ r) = Some (n, r)"
proof -
  have "map (\<lambda>c. the (digit_val radix c)) (show_nat radix n) =
      map the (map (digit_val radix) (show_nat radix n))" by simp
  also have "\<dots> = map the (map Some (show_digits radix n))"
    by (simp only: digit_vals_show [OF assms(1,2)])
  also have "\<dots> = show_digits radix n" by (simp add: comp_def)
  finally have val: "digits_val radix (map (\<lambda>c. the (digit_val radix c)) (show_nat radix n)) = n"
    using show_digits_val [OF assms(1), of n] by simp
  have zero: "hd (show_nat radix n @ r) = CHR ''0'' \<Longrightarrow> length (show_nat radix n) = 1"
  proof -
    assume hd0: "hd (show_nat radix n @ r) = CHR ''0''"
    obtain d ds where ds: "show_digits radix n = d # ds"
      by (cases "show_digits radix n") auto
    then have "d < radix" using show_digits_less [OF assms(1), of d n] by simp
    moreover from hd0 ds have "digit_char d = CHR ''0''" by (simp add: show_nat_digits)
    ultimately have "d = 0" using assms(2) digit_char_eq_zero [of d] by simp
    with ds have "n = 0" using show_digits_hd [OF assms(1), of n] by simp
    with assms(1) show ?thesis by (simp add: show_nat_digits) (subst show_digits.simps, simp)
  qed
  show ?thesis
    using assms(3,5) val zero takeWhile_show [OF assms(1,2,4), of n]
    by (auto simp: read_number_def Let_def split: option.splits)
qed

lemma read_octet_show:
  assumes "ends_num 10 r"
  shows "read_octet 0 (show_dec (unat (b :: u8)) @ r) = Some (unat b, r)"
    and "0 < i \<Longrightarrow> read_octet i (CHR ''.'' # show_dec (unat b) @ r) = Some (unat b, r)"
proof -
  have b: "unat b < 256" using unsigned_less [of b] by simp
  then have "length (show_digits 10 (unat b)) \<le> Suc 2" by (intro show_digits_length) simp_all
  then have "read_number 10 (Some 3) False 256 (show_dec (unat b) @ r) = Some (unat b, r)"
    using assms b by (intro read_number_show) (simp_all add: show_nat_digits)
  then show "read_octet 0 (show_dec (unat b) @ r) = Some (unat b, r)"
    and "0 < i \<Longrightarrow> read_octet i (CHR ''.'' # show_dec (unat b) @ r) = Some (unat b, r)"
    by (simp_all add: read_octet_def read_separator_def read_given_char_def)
qed

lemma length4_eq: "length xs = 4 \<Longrightarrow> \<exists>a b c d. xs = [a, b, c, d]"
  by (auto simp: length_Suc_conv numeral_eq_Suc)

lemma read_ipv4_show:
  assumes "ends_num 10 r"
  shows "read_ipv4_addr (show_ipv4 a @ r) = Some (a, r)"
proof -
  obtain w x y z where o: "be_put 4 a = [w, x, y, z]" using length4_eq [of "be_put 4 a"] by auto
  have s: "show_ipv4 a @ r = show_dec (unat w) @ CHR ''.'' # show_dec (unat x) @ CHR ''.'' #
      show_dec (unat y) @ CHR ''.'' # show_dec (unat z) @ r"
    by (simp add: show_ipv4_def o)
  have "be_get [w, x, y, z] = a" using be_get_u32 [of a] by (simp add: o)
  then show ?thesis
    using assms unfolding s by (simp add: read_ipv4_addr_def read_octet_show)
qed

lemma parse_ipv4_show [simp]: "parse_ipv4 (show_ipv4 a) = Some a"
  using read_ipv4_show [of "[]" a] by (simp add: parse_ipv4_def parse_with_def)

lemma parse_ip_show_v4 [simp]: "parse_ip (show_ipv4 a) = Some (V4 a)"
  using read_ipv4_show [of "[]" a] by (simp add: parse_ip_def parse_with_def read_ip_addr_def)

lemma show_ipv4_inj: "show_ipv4 a = show_ipv4 b \<longleftrightarrow> a = b"
  by (metis parse_ipv4_show option.inject)

lemma read_port_show: "read_port (CHR '':'' # show_dec (unat (p :: u16))) = Some (p, [])"
proof -
  have "unat p < 65536" using unsigned_less [of p] by simp
  then have "read_number 10 None True 65536 (show_dec (unat p) @ []) = Some (unat p, [])"
    by (intro read_number_show) simp_all
  then show ?thesis by (simp add: read_port_def read_given_char_def)
qed

lemma parse_socket_addr_show_v4:
  "parse_socket_addr (show_socket_addr (SocketV4 a p)) = Some (SocketV4 a p)"
  using read_ipv4_show [of "CHR '':'' # show_dec (unat p)" a]
  by (simp add: parse_socket_addr_def parse_with_def read_socket_addr_def read_socket_addr_v4_def
      read_port_show)

subsection \<open>IPv6\<close>

lemma concat_chunks: "concat (map (\<lambda>i. take k (drop (k * i) xs)) [0..<n]) = take (k * n) xs"
proof (induction n)
  case (Suc n)
  have "take (k * Suc n) xs = take (k * n + k) xs" by (simp add: add.commute)
  with Suc show ?case by (simp only: take_add) simp
qed simp

lemma ipv6_of_groups_groups [simp]: "ipv6_of_groups (ipv6_groups a) = a"
proof -
  let ?bs = "be_put 16 a"
  have "be_put 2 (be_get (take 2 (drop (2 * i) ?bs)) :: u16) = take 2 (drop (2 * i) ?bs)"
    if "i < 8" for i
    using that by (intro be_put_be_get) simp_all
  then have "concat (map (be_put 2) (ipv6_groups a)) =
      concat (map (\<lambda>i. take 2 (drop (2 * i) ?bs)) [0..<8])"
    by (auto simp: ipv6_groups_def intro!: arg_cong [where f = concat])
  also have "\<dots> = ?bs" by (subst concat_chunks) simp
  finally show ?thesis by (simp add: ipv6_of_groups_def)
qed

lemma length_ipv6_groups [simp]: "length (ipv6_groups a) = 8"
  by (simp add: ipv6_groups_def)

text \<open>The groups as the parser meets them: a colon before each but the very first.\<close>

fun sep_groups :: "bool \<Rightarrow> u16 list \<Rightarrow> string" where
  "sep_groups first [] = []"
| "sep_groups first (g # gs) = (if first then [] else '':'') @ show_hex (unat g) @ sep_groups False gs"

lemma show_groups_sep: "show_groups gs = sep_groups True gs"
proof -
  have "gs \<noteq> [] \<Longrightarrow> '':'' @ show_groups gs = sep_groups False gs" for gs
    by (induction gs rule: induct_list012) (simp_all add: show_groups_def)
  from this [of gs] show ?thesis by (cases gs) (auto simp: show_groups_def)
qed

definition ends_groups :: "string \<Rightarrow> bool" where
  "ends_groups r \<longleftrightarrow> r = [] \<or> hd r = CHR '':'' \<or> hd r = CHR '']'' \<or> hd r = CHR ''%''"

lemma ends_groups_num: "ends_groups r \<Longrightarrow> ends_num 16 r"
  and ends_groups_num10: "ends_groups r \<Longrightarrow> ends_num 10 r"
  by (cases r; auto simp: ends_groups_def)+

lemma ends_groups_sep: "ends_groups r \<Longrightarrow> ends_groups (sep_groups False gs @ r)"
  by (cases gs) (auto simp: ends_groups_def)

lemma read_number_none: "ends_num radix s \<Longrightarrow> read_number radix m z b s = None"
  by (cases s) (auto simp: read_number_def Let_def)

lemma read_ipv4_none: "ends_num 10 s \<Longrightarrow> read_ipv4_addr s = None"
  by (simp add: read_ipv4_addr_def read_octet_def read_separator_def read_number_none)

lemma read_ipv4_hex_none:
  assumes "ends_groups r"
  shows "read_ipv4_addr (show_hex n @ r) = None"
proof -
  have "CHR ''.'' \<notin> set (show_hex n)" using digit_char_show [of 16 "CHR ''.''" n] by auto
  moreover have "r = [] \<or> hd r \<noteq> CHR ''.''" using assms by (auto simp: ends_groups_def)
  ultimately have dot: "drop k (show_hex n @ r) = [] \<or> hd (drop k (show_hex n @ r)) \<noteq> CHR ''.''"
    if "k \<le> length (show_hex n)" for k
    using that in_set_dropD [of "CHR ''.''" k "show_hex n"] by (cases "drop k (show_hex n)") auto
  have len: "length (takeWhile (\<lambda>c. digit_val 10 c \<noteq> None) (show_hex n @ r)) \<le> length (show_hex n)"
    (is "length (takeWhile ?P _) \<le> _")
  proof -
    have "takeWhile ?P r = []"
      using ends_groups_num10 [OF assms] by (cases r) auto
    then show ?thesis
      by (simp add: takeWhile_append length_takeWhile_le)
  qed
  have "read_octet 0 (show_hex n @ r) = None \<or>
      (\<exists>a. read_octet 0 (show_hex n @ r) =
        Some (a, drop (length (takeWhile ?P (show_hex n @ r))) (show_hex n @ r)))"
    by (auto simp: read_octet_def read_separator_def read_number_def Let_def)
  moreover have "read_octet 1 (drop (length (takeWhile ?P (show_hex n @ r))) (show_hex n @ r)) = None"
    using dot [OF len]
    by (auto simp: read_octet_def read_separator_def read_given_char_def split: list.splits)
  ultimately show ?thesis by (auto simp: read_ipv4_addr_def)
qed

lemma read_group_show:
  assumes "ends_groups r"
  shows "read_number 16 (Some 4) True 65536 (show_hex (unat (g :: u16)) @ r) = Some (unat g, r)"
proof -
  have g: "unat g < 65536" using unsigned_less [of g] by simp
  then have "length (show_digits 16 (unat g)) \<le> Suc 3" by (intro show_digits_length) simp_all
  then show ?thesis
    using assms g by (intro read_number_show) (simp_all add: show_nat_digits ends_groups_num)
qed

lemma read_groups_show:
  "length gs \<le> k \<Longrightarrow> ends_groups r \<Longrightarrow>
   read_groups limit k (sep_groups (acc = []) gs @ r) acc = read_groups limit (k - length gs) r (acc @ gs)"
proof (induction gs arbitrary: k acc)
  case (Cons g gs)
  then obtain k' where k: "k = Suc k'" by (cases k) auto
  let ?r = "sep_groups False gs @ r"
  have r: "ends_groups ?r" using Cons.prems by (simp add: ends_groups_sep)
  have "read_groups limit k (sep_groups (acc = []) (g # gs) @ r) acc =
      read_groups limit k' ?r (acc @ [g])"
    using read_group_show [OF r, of g] read_ipv4_hex_none [OF r, of "unat g"]
    by (simp add: k Let_def read_separator_def read_given_char_def)
  also have "\<dots> = read_groups limit (k' - length gs) r ((acc @ [g]) @ gs)"
    using Cons.IH [of k' "acc @ [g]"] Cons.prems k by simp
  finally show ?case by (simp add: k)
qed simp

lemma read_groups_stop:
  assumes "r = [] \<or> hd r = CHR '']'' \<or> hd r = CHR ''%''"
  shows "read_groups limit k r acc = (acc, False, r)"
proof (cases k)
  case (Suc k')
  have "ends_num 10 r" "ends_num 16 r" using assms by (cases r; auto)+
  with assms Suc show ?thesis
    by (cases r) (auto simp: Let_def read_separator_def read_given_char_def read_number_none read_ipv4_none)
qed simp

lemma read_groups_colons:
  "read_groups limit k (CHR '':'' # CHR '':'' # t) acc = (acc, False, CHR '':'' # CHR '':'' # t)"
  by (cases k)
    (simp_all add: Let_def read_separator_def read_given_char_def read_number_none read_ipv4_none)

definition zeros :: "u16 list \<Rightarrow> nat \<Rightarrow> nat \<times> nat \<Rightarrow> bool" where
  "zeros gs i r \<longleftrightarrow> fst r + snd r \<le> i \<and> (\<forall>j. fst r \<le> j \<and> j < fst r + snd r \<longrightarrow> gs ! j = 0)"

lemma zeros_cong: "zeros gs i r \<Longrightarrow> i \<le> k \<Longrightarrow> zeros gs k r"
  by (auto simp: zeros_def)

lemma zero_run_spec:
  assumes "zeros (pre @ xs) (length pre) longest" and "zeros (pre @ xs) (length pre) current"
    and "snd current \<noteq> 0 \<longrightarrow> fst current + snd current = length pre"
  shows "zeros (pre @ xs) (length (pre @ xs)) (zero_run xs (length pre) longest current)"
  using assms
proof (induction xs arbitrary: pre longest current)
  case (Cons g xs)
  let ?all = "pre @ g # xs"
  have lo: "zeros ?all (Suc (length pre)) longest" using Cons.prems(1) by (rule zeros_cong) simp
  show ?case
  proof (cases "g = 0")
    case False
    then show ?thesis
      using Cons.IH [of "pre @ [g]" longest "(0, 0)"] lo by (simp add: zeros_def)
  next
    case True
    define cur where "cur = (if snd current = 0 then (length pre, 1) else (fst current, snd current + 1))"
    have end_cur: "fst cur + snd cur = Suc (length pre)"
      using Cons.prems(3) by (auto simp: cur_def)
    have "?all ! j = 0" if "fst cur \<le> j" "j < fst cur + snd cur" for j
    proof (cases "j = length pre")
      case False
      then have "fst current \<le> j" "j < fst current + snd current"
        using that Cons.prems(3) by (auto simp: cur_def split: if_splits)
      then show ?thesis using Cons.prems(2) by (simp add: zeros_def)
    qed (simp add: True)
    then have cur: "zeros ?all (Suc (length pre)) cur" using end_cur by (simp add: zeros_def)
    show ?thesis
      using Cons.IH [of "pre @ [g]" "if snd longest < snd cur then cur else longest" cur]
        lo cur end_cur True
      by (simp add: cur_def [symmetric] Let_def)
  qed
qed simp

lemma zero_run_split:
  assumes "zero_run gs 0 (0, 0) (0, 0) = (s, n)"
  shows "s + n \<le> length gs" and "take s gs @ replicate n 0 @ drop (s + n) gs = gs"
proof -
  have z: "zeros gs (length gs) (s, n)"
    using zero_run_spec [of "[]" gs "(0, 0)" "(0, 0)"] assms by (simp add: zeros_def)
  then show le: "s + n \<le> length gs" by (simp add: zeros_def)
  have "take n (drop s gs) = replicate n 0"
    using z le by (intro nth_equalityI) (auto simp: zeros_def)
  then show "take s gs @ replicate n 0 @ drop (s + n) gs = gs"
    by (metis append_take_drop_id drop_drop add.commute)
qed

definition ends_addr :: "string \<Rightarrow> bool" where
  "ends_addr r \<longleftrightarrow> r = [] \<or> hd r = CHR '']'' \<or> hd r = CHR ''%''"

lemma ends_addr_groups: "ends_addr r \<Longrightarrow> ends_groups r"
  by (auto simp: ends_addr_def ends_groups_def)

lemma ends_addr_num: "ends_addr r \<Longrightarrow> ends_num 10 r"
  by (cases r) (auto simp: ends_addr_def)

lemma read_groups_ipv4:
  assumes "ends_num 10 r" and "acc \<noteq> []" and "length acc < limit - 1"
  shows "read_groups limit (Suc k) (CHR '':'' # show_ipv4 v4 @ r) acc =
    (acc @ [be_get (take 2 (be_put 4 v4)), be_get (drop 2 (be_put 4 v4))], True, r)"
  using read_ipv4_show [OF assms(1), of v4] assms(2,3)
  by (simp add: Let_def read_separator_def read_given_char_def)

lemma replicate_num: "replicate (numeral k) x = x # replicate (pred_numeral k) x"
  by (simp add: numeral_eq_Suc)

lemma read_ipv6_mapped:
  assumes "to_ipv4_mapped a = Some v4" and r: "ends_addr r"
  shows "read_ipv6_addr (''::ffff:'' @ show_ipv4 v4 @ r) = Some (a, r)"
proof -
  let ?bs = "be_put 16 a" and ?v = "CHR '':'' # show_ipv4 v4 @ r"
  let ?tail = "[be_get (take 2 (be_put 4 v4)), be_get (drop 2 (be_put 4 v4))] :: u16 list"
  have pre: "take 12 ?bs = replicate 10 0 @ [0xFF, 0xFF]" and v4: "v4 = be_get (drop 12 ?bs)"
    using assms by (auto simp: to_ipv4_mapped_def Let_def split: if_splits)
  have hex: "show_hex (unat (0xFFFF :: u16)) = ''ffff''" by simp
  have "read_groups 7 7 (''ffff'' @ ?v) [] = read_groups 7 6 ?v [0xFFFF]"
    using read_groups_show [of "[0xFFFF]" 7 ?v 7 "[]"] hex by (simp add: ends_groups_def)
  also have "\<dots> = ([0xFFFF] @ ?tail, True, r)"
    using read_groups_ipv4 [of r "[0xFFFF]" 7 5 v4] ends_addr_num [OF r] by simp
  finally have tail: "read_groups 7 7 (''ffff'' @ ?v) [] = ([0xFFFF] @ ?tail, True, r)" .
  have "be_put 4 v4 = drop 12 ?bs" unfolding v4 by (rule be_put_be_get) simp_all
  then have "concat (map (be_put 2) ?tail) = drop 12 ?bs"
    by (simp add: be_put_be_get del: drop_drop)
  moreover have "concat (map (be_put 2) (replicate 5 (0 :: u16) @ [0xFFFF])) = take 12 ?bs"
    unfolding pre by (simp add: be_put_def replicate_num)
  ultimately have "concat (map (be_put 2) (replicate 5 (0 :: u16) @ [0xFFFF] @ ?tail)) = ?bs"
    by (metis append.assoc append_take_drop_id concat_append map_append)
  then have "ipv6_of_groups (replicate 5 0 @ [0xFFFF] @ ?tail) = a"
    by (simp add: ipv6_of_groups_def)
  with tail read_groups_colons [of 8 8 "''ffff'' @ ?v" "[]"] show ?thesis
    by (simp add: read_ipv6_addr_def read_given_char_def)
qed

lemma read_ipv6_show:
  assumes r: "ends_addr r"
  shows "read_ipv6_addr (show_ipv6 a @ r) = Some (a, r)"
proof (cases "to_ipv4_mapped a")
  case (Some v4)
  then show ?thesis using read_ipv6_mapped [OF Some r] by (simp add: show_ipv6_def)
next
  case None
  let ?gs = "ipv6_groups a"
  obtain s n where z: "zero_run ?gs 0 (0, 0) (0, 0) = (s, n)" by fastforce
  note split = zero_run_split [OF z, simplified]
  have stop: "read_groups limit k r acc = (acc, False, r)" for limit k acc
    using r by (intro read_groups_stop) (auto simp: ends_addr_def)
  show ?thesis
  proof (cases "1 < n")
    case False
    have "read_groups 8 8 (show_groups ?gs @ r) [] = (?gs, False, r)"
      using read_groups_show [of ?gs 8 r 8 "[]"] ends_addr_groups [OF r]
      by (simp add: show_groups_sep)
    with None False z show ?thesis by (simp add: show_ipv6_def read_ipv6_addr_def)
  next
    case True
    let ?hd = "take s ?gs" and ?tl = "drop (s + n) ?gs"
    let ?t = "show_groups ?tl @ r"
    have "read_groups 8 8 (show_groups ?hd @ CHR '':'' # CHR '':'' # ?t) [] =
        (?hd, False, CHR '':'' # CHR '':'' # ?t)"
      using read_groups_show [of ?hd 8 "CHR '':'' # CHR '':'' # ?t" 8 "[]"]
      by (simp add: show_groups_sep ends_groups_def read_groups_colons)
    moreover have "read_groups (7 - s) (7 - s) ?t [] = (?tl, False, r)"
      using read_groups_show [of ?tl "7 - s" r "7 - s" "[]"] ends_addr_groups [OF r] True split(1)
      by (simp add: show_groups_sep stop)
    moreover have "length ?hd = s" "8 - s - length ?tl = n" "s \<noteq> 8" using split(1) True by simp_all
    moreover have "ipv6_of_groups (?hd @ replicate n 0 @ ?tl) = a" by (simp only: split(2) ipv6_of_groups_groups)
    ultimately show ?thesis
      using None True z by (simp add: show_ipv6_def read_ipv6_addr_def read_given_char_def Let_def)
  qed
qed

lemma show_ipv6_no_ipv4: "ends_addr r \<Longrightarrow> read_ipv4_addr (show_ipv6 a @ r) = None"
proof -
  assume r: "ends_addr r"
  have "read_ipv4_addr (sep_groups True gs @ t) = None" if "ends_groups t" for gs t
    using that by (cases gs)
      (simp_all add: read_ipv4_hex_none ends_groups_sep read_ipv4_none ends_groups_num10)
  from this [of "CHR '':'' # CHR '':'' # t" for t] this [OF ends_addr_groups [OF r]] show ?thesis
    by (auto simp: show_ipv6_def Let_def show_groups_sep read_ipv4_none ends_groups_def
        split: option.split prod.split)
qed

lemma parse_ip_show [simp]: "parse_ip (show_ip a) = Some a"
proof (cases a)
  case (V6 b)
  then show ?thesis
    using read_ipv6_show [of "[]" b] show_ipv6_no_ipv4 [of "[]" b]
    by (simp add: parse_ip_def parse_with_def read_ip_addr_def ends_addr_def)
qed simp

text \<open>A text that starts with neither a hexadecimal digit nor a colon is no address.\<close>

lemma ends_num_16_10: "ends_num 16 s \<Longrightarrow> ends_num 10 s"
  by (cases s) (auto simp: digit_val_def Let_def split: if_splits)

lemma read_groups_none: "ends_num 16 s \<Longrightarrow> read_groups limit k s [] = ([], False, s)"
  by (cases k) (simp_all add: read_separator_def read_number_none read_ipv4_none ends_num_16_10)

lemma parse_ip_none: "digit_val 16 c = None \<Longrightarrow> c \<noteq> CHR '':'' \<Longrightarrow> parse_ip (c # s) = None"
  using ends_num_16_10 [of "c # s"]
  by (simp add: parse_ip_def parse_with_def read_ip_addr_def read_ipv4_none read_ipv6_addr_def
    read_groups_none read_given_char_def)

lemma show_ip_inj: "show_ip a = show_ip b \<longleftrightarrow> a = b"
  by (metis parse_ip_show option.inject)

lemma parse_socket_addr_show_v6:
  "parse_socket_addr (show_socket_addr (SocketV6 a p f scope)) = Some (SocketV6 a p 0 scope)"
proof -
  let ?t = "'']:'' @ show_dec (unat p)"
  let ?sc = "if scope = 0 then [] else ''%'' @ show_dec (unat scope)"
  have a: "read_ipv6_addr (show_ipv6 a @ ?sc @ ?t) = Some (a, ?sc @ ?t)"
    by (rule read_ipv6_show) (simp add: ends_addr_def)
  have "unat scope < 2 ^ 32" using unsigned_less [of scope] by simp
  then have "read_number 10 None True (2 ^ 32) (show_dec (unat scope) @ ?t) = Some (unat scope, ?t)"
    by (intro read_number_show) simp_all
  then have "read_scope_id (CHR ''%'' # show_dec (unat scope) @ ?t) = Some (scope, ?t)"
    by (simp add: read_scope_id_def read_given_char_def)
  with a show ?thesis
    by (auto simp: parse_socket_addr_def parse_with_def read_socket_addr_def read_socket_addr_v4_def
        read_socket_addr_v6_def read_ipv4_none read_given_char_def read_port_show read_scope_id_def)
qed

end
