(* ===== verification/Session.thy ===== *)
theory Session
  imports Net_Addr
begin

text \<open>
  Model of \<^verbatim>\<open>src/clash-lib/src/session.rs\<close>: the SOCKS address (\<^verbatim>\<open>SocksAddr\<close>) with its wire
  format and its three decoders, its text form, its conversions, and the \<^verbatim>\<open>Session\<close> that the
  inbounds hand to the dispatcher. The locale \<open>wire_codec\<close> states what a self-delimiting wire
  format promises; the address codec is its first instance and the framed protocols build on it.
\<close>

section \<open>Addresses\<close>

datatype socks_addr = Ip socket_addr | Domain string u16

definition DOMAIN :: u8 where "DOMAIN = 0x3"
definition V4_ATYP :: u8 where "V4_ATYP = 0x1"
definition V6_ATYP :: u8 where "V6_ATYP = 0x4"

definition invalid_domain :: error where "invalid_domain = Other ''invalid domain''"
definition invalid_atyp :: error where "invalid_atyp = Other ''invalid address type''"
definition insuff_bytes :: error where "insuff_bytes = Other ''insufficient bytes''"

text \<open>\<^verbatim>\<open>FromStr\<close>: the port defaults to 80, an address literal wins, else exactly one colon.\<close>

definition socks_from_str :: "string \<Rightarrow> socks_addr result" where
  "socks_from_str s0 =
    (let s = (if CHR '':'' \<notin> set s0 then s0 @ '':80'' else s0) in
     case parse_socket_addr s of
       Some v \<Rightarrow> Ok (Ip v)
     | None \<Rightarrow>
         (case str_split (CHR '':'') s of
            [host, p] \<Rightarrow>
              (case parse_u16 p of
                 Some port \<Rightarrow> Ok (Domain host port)
               | None \<Rightarrow> Err (Other ''invalid port''))
          | _ \<Rightarrow> Err (Other ''SocksAddr parse error'')))"

fun socks_to_string :: "socks_addr \<Rightarrow> string" where
  "socks_to_string (Ip ip) = show_socket_addr ip"
| "socks_to_string (Domain host port) = host @ '':'' @ show_dec (unat port)"

definition any_ipv4 :: socks_addr where
  "any_ipv4 = Ip (socket_new (V4 0) 0)"

definition any_ipv6 :: socks_addr where
  "any_ipv6 = Ip (socket_new (V6 0) 0)"

text \<open>\<^verbatim>\<open>write_buf\<close>: the length byte is \<^verbatim>\<open>domain.len() as u8\<close>, so it wraps.\<close>

fun write_buf :: "socks_addr \<Rightarrow> bytes" where
  "write_buf (Ip (SocketV4 ip port)) = [V4_ATYP] @ be_put 4 ip @ be_put 2 port"
| "write_buf (Ip (SocketV6 ip port _ _)) = [V6_ATYP] @ be_put 16 ip @ be_put 2 port"
| "write_buf (Domain domain port) =
     [DOMAIN, word_of_nat (length domain)] @ bytes_of_str domain @ be_put 2 port"

fun is_domain :: "socks_addr \<Rightarrow> bool" where
  "is_domain (Ip _) = False"
| "is_domain (Domain _ _) = True"

fun socks_domain :: "socks_addr \<Rightarrow> string option" where
  "socks_domain (Ip _) = None"
| "socks_domain (Domain domain _) = Some domain"

fun try_into_socket_addr :: "socks_addr \<Rightarrow> socket_addr option" where
  "try_into_socket_addr (Ip addr) = Some addr"
| "try_into_socket_addr (Domain _ _) = None"

fun socks_ip :: "socks_addr \<Rightarrow> ip_addr option" where
  "socks_ip (Ip addr) = Some (socket_ip addr)"
| "socks_ip (Domain host _) = parse_ip host"

fun socks_host :: "socks_addr \<Rightarrow> string" where
  "socks_host (Ip ip) = show_ip (socket_ip ip)"
| "socks_host (Domain domain _) = domain"

fun socks_port :: "socks_addr \<Rightarrow> u16" where
  "socks_port (Ip ip) = socket_port ip"
| "socks_port (Domain _ port) = port"

fun socks_size :: "socks_addr \<Rightarrow> nat" where
  "socks_size (Ip (SocketV4 _ _)) = 1 + 4 + 2"
| "socks_size (Ip (SocketV6 _ _ _ _)) = 1 + 16 + 2"
| "socks_size (Domain domain _) = 1 + 1 + length domain + 2"

section \<open>Decoders\<close>

text \<open>
  \<^verbatim>\<open>peek_cursor\<close> reads with the \<^verbatim>\<open>bytes::Buf\<close> getters, which panic when the buffer is too
  short; \<open>buf_get n\<close> is the getter of \<open>n\<close> bytes. The result carries the unread bytes.
\<close>

definition buf_get :: "nat \<Rightarrow> bytes \<Rightarrow> (bytes \<times> bytes) result" where
  "buf_get n s = (if length s < n then Err Panic else Ok (take n s, drop n s))"

definition buf_get_be :: "nat \<Rightarrow> bytes \<Rightarrow> ('a::len word \<times> bytes) result" where
  "buf_get_be n s = bind_result (buf_get n s) (\<lambda>(b, r). Ok (be_get b, r))"

definition peek_cursor :: "bytes \<Rightarrow> (socks_addr \<times> bytes) result" where
  "peek_cursor buf =
    (if length buf < 2 then Err (Other ''invalid buf'')
     else bind_result (buf_get_be 1 buf) (\<lambda>(atyp :: u8, cur).
       if atyp = V4_ATYP then
         if length cur < 4 + 2 then Err (Other ''invalid buf'')
         else bind_result (buf_get_be 4 cur) (\<lambda>(addr, cur).
              bind_result (buf_get_be 2 cur) (\<lambda>(port, cur).
                Ok (Ip (SocketV4 addr port), cur)))
       else if atyp = V6_ATYP then
         if length cur < 16 + 2 then Err (Other ''invalid buf'')
         else bind_result (buf_get_be 16 cur) (\<lambda>(addr, cur).
              bind_result (buf_get_be 2 cur) (\<lambda>(port, cur).
                Ok (Ip (SocketV6 addr port 0 0), cur)))
       else if atyp = DOMAIN then
         bind_result (buf_get_be 1 cur) (\<lambda>(len :: u8, cur).
           let domain_len = unat len in
           if length cur < domain_len then Err (Other ''invalid buf'')
           else bind_result (buf_get domain_len cur) (\<lambda>(name, cur).
                bind_result (buf_get_be 2 cur) (\<lambda>(port, cur).
                  case from_utf8 name of
                    None \<Rightarrow> Err invalid_domain
                  | Some domain_name \<Rightarrow> Ok (Domain domain_name port, cur))))
       else Err invalid_atyp))"

definition peek_read :: "bytes \<Rightarrow> socks_addr result" where
  "peek_read buf = bind_result (peek_cursor buf) (\<lambda>(addr, _). Ok addr)"

text \<open>
  \<^verbatim>\<open>read_from\<close> on an asynchronous stream. \<^verbatim>\<open>read_exact\<close> returns the length of the buffer
  it filled, so the check of \<^verbatim>\<open>n\<close> against \<^verbatim>\<open>domain_len\<close> never fires; it is kept.
\<close>

definition read_from :: "bytes \<Rightarrow> (socks_addr \<times> bytes) result" where
  "read_from s =
    bind_result (read_u8 s) (\<lambda>(atyp, r).
      if atyp = V4_ATYP then
        bind_result (read_be 4 r) (\<lambda>(ip, r).
        bind_result (read_be 2 r) (\<lambda>(port, r). Ok (Ip (SocketV4 ip port), r)))
      else if atyp = V6_ATYP then
        bind_result (read_be 16 r) (\<lambda>(ip, r).
        bind_result (read_be 2 r) (\<lambda>(port, r). Ok (Ip (SocketV6 ip port 0 0), r)))
      else if atyp = DOMAIN then
        bind_result (read_u8 r) (\<lambda>(len, r).
          let domain_len = unat len in
          bind_result (read_exact domain_len r) (\<lambda>(buf, r).
            if length buf \<noteq> domain_len then Err (Other ''invalid domain length'')
            else case from_utf8 buf of
                None \<Rightarrow> Err invalid_domain
              | Some domain \<Rightarrow>
                  bind_result (read_be 2 r) (\<lambda>(port, r). Ok (Domain domain port, r))))
      else Err invalid_atyp)"

text \<open>\<^verbatim>\<open>TryFrom<(String, u16)>\<close> and \<^verbatim>\<open>Clone\<close>, whose \<^verbatim>\<open>unwrap\<close> panics on an error.\<close>

definition try_from_pair :: "string \<Rightarrow> u16 \<Rightarrow> socks_addr result" where
  "try_from_pair host port =
    (case parse_ip host of
       Some ip \<Rightarrow> Ok (Ip (socket_new ip port))
     | None \<Rightarrow>
         if 0xff < length host then Err (Other ''domain too long'')
         else Ok (Domain host port))"

fun socks_clone :: "socks_addr \<Rightarrow> socks_addr result" where
  "socks_clone (Ip a) = Ok (Ip a)"
| "socks_clone (Domain domain port) =
    (case try_from_pair domain port of Inl _ \<Rightarrow> Err Panic | Inr a \<Rightarrow> Ok a)"

definition must_into_socket_addr :: "socks_addr \<Rightarrow> socket_addr result" where
  "must_into_socket_addr a =
    bind_result (socks_clone a) (\<lambda>_.
      case try_into_socket_addr a of Some s \<Rightarrow> Ok s | None \<Rightarrow> Err Panic)"

text \<open>
  \<^verbatim>\<open>TryFrom<&[u8]>\<close>. \<open>slice buf i j\<close> is \<^verbatim>\<open>&buf[i..j]\<close>, which panics out of range.
\<close>

definition slice :: "bytes \<Rightarrow> nat \<Rightarrow> nat \<Rightarrow> bytes result" where
  "slice buf i j = (if i \<le> j \<and> j \<le> length buf then Ok (take (j - i) (drop i buf)) else Err Panic)"

definition index_u8 :: "bytes \<Rightarrow> nat \<Rightarrow> u8 result" where
  "index_u8 buf i = (if i < length buf then Ok (buf ! i) else Err Panic)"

definition try_from_slice :: "bytes \<Rightarrow> socks_addr result" where
  "try_from_slice buf =
    (if buf = [] then Err insuff_bytes
     else bind_result (index_u8 buf 0) (\<lambda>atyp.
       if atyp = V4_ATYP then
         if length buf < 1 + 4 + 2 then Err insuff_bytes
         else bind_result (slice buf 1 5) (\<lambda>ip.
              bind_result (slice buf 5 7) (\<lambda>port.
                Ok (Ip (SocketV4 (be_get ip) (be_get port)))))
       else if atyp = V6_ATYP then
         if length buf < 1 + 16 + 2 then Err insuff_bytes
         else bind_result (slice buf 1 17) (\<lambda>ip.
              bind_result (slice buf 17 19) (\<lambda>port.
                Ok (Ip (SocketV6 (be_get ip) (be_get port) 0 0))))
       else if atyp = DOMAIN then
         if buf = [] then Err insuff_bytes
         else bind_result (index_u8 buf 1) (\<lambda>len.
           let domain_len = unat len in
           if length buf < 1 + domain_len + 2 then Err insuff_bytes
           else bind_result (slice buf 2 (domain_len + 2)) (\<lambda>name.
             case from_utf8 name of
               None \<Rightarrow> Err (Other ''invalid domain'')
             | Some domain \<Rightarrow>
                 bind_result (slice buf (domain_len + 2) (domain_len + 4)) (\<lambda>port.
                   Ok (Domain domain (be_get port)))))
       else Err (Other ''invalid ATYP'')))"

text \<open>\<^verbatim>\<open>TryFrom<SocksAddr> for SocketAddr\<close>.\<close>

fun socket_try_from :: "socks_addr \<Rightarrow> socket_addr result" where
  "socket_try_from (Ip ip) = Ok ip"
| "socket_try_from (Domain _ _) = Err (Other ''cannot convert'')"

section \<open>Sessions\<close>

datatype network = Tcp | Udp

datatype inbound_type =
    Http | HttpConnect | Socks5 | Tun | Tproxy | Redir | Tunnel | Shadowsocks | Trojan | Ignore

fun network_to_string :: "network \<Rightarrow> string" where
  "network_to_string Tcp = ''TCP''"
| "network_to_string Udp = ''UDP''"

record outbound_interface =
  name :: string
  addr_v4 :: "u32 option"
  netmask_v4 :: "u32 option"
  broadcast_v4 :: "u32 option"
  addr_v6 :: "u128 option"
  netmask_v6 :: "u128 option"
  broadcast_v6 :: "u128 option"
  index :: u32
  mac_addr :: "string option"

text \<open>
  The traffic statistics are only carried along; an \<^verbatim>\<open>f64\<close> is its bit pattern and a
  \<^verbatim>\<open>Duration\<close> its nanoseconds.
\<close>

record traffic_stats =
  bytes_uploaded :: u64
  bytes_downloaded :: u64
  connection_duration :: nat
  average_throughput :: u64
  peak_throughput :: u64
  request_frequency :: u64
  is_bidirectional :: bool

text \<open>\<^verbatim>\<open>start_time\<close> is a clock reading (nanoseconds of a monotonic clock).\<close>

record session =
  session_id :: u64
  network :: network
  sess_typ :: inbound_type
  source :: socket_addr
  destination :: socks_addr
  resolved_ip :: "ip_addr option"
  so_mark :: "u32 option"
  iface :: "outbound_interface option"
  asn :: "string option"
  stats :: "traffic_stats option"
  start_time :: nat

text \<open>\<^verbatim>\<open>Default\<close>: the identifier comes from the global counter, which the call increments.\<close>

definition session_default :: "nat \<Rightarrow> u64 \<Rightarrow> session \<times> u64" where
  "session_default now counter =
    (\<lparr> session_id = counter, network = Tcp, sess_typ = Http,
       source = socket_new (V4 0) 0, destination = any_ipv4, resolved_ip = None,
       so_mark = None, iface = None, asn = None, stats = None, start_time = now \<rparr>,
     counter + 1)"

definition session_clone :: "session \<Rightarrow> session result" where
  "session_clone sess =
    bind_result (socks_clone (destination sess)) (\<lambda>dst. Ok (sess \<lparr> destination := dst \<rparr>))"

text \<open>\<^verbatim>\<open>as_map\<close>: what the controller serialises of a session.\<close>

datatype map_value =
    VU64 u64 | VNetwork network | VType inbound_type | VIp ip_addr | VPort u16
  | VStr string | VOptStr "string option" | VStats "traffic_stats option"

definition destination_ip_text :: "session \<Rightarrow> string" where
  "destination_ip_text sess =
    (let ip = (case resolved_ip sess of Some i \<Rightarrow> Some i | None \<Rightarrow> socks_ip (destination sess)) in
     case (ip, asn sess) of
       (Some ip, Some a) \<Rightarrow> show_ip ip @ ''('' @ a @ '')''
     | (Some ip, None) \<Rightarrow> show_ip ip
     | (None, _) \<Rightarrow> [])"

definition as_map :: "session \<Rightarrow> (string \<times> map_value) list" where
  "as_map sess =
    [(''id'', VU64 (session_id sess)),
     (''network'', VNetwork (network sess)),
     (''type'', VType (sess_typ sess)),
     (''sourceIP'', VIp (socket_ip (source sess))),
     (''sourcePort'', VPort (socket_port (source sess))),
     (''destinationIP'', VStr (destination_ip_text sess)),
     (''destinationPort'', VPort (socks_port (destination sess))),
     (''host'', VStr (socks_host (destination sess))),
     (''asn'', VOptStr (asn sess)),
     (''traffic_stats'', VStats (stats sess))]"

section \<open>Self-delimiting wire formats\<close>

text \<open>
  A wire format: \<open>enc\<close> writes a value, \<open>dec\<close> reads one from the front of a stream and leaves
  the rest, \<open>wf\<close> says which values the format can carry. The laws are the two directions of the
  round trip; what a framed protocol needs from them is proved once.
\<close>

fun decode_all :: "('b list \<Rightarrow> ('a \<times> 'b list) result) \<Rightarrow> nat \<Rightarrow> 'b list \<Rightarrow> ('a list \<times> 'b list) result" where
  "decode_all dec 0 s = Ok ([], s)"
| "decode_all dec (Suc n) s =
    bind_result (dec s) (\<lambda>(a, r). bind_result (decode_all dec n r) (\<lambda>(as, r). Ok (a # as, r)))"

locale wire_codec =
  fixes enc :: "'a \<Rightarrow> bytes" and dec :: "bytes \<Rightarrow> ('a \<times> bytes) result" and wf :: "'a \<Rightarrow> bool"
  assumes dec_enc: "wf a \<Longrightarrow> dec (enc a @ r) = Ok (a, r)"
    and enc_dec: "dec s = Ok (a, r) \<Longrightarrow> s = enc a @ r \<and> wf a"
begin

lemma dec_iff: "dec s = Ok (a, r) \<longleftrightarrow> s = enc a @ r \<and> wf a"
  using dec_enc enc_dec by blast

lemma unambiguous: "wf a \<Longrightarrow> wf b \<Longrightarrow> enc a @ r = enc b @ t \<longleftrightarrow> a = b \<and> r = t"
  by (metis dec_enc old.sum.inject(2) prod.inject)

lemma prefix_free: "wf a \<Longrightarrow> wf b \<Longrightarrow> prefix (enc a) (enc b) \<Longrightarrow> a = b"
  by (metis append_Nil2 prefix_def unambiguous)

lemma decode_all_concat:
  "list_all wf as \<Longrightarrow> decode_all dec (length as) (concat (map enc as) @ r) = Ok (as, r)"
  by (induction as) (simp_all add: dec_enc)

lemma no_short_read: "strict_prefix s (enc a) \<Longrightarrow> wf a \<Longrightarrow> \<not> (\<exists>b r. dec s = Ok (b, r))"
  by (metis append_assoc append_self_conv dec_iff strict_prefix_def prefix_def unambiguous append_is_Nil_conv)

end

section \<open>Correctness of the codec\<close>

text \<open>
  What the wire can carry: a domain of at most 255 bytes of UTF-8 (a \<open>string\<close> of the model may
  be any bytes), and no flow label or scope of an IPv6 socket address.
\<close>

fun wire_ok :: "socks_addr \<Rightarrow> bool" where
  "wire_ok (Ip (SocketV4 _ _)) = True"
| "wire_ok (Ip (SocketV6 _ _ flow scope)) \<longleftrightarrow> flow = 0 \<and> scope = 0"
| "wire_ok (Domain d _) \<longleftrightarrow> str_ok d \<and> length d < 256"

fun wire_norm :: "socks_addr \<Rightarrow> socks_addr" where
  "wire_norm (Ip (SocketV6 ip port _ _)) = Ip (SocketV6 ip port 0 0)"
| "wire_norm a = a"

definition domain_ok :: "socks_addr \<Rightarrow> bool" where
  "domain_ok a \<longleftrightarrow> (\<forall>d p. a = Domain d p \<longrightarrow> str_ok d \<and> length d < 256)"

lemma wire_norm_ok: "wire_ok a \<Longrightarrow> wire_norm a = a"
  by (cases a rule: wire_ok.cases) auto

lemma wire_ok_norm: "domain_ok a \<Longrightarrow> wire_ok (wire_norm a)"
  by (cases a rule: wire_ok.cases) (auto simp: domain_ok_def)

lemma write_buf_norm [simp]: "write_buf (wire_norm a) = write_buf a"
  by (cases a rule: wire_ok.cases) auto

lemma socks_size_norm [simp]: "socks_size (wire_norm a) = socks_size a"
  by (cases a rule: wire_ok.cases) auto

lemmas atyp_defs = V4_ATYP_def V6_ATYP_def DOMAIN_def

lemma unat_of_nat_u8: "n < 256 \<Longrightarrow> unat (word_of_nat n :: u8) = n"
  by (simp add: unat_of_nat)

lemma unat_u8_less: "unat (b :: u8) < 256"
  using unsigned_less [of b] by simp

lemma read_from_write_buf: "wire_ok a \<Longrightarrow> read_from (write_buf a @ r) = Ok (a, r)"
  by (cases a rule: wire_ok.cases)
    (auto simp: read_from_def atyp_defs unat_of_nat_u8 Let_def)

lemma socks_size_length: "length (write_buf a) = socks_size a"
  by (cases a rule: wire_ok.cases) auto

lemma read_from_OkD:
  assumes "read_from s = Ok (a, r)"
  shows "s = write_buf a @ r \<and> wire_ok a"
proof -
  from assms obtain atyp t where s: "s = atyp # t" by (cases s) (auto simp: read_from_def)
  consider (v4) "atyp = V4_ATYP" | (v6) "atyp = V6_ATYP" | (dom) "atyp = DOMAIN"
    using assms s by (auto simp: read_from_def split: if_splits)
  then show ?thesis
  proof cases
    case v4
    with assms s show ?thesis
      by (auto simp: read_from_def bind_result_Inr_iff dest!: read_be_OkD)
  next
    case v6
    with assms s show ?thesis
      by (auto simp: read_from_def bind_result_Inr_iff atyp_defs dest!: read_be_OkD)
  next
    case dom
    with assms s show ?thesis
      by (auto simp: read_from_def bind_result_Inr_iff atyp_defs Let_def unat_u8_less
          dest!: read_be_OkD read_u8_OkD read_exact_OkD from_utf8_SomeD
          split: if_splits option.splits)
  qed
qed

interpretation addr_codec: wire_codec write_buf read_from wire_ok
  by unfold_locales (simp_all add: read_from_write_buf read_from_OkD)

lemma read_from_no_panic: "\<not> panics (read_from s)"
proof -
  have "read_from s \<noteq> Err Panic"
    by (auto simp: read_from_def read_be_def read_exact_def read_u8_def Let_def bind_result_def
        invalid_atyp_def invalid_domain_def split: list.splits option.splits)
  then show ?thesis by (simp add: panics_def)
qed

lemma buf_get_be_u8 [simp]:
  "buf_get_be 1 (b # s) = Ok (b :: u8, s)" "buf_get_be (Suc 0) (b # s) = Ok (b :: u8, s)"
  by (simp_all add: buf_get_be_def buf_get_def be_get_def be_nat_def)

lemma buf_get_ok: "n \<le> length s \<Longrightarrow> buf_get n s = read_exact n s"
  by (simp add: buf_get_def read_exact_def)

lemma buf_get_be_ok: "n \<le> length s \<Longrightarrow> buf_get_be n s = read_be n s"
  by (simp add: buf_get_be_def read_be_def buf_get_ok)

lemma buf_get_be_short: "length s < n \<Longrightarrow> buf_get_be n s = Err Panic"
  by (simp add: buf_get_be_def buf_get_def)

text \<open>The datagram reader and the stream reader accept the same inputs with the same result.\<close>

definition peek_truncated :: "bytes \<Rightarrow> bool" where
  "peek_truncated s \<longleftrightarrow>
    2 \<le> length s \<and> s ! 0 = DOMAIN \<and>
    2 + unat (s ! 1) \<le> length s \<and> length s < 2 + unat (s ! 1) + 2"

lemma read_exact_rest: "read_exact n s = Ok (a, r) \<Longrightarrow> length r = length s - n"
  by (auto simp: read_exact_def split: if_splits)

lemma read_be_bind:
  "n \<le> length s \<Longrightarrow> bind_result (read_be n s) f = f (be_get (take n s), drop n s)"
  by (simp add: read_be_def read_exact_def)

lemma peek_cursor_cases:
  "peek_cursor s =
    (if length s < 2 then Err (Other ''invalid buf'')
     else if peek_truncated s then Err Panic
     else case read_from s of Inl UnexpectedEof \<Rightarrow> Err (Other ''invalid buf'') | r \<Rightarrow> r)"
proof (cases "length s < 2")
  case False
  then obtain t b u where s: "s = t # b # u" by (cases s rule: list.exhaust; cases "tl s") auto
  show ?thesis
  proof (cases "t = DOMAIN")
    case True
    show ?thesis
      using s True
      by (auto simp: peek_cursor_def peek_truncated_def read_from_def atyp_defs Let_def buf_get_ok buf_get_be_short
          buf_get_be_ok read_exact_def read_be_def bind_result_def invalid_domain_def split: option.splits)
  next
    case False
    then show ?thesis
      using s by (auto simp: peek_cursor_def peek_truncated_def read_from_def atyp_defs read_exact_def read_be_def
          buf_get_be_ok bind_result_def invalid_atyp_def)
  qed
qed (simp add: peek_cursor_def)

lemma peek_cursor_Ok_iff: "peek_cursor s = Ok (a, r) \<longleftrightarrow> read_from s = Ok (a, r) \<and> \<not> peek_truncated s"
proof -
  have "2 \<le> length s" if "read_from s = Ok (a, r)"
    using read_from_OkD [OF that] by (cases a rule: wire_ok.cases) auto
  then show ?thesis
    by (auto simp: peek_cursor_cases split: sum.splits error.splits)
qed

lemma read_from_not_truncated: "read_from s = Ok (a, r) \<Longrightarrow> \<not> peek_truncated s"
  by (drule read_from_OkD, cases a rule: wire_ok.cases)
    (auto simp: peek_truncated_def atyp_defs unat_of_nat_u8 nth_append)

lemma peek_cursor_read_from: "peek_cursor s = Ok (a, r) \<longleftrightarrow> read_from s = Ok (a, r)"
  using peek_cursor_Ok_iff read_from_not_truncated by blast

lemma peek_read_Ok_iff: "peek_read s = Ok a \<longleftrightarrow> (\<exists>r. read_from s = Ok (a, r))"
  by (auto simp: peek_read_def bind_result_Inr_iff peek_cursor_read_from)

lemma peek_read_panics_iff: "panics (peek_read s) \<longleftrightarrow> peek_truncated s"
  using read_from_no_panic [of s]
  by (auto simp: peek_read_def peek_cursor_cases panics_def bind_result_def peek_truncated_def
      split: sum.splits error.splits)

text \<open>The slice conversion.\<close>

lemma slice_ok: "i \<le> j \<Longrightarrow> j \<le> length s \<Longrightarrow> slice s i j = Ok (take (j - i) (drop i s))"
  by (simp add: slice_def)

definition slice_overrun :: "bytes \<Rightarrow> bool" where
  "slice_overrun s \<longleftrightarrow>
    s = [DOMAIN] \<or>
    2 \<le> length s \<and> s ! 0 = DOMAIN \<and> length s = 3 + unat (s ! 1) \<and>
    utf8_valid (take (unat (s ! 1)) (drop 2 s))"

lemmas slice_decode =
  try_from_slice_def read_from_def atyp_defs Let_def index_u8_def slice_def
  read_exact_def read_be_def from_utf8_def bind_result_def invalid_domain_def invalid_atyp_def
  insuff_bytes_def

lemma try_from_slice_panics_iff: "panics (try_from_slice s) \<longleftrightarrow> slice_overrun s"
proof (cases s)
  case (Cons t u)
  show ?thesis
    using Cons by (cases "t = DOMAIN"; cases u)
      (auto simp: slice_decode panics_def slice_overrun_def split: option.splits)
qed (simp add: try_from_slice_def panics_def slice_overrun_def insuff_bytes_def)

lemma try_from_slice_Ok_iff: "try_from_slice s = Ok a \<longleftrightarrow> (\<exists>r. read_from s = Ok (a, r))"
proof (cases s)
  case (Cons t u)
  show ?thesis
    using Cons by (cases "t = DOMAIN"; cases u)
      (auto simp: slice_decode split: option.splits)
qed (simp add: try_from_slice_def read_from_def)

section \<open>Text form, conversion and cloning\<close>

text \<open>
  The IPv4 reader looks at nothing beyond a colon, so a host that is no address literal stays
  none when a port is appended.
\<close>

definition colon_local :: "'a parser \<Rightarrow> bool" where
  "colon_local p \<longleftrightarrow>
    (\<forall>d t. p (d @ CHR '':'' # t) = map_option (apsnd (\<lambda>r. r @ CHR '':'' # t)) (p d))"

lemma takeWhile_stop: "\<not> P c \<Longrightarrow> takeWhile P (d @ c # t) = takeWhile P d"
  by (induction d) simp_all

lemma colon_local_number: "colon_local (read_number 10 m z b)"
proof -
  let ?P = "\<lambda>c. digit_val 10 c \<noteq> None"
  have tw: "takeWhile ?P (d @ CHR '':'' # t) = takeWhile ?P d" for d t
    by (rule takeWhile_stop) simp
  have dr: "drop (length (takeWhile ?P d)) (d @ CHR '':'' # t) =
      drop (length (takeWhile ?P d)) d @ CHR '':'' # t" for d t
    using length_takeWhile_le [of ?P d] by simp
  have hd: "takeWhile ?P d \<noteq> [] \<Longrightarrow> hd (d @ CHR '':'' # t) = hd d" for d t
    by (cases d) simp_all
  show ?thesis
    unfolding colon_local_def read_number_def Let_def tw dr using hd by auto
qed

lemma colon_local_octet: "colon_local (read_octet i)"
  unfolding colon_local_def
proof (intro allI)
  fix d t
  note n = colon_local_number [unfolded colon_local_def, rule_format]
  show "read_octet i (d @ CHR '':'' # t) = map_option (apsnd (\<lambda>r. r @ CHR '':'' # t)) (read_octet i d)"
    by (cases d)
      (auto simp: read_octet_def read_separator_def read_given_char_def n
        n [of _ _ _ "[]", simplified] n [of _ _ _ "c # s" for c s, simplified])
qed

lemma colon_local_ipv4: "colon_local read_ipv4_addr"
proof -
  note o = colon_local_octet [unfolded colon_local_def, rule_format]
  show ?thesis
    unfolding colon_local_def
    by (auto simp: read_ipv4_addr_def o apsnd_def map_prod_def split: option.splits
        simp: bind_eq_None_conv split: Option.bind_splits)
qed

lemma read_octet_set: "read_octet i s = Some (n, r) \<Longrightarrow> set r \<subseteq> set s"
  by (auto simp: read_octet_def read_separator_def read_number_def read_given_char_def Let_def
      split: if_splits option.splits list.splits dest: in_set_dropD)

lemma read_ipv4_set: "read_ipv4_addr s = Some (a, r) \<Longrightarrow> set r \<subseteq> set s"
  by (auto simp: read_ipv4_addr_def Option.bind_eq_Some_conv dest!: read_octet_set)

lemma parse_socket_addr_host:
  assumes "CHR '':'' \<notin> set d" and "CHR ''['' \<notin> set d" and "parse_ip d = None"
  shows "parse_socket_addr (d @ CHR '':'' # t) = None"
proof -
  have v6: "read_socket_addr_v6 (d @ CHR '':'' # t) = None"
    using assms(2) by (cases d) (auto simp: read_socket_addr_v6_def read_given_char_def)
  note local = colon_local_ipv4 [unfolded colon_local_def, rule_format]
  have "read_socket_addr_v4 (d @ CHR '':'' # t) = None"
  proof (cases "read_ipv4_addr d")
    case None
    then show ?thesis by (simp add: read_socket_addr_v4_def local)
  next
    case (Some p)
    obtain a r where p: "p = (a, r)" by (cases p)
    with Some assms(3) have "r \<noteq> []" by (auto simp: parse_ip_def parse_with_def read_ip_addr_def)
    moreover have "CHR '':'' \<notin> set r" using read_ipv4_set [of d a r] Some p assms(1) by auto
    ultimately have "read_port (r @ CHR '':'' # t) = None"
      by (cases r) (auto simp: read_port_def read_given_char_def)
    with Some p show ?thesis by (simp add: read_socket_addr_v4_def local)
  qed
  with v6 show ?thesis by (simp add: parse_socket_addr_def parse_with_def read_socket_addr_def)
qed

text \<open>A host name that the text form keeps apart from addresses and ports.\<close>

definition plain_host :: "string \<Rightarrow> bool" where
  "plain_host d \<longleftrightarrow> CHR '':'' \<notin> set d \<and> CHR ''['' \<notin> set d \<and> parse_ip d = None"

lemma socks_from_str_domain:
  assumes "plain_host d"
  shows "socks_from_str (d @ '':'' @ show_dec (unat p)) = Ok (Domain d p)"
proof -
  have "str_split (CHR '':'') (d @ '':'' @ show_dec (unat p)) = [d, show_dec (unat p)]"
    using assms show_dec_no_char [of "CHR '':''" "unat p"]
    by (simp add: plain_host_def str_split_append_sep str_split_no_sep)
  then show ?thesis
    using assms parse_socket_addr_host [of d "show_dec (unat p)"]
    by (simp add: socks_from_str_def plain_host_def Let_def)
qed

lemma socks_clone_Ok: "plain_host d \<Longrightarrow> length d \<le> 255 \<Longrightarrow> socks_clone (Domain d p) = Ok (Domain d p)"
  by (simp add: try_from_pair_def plain_host_def)

lemma socks_clone_idem: "socks_clone a = Ok b \<Longrightarrow> socks_clone b = Ok b"
  by (cases a) (auto simp: try_from_pair_def split: option.splits if_splits)

section \<open>Properties\<close>

text \<open>
  C9. What \<^verbatim>\<open>write_buf\<close> writes, \<^verbatim>\<open>read_from\<close> reads back and leaves exactly the bytes
  that follow, for every address whose domain is UTF-8 of at most 255 bytes. The flow label and
  scope of an IPv6 address are not on the wire and come back as zero.
\<close>

theorem socks_addr_round_trip:
  assumes "domain_ok a"
  shows "read_from (write_buf a @ rest) = Ok (wire_norm a, rest)"
  using read_from_write_buf [OF wire_ok_norm [OF assms], of rest] by simp

theorem socks_addr_round_trip_witness:
  "domain_ok (Domain ''a.io'' 443) \<and>
   read_from (write_buf (Domain ''a.io'' 443) @ [1, 2]) = Ok (Domain ''a.io'' 443, [1, 2])"
proof -
  have "domain_ok (Domain ''a.io'' 443)" by (auto simp: domain_ok_def str_ok_def bytes_of_str_def)
  with socks_addr_round_trip [of "Domain ''a.io'' 443" "[1, 2]"] show ?thesis by simp
qed


text \<open>
  C39. \<^verbatim>\<open>read_from\<close> never panics; \<^verbatim>\<open>peek_read\<close> panics exactly on a domain address whose
  port is cut off (its length check forgets the two port bytes), and the slice conversion exactly
  on the bare type byte of a domain and on a valid domain with one port byte (its check is one
  byte short).
\<close>

theorem decoder_panics:
  "\<not> panics (read_from s) \<and>
   (panics (peek_read s) \<longleftrightarrow> peek_truncated s) \<and>
   (panics (try_from_slice s) \<longleftrightarrow> slice_overrun s)"
  by (simp add: read_from_no_panic peek_read_panics_iff try_from_slice_panics_iff)

text \<open>
  C37. Printing an address and parsing the text gives the address back: every IPv4 address, every
  IPv6 address (whose flow label is not printed), and every domain that holds no colon or
  bracket and is not itself an address literal.
\<close>

theorem socks_text_round_trip:
  assumes "\<And>d p. a = Domain d p \<Longrightarrow> plain_host d"
    and "\<And>i p flow scope. a = Ip (SocketV6 i p flow scope) \<Longrightarrow> flow = 0"
  shows "socks_from_str (socks_to_string a) = Ok a"
proof (cases a)
  case (Ip i)
  have "CHR '':'' \<in> set (show_socket_addr i)" by (cases i) simp_all
  moreover have "parse_socket_addr (show_socket_addr i) = Some i"
    using assms(2) Ip by (cases i) (auto simp: parse_socket_addr_show_v4 parse_socket_addr_show_v6 simp del: show_socket_addr.simps)
  ultimately show ?thesis using Ip by (simp add: socks_from_str_def Let_def)
next
  case (Domain d p)
  then show ?thesis using socks_from_str_domain [of d p] assms(1) by simp
qed

theorem socks_text_round_trip_witness:
  "socks_from_str (socks_to_string (Ip (SocketV6 1 443 0 0))) = Ok (Ip (SocketV6 1 443 0 0))"
  by (rule socks_text_round_trip) simp_all

text \<open>
  Cloning an address keeps what it denotes (address literal, port), is idempotent, and is the
  identity on socket addresses and on domains that are no address literal; a domain holding an
  address literal turns into that address, and a longer domain than 255 bytes panics.
\<close>

theorem socks_clone_correct:
  "(panics (socks_clone a) \<longleftrightarrow> (\<exists>d p. a = Domain d p \<and> parse_ip d = None \<and> 255 < length d)) \<and>
   (socks_clone a = Ok b \<longrightarrow>
     socks_ip b = socks_ip a \<and> socks_port b = socks_port a \<and> socks_clone b = Ok b \<and>
     (socks_domain a \<noteq> socks_domain b \<longleftrightarrow> is_domain a \<and> socks_ip a \<noteq> None))"
proof -
  have "socket_ip (socket_new i p) = i" "socket_port (socket_new i p) = p" for i p
    by (cases i; simp)+
  then show ?thesis
    by (cases a) (auto simp: try_from_pair_def panics_def split: option.splits if_splits)
qed

theorem socks_clone_correct_witness:
  "socks_clone (Domain ''10.0.0.1'' 80) = Ok (Ip (SocketV4 0x0A000001 80)) \<and>
   socks_ip (Domain ''10.0.0.1'' 80) = Some (V4 0x0A000001)"
proof -
  have "parse_ip ''10.0.0.1'' = Some (V4 0x0A000001)"
    using parse_ip_show_v4 [of "0x0A000001"] by (simp add: show_ipv4_def be_put_def)
  then have "socks_clone (Domain ''10.0.0.1'' 80) = Ok (Ip (SocketV4 0x0A000001 80))"
    by (simp add: try_from_pair_def)
  with socks_clone_correct [of "Domain ''10.0.0.1'' 80" "Ip (SocketV4 0x0A000001 80)"]
  show ?thesis by simp
qed

end
