(* ===== verification/Conn_Io.thy ===== *)
theory Conn_Io
  imports Session
begin

text \<open>
  A connection as the handlers of the inbounds and outbounds use it: the bytes the peer sends
  before it closes, the trace of what the handler did, and the point at which writing fails.
  The handlers run in a state and error monad over it; \<^verbatim>\<open>?\<close> on an I/O call is \<open>io_bind\<close>.
\<close>

section \<open>Connections\<close>

datatype event =
    Wrote bytes
  | Shutdown
  | DispatchStream session
  | DispatchDatagram session

text \<open>\<open>wfail = Some k\<close>: \<open>k\<close> more writes succeed and the next one fails (connection reset).\<close>

record conn =
  inp :: bytes
  trace :: "event list"
  wfail :: "nat option"

type_synonym 'a io = "conn \<Rightarrow> 'a result \<times> conn"

definition io_return :: "'a \<Rightarrow> 'a io" where
  "io_return x = (\<lambda>c. (Ok x, c))"

definition io_fail :: "error \<Rightarrow> 'a io" where
  "io_fail e = (\<lambda>c. (Err e, c))"

definition io_bind :: "'a io \<Rightarrow> ('a \<Rightarrow> 'b io) \<Rightarrow> 'b io" where
  "io_bind m f = (\<lambda>c. case m c of (Inl e, c') \<Rightarrow> (Err e, c') | (Inr x, c') \<Rightarrow> f x c')"

definition io_event :: "event \<Rightarrow> unit io" where
  "io_event e = (\<lambda>c. (Ok (), c \<lparr> trace := trace c @ [e] \<rparr>))"

definition io_lift :: "'a result \<Rightarrow> 'a io" where
  "io_lift r = (\<lambda>c. (r, c))"

text \<open>Running a reader on the unread input: what it consumes is lost also when it fails.\<close>

definition io_read :: "(bytes \<Rightarrow> ('a \<times> bytes) result) \<Rightarrow> 'a io" where
  "io_read p = (\<lambda>c. case p (inp c) of
      Inl e \<Rightarrow> (Err e, c \<lparr> inp := [] \<rparr>)
    | Inr (x, r) \<Rightarrow> (Ok x, c \<lparr> inp := r \<rparr>))"

definition reset_error :: error where
  "reset_error = Other ''connection reset''"

definition io_write :: "bytes \<Rightarrow> unit io" where
  "io_write bs = (\<lambda>c. case wfail c of
      None \<Rightarrow> (Ok (), c \<lparr> trace := trace c @ [Wrote bs] \<rparr>)
    | Some 0 \<Rightarrow> (Err reset_error, c)
    | Some (Suc k) \<Rightarrow> (Ok (), c \<lparr> trace := trace c @ [Wrote bs], wfail := Some k \<rparr>))"

text \<open>What the peer receives.\<close>

fun event_bytes :: "event \<Rightarrow> bytes" where
  "event_bytes (Wrote bs) = bs"
| "event_bytes _ = []"

definition sent :: "event list \<Rightarrow> bytes" where
  "sent es = concat (map event_bytes es)"

fun is_dispatch :: "event \<Rightarrow> bool" where
  "is_dispatch (DispatchStream _) = True"
| "is_dispatch (DispatchDatagram _) = True"
| "is_dispatch _ = False"

definition dispatches :: "conn \<Rightarrow> bool" where
  "dispatches c \<longleftrightarrow> list_ex is_dispatch (trace c)"

definition start :: "bytes \<Rightarrow> nat option \<Rightarrow> conn" where
  "start bs w = \<lparr> inp = bs, trace = [], wfail = w \<rparr>"

section \<open>Laws\<close>

named_theorems io_simps \<open>evaluation of the connection monad\<close>

lemmas [io_simps] =
  io_return_def io_fail_def io_event_def io_lift_def

lemma io_bind_simps [io_simps]:
  "m c = (Inl e, c') \<Longrightarrow> io_bind m f c = (Err e, c')"
  "m c = (Inr x, c') \<Longrightarrow> io_bind m f c = f x c'"
  by (simp_all add: io_bind_def)

lemma io_write_ok [io_simps]:
  "wfail c = None \<Longrightarrow> io_write bs c = (Ok (), c \<lparr> trace := trace c @ [Wrote bs] \<rparr>)"
  by (simp add: io_write_def)

lemma io_read_ok [io_simps]:
  "p (inp c) = Ok (x, r) \<Longrightarrow> io_read p c = (Ok x, c \<lparr> inp := r \<rparr>)"
  "p (inp c) = Err e \<Longrightarrow> io_read p c = (Err e, c \<lparr> inp := [] \<rparr>)"
  by (simp_all add: io_read_def)

lemma start_simps [simp]: "inp (start bs w) = bs" "trace (start bs w) = []" "wfail (start bs w) = w"
  by (simp_all add: start_def)

lemma sent_simps [simp]: "sent [] = []" "sent (e # es) = event_bytes e @ sent es" "sent (a @ b) = sent a @ sent b"
  by (simp_all add: sent_def)

text \<open>\<open>quiet\<close>: the operation dispatches nothing.\<close>

definition quiet :: "'a io \<Rightarrow> bool" where
  "quiet m \<longleftrightarrow> (\<forall>c. dispatches (snd (m c)) = dispatches c)"

lemma quiet_return [simp]: "quiet (io_return x)" and quiet_fail [simp]: "quiet (io_fail e)"
  and quiet_lift [simp]: "quiet (io_lift r)" and quiet_read [simp]: "quiet (io_read p)"
  and quiet_write [simp]: "quiet (io_write bs)" and quiet_shutdown [simp]: "quiet (io_event Shutdown)"
  by (auto simp: quiet_def io_return_def io_fail_def io_lift_def io_read_def io_write_def
      io_event_def dispatches_def split: sum.splits option.splits nat.splits)

lemma io_bind_cases:
  obtains (err) e c' where "m c = (Inl e, c')" "io_bind m f c = (Inl e, c')"
  | (ok) x c' where "m c = (Inr x, c')" "io_bind m f c = f x c'"
proof (cases "m c")
  case (Pair r c')
  then show ?thesis by (cases r) (auto simp: io_bind_def intro: that)
qed

lemma quiet_bind: "quiet m \<Longrightarrow> (\<And>x. quiet (f x)) \<Longrightarrow> quiet (io_bind m f)"
  unfolding quiet_def
proof (rule allI)
  fix c assume m: "\<forall>c. dispatches (snd (m c)) = dispatches c"
    and f: "\<And>x. \<forall>c. dispatches (snd (f x c)) = dispatches c"
  show "dispatches (snd (io_bind m f c)) = dispatches c"
    using m [rule_format, of c] f by (cases rule: io_bind_cases [where m = m and c = c and f = f]) auto
qed

lemma quiet_bindD:
  assumes "dispatches (snd (io_bind m f c))" and "quiet m" and "\<not> dispatches c"
  obtains x c' where "m c = (Ok x, c')" "\<not> dispatches c'" "dispatches (snd (f x c'))"
proof -
  have q: "dispatches (snd (m c)) = dispatches c" using assms(2) by (simp add: quiet_def)
  show ?thesis
    using assms q that by (cases rule: io_bind_cases [where m = m and c = c and f = f]) auto
qed

text \<open>\<open>panic_free\<close>: no run of the operation panics.\<close>

definition panic_free :: "'a io \<Rightarrow> bool" where
  "panic_free m \<longleftrightarrow> (\<forall>c. \<not> panics (fst (m c)))"

lemma panic_free_return [simp]: "panic_free (io_return x)"
  and panic_free_fail [simp]: "panic_free (io_fail e) \<longleftrightarrow> e \<noteq> Panic"
  and panic_free_event [simp]: "panic_free (io_event ev)"
  and panic_free_write [simp]: "panic_free (io_write bs)"
  and panic_free_lift [simp]: "panic_free (io_lift r) \<longleftrightarrow> \<not> panics r"
  by (auto simp: panic_free_def io_return_def io_fail_def io_lift_def io_write_def reset_error_def
      io_event_def split: option.splits nat.splits)

lemma panic_free_read: "(\<And>s. \<not> panics (p s)) \<Longrightarrow> panic_free (io_read p)"
  by (auto simp: panic_free_def io_read_def panics_def split: sum.splits)

lemma panic_free_bind:
  assumes "panic_free m" and "\<And>x c c'. m c = (Ok x, c') \<Longrightarrow> panic_free (f x)"
  shows "panic_free (io_bind m f)"
  unfolding panic_free_def
proof
  fix c
  show "\<not> panics (fst (io_bind m f c))"
  proof (cases rule: io_bind_cases [where m = m and c = c and f = f])
    case (err e c')
    then show ?thesis using assms(1) by (metis panic_free_def fst_conv panics_simps(2))
  next
    case (ok x c')
    then show ?thesis using assms(2) by (simp add: panic_free_def)
  qed
qed

text \<open>Inversion of a successful run.\<close>

lemma io_bind_Ok_iff:
  "io_bind m f c = (Inr y, c') \<longleftrightarrow> (\<exists>x c1. m c = (Inr x, c1) \<and> f x c1 = (Inr y, c'))"
  by (cases rule: io_bind_cases [where m = m and c = c and f = f]) auto

lemma io_read_Ok_iff:
  "io_read p c = (Inr x, c') \<longleftrightarrow> (\<exists>r. p (inp c) = Inr (x, r) \<and> c' = c \<lparr> inp := r \<rparr>)"
  by (auto simp: io_read_def split: sum.splits prod.splits)

lemma io_write_OkD: "io_write bs c = (Inr u, c') \<Longrightarrow> inp c' = inp c \<and> sent (trace c') = sent (trace c) @ bs"
  by (auto simp: io_write_def split: option.splits nat.splits)

lemma io_fail_Ok [simp]: "io_fail e c \<noteq> (Inr x, c')"
  by (simp add: io_fail_def)

lemma io_return_Ok [simp]: "io_return y c = (Inr x, c') \<longleftrightarrow> y = x \<and> c' = c"
  by (auto simp: io_return_def)

lemma io_event_Ok [simp]: "io_event e c = (Inr x, c') \<longleftrightarrow> c' = c \<lparr> trace := trace c @ [e] \<rparr>"
  by (auto simp: io_event_def)

lemma io_lift_Ok [simp]: "io_lift r c = (Inr x, c') \<longleftrightarrow> r = Inr x \<and> c' = c"
  by (auto simp: io_lift_def)

end
