(* ===== verification/Socks5.thy ===== *)
theory Socks5
  imports Conn_Io
begin

text \<open>
  The SOCKS5 protocol: the credentials store (\<^verbatim>\<open>src/clash-lib/src/common/auth.rs\<close>), the server
  side of the handshake (\<^verbatim>\<open>proxy/socks/inbound/stream.rs\<close>), the client side
  (\<^verbatim>\<open>proxy/socks/socks5.rs\<close>) and the datagram codec (\<^verbatim>\<open>proxy/socks/inbound/datagram.rs\<close>).
  The operating system is a parameter: the local address of the connection and the address that
  binding a UDP socket gives. Arguments of \<^verbatim>\<open>trace!\<close> are not evaluated.
\<close>

section \<open>Credentials\<close>

record plain_authenticator =
  store :: "string \<rightharpoonup> string"
  usernames :: "string list"

definition plain_authenticator_new :: "(string \<times> string) list \<Rightarrow> plain_authenticator" where
  "plain_authenticator_new users =
    foldl (\<lambda>a (u, p). \<lparr> store = (store a)(u \<mapsto> p), usernames = usernames a @ [u] \<rparr>)
      \<lparr> store = Map.empty, usernames = [] \<rparr> users"

definition authenticate :: "plain_authenticator \<Rightarrow> string \<Rightarrow> string \<Rightarrow> bool" where
  "authenticate a username password =
    (case store a username of Some p \<Rightarrow> p = password | None \<Rightarrow> False)"

definition auth_users :: "plain_authenticator \<Rightarrow> string list" where
  "auth_users a = usernames a"

definition auth_enabled :: "plain_authenticator \<Rightarrow> bool" where
  "auth_enabled a \<longleftrightarrow> usernames a \<noteq> []"

section \<open>Constants\<close>

definition SOCKS5_VERSION :: u8 where "SOCKS5_VERSION = 0x05"
definition NO_AUTH :: u8 where "NO_AUTH = 0x00"
definition USER_PASS :: u8 where "USER_PASS = 0x02"
definition NO_METHODS :: u8 where "NO_METHODS = 0xff"
definition CONNECT :: u8 where "CONNECT = 0x01"
definition UDP_ASSOCIATE :: u8 where "UDP_ASSOCIATE = 0x3"
definition SUCCEEDED :: u8 where "SUCCEEDED = 0x00"
definition FAILURE :: u8 where "FAILURE = 0x01"
definition COMMAND_NOT_SUPPORTED :: u8 where "COMMAND_NOT_SUPPORTED = 0x07"

definition ERROR_CODE_LOOKUP :: "string list" where
  "ERROR_CODE_LOOKUP =
    [''succeeded'', ''general SOCKS server failure'', ''connection not allowed by ruleset'',
     ''network unreachable'', ''host unreachable'', ''connection refused'', ''TTL expired'',
     ''command not supported'', ''address type not supported'']"

section \<open>Server\<close>

text \<open>
  The authentication block of \<^verbatim>\<open>handle_tcp\<close>. \<^verbatim>\<open>buf\<close> holds the user name when the password
  length is read into \<^verbatim>\<open>buf[..1]\<close>, a slice that panics when the name is empty.
\<close>

definition socks_auth :: "plain_authenticator \<Rightarrow> unit io" where
  "socks_auth authenticator =
    io_bind (io_read (read_exact 2)) (\<lambda>buf.
      if buf ! 0 \<noteq> SOCKS5_VERSION then io_fail (Other ''unsupported SOCKS version'')
      else let n_methods = unat (buf ! 1) in
        if n_methods = 0 then io_fail (Other ''malformed SOCKS data'')
        else io_bind (io_read (read_exact n_methods)) (\<lambda>methods.
          if auth_enabled authenticator then
            if USER_PASS \<notin> set methods then
              io_bind (io_write [SOCKS5_VERSION, FAILURE]) (\<lambda>_.
              io_bind (io_event Shutdown) (\<lambda>_. io_fail (Other ''auth required'')))
            else
              io_bind (io_write [SOCKS5_VERSION, USER_PASS]) (\<lambda>_.
              io_bind (io_read (read_exact 2)) (\<lambda>buf.
              io_bind (io_read (read_exact (unat (buf ! 1)))) (\<lambda>ubuf.
                if length ubuf < 1 then io_fail Panic
                else
                  io_bind (io_read (read_exact 1)) (\<lambda>pl.
                  io_bind (io_read (read_exact (unat (pl ! 0)))) (\<lambda>pbuf.
                    if authenticate authenticator (str_of_bytes ubuf) (str_of_bytes pbuf)
                    then io_write [0x1, SUCCEEDED]
                    else
                      io_bind (io_write [0x1, FAILURE]) (\<lambda>_.
                      io_bind (io_event Shutdown) (\<lambda>_. io_fail (Other ''auth failure''))))))))
          else if NO_AUTH \<in> set methods then io_write [SOCKS5_VERSION, NO_AUTH]
          else
            io_bind (io_write [SOCKS5_VERSION, NO_METHODS]) (\<lambda>_.
            io_bind (io_event Shutdown) (\<lambda>_. io_fail (Other ''auth failure'')))))"

definition udp_session :: "nat \<Rightarrow> u64 \<Rightarrow> session \<Rightarrow> session" where
  "udp_session now counter sess =
    (fst (session_default now counter))
      \<lparr> network := Udp, sess_typ := Socks5, so_mark := so_mark sess, iface := iface sess \<rparr>"

text \<open>
  The whole handler. \<open>udp_bind addr\<close> is the local address of a UDP socket bound to \<open>addr\<close>, or the
  error of binding it; \<open>now\<close> and \<open>counter\<close> feed the new session of a UDP association.
\<close>

definition socks_handle_tcp ::
  "socket_addr \<Rightarrow> (socket_addr \<Rightarrow> socket_addr result) \<Rightarrow> nat \<Rightarrow> u64 \<Rightarrow>
   plain_authenticator \<Rightarrow> session \<Rightarrow> unit io" where
  "socks_handle_tcp local_addr udp_bind now counter authenticator sess =
    io_bind (socks_auth authenticator) (\<lambda>_.
    io_bind (io_read (read_exact 3)) (\<lambda>buf.
      if buf ! 0 \<noteq> SOCKS5_VERSION then io_fail (Other ''unsupported SOCKS version'')
      else
        io_bind (io_read read_from) (\<lambda>dst.
          if buf ! 1 = CONNECT then
            io_bind (io_write ([SOCKS5_VERSION, SUCCEEDED, 0x0] @ write_buf (Ip local_addr))) (\<lambda>_.
            io_bind (io_lift (session_clone (sess \<lparr> destination := dst \<rparr>))) (\<lambda>sess.
              io_event (DispatchStream sess)))
          else if buf ! 1 = UDP_ASSOCIATE then
            io_bind (io_lift (udp_bind (socket_new (socket_ip local_addr) 0))) (\<lambda>udp_addr.
            io_bind (io_event (DispatchDatagram (udp_session now counter sess))) (\<lambda>_.
            io_bind (io_write ([SOCKS5_VERSION, SUCCEEDED, 0x0] @ write_buf (Ip udp_addr))) (\<lambda>_.
              io_read (\<lambda>s. Ok ((), drop 1 s)))))
          else
            io_bind (io_write ([SOCKS5_VERSION, COMMAND_NOT_SUPPORTED, 0x0] @ write_buf any_ipv4)) (\<lambda>_.
              io_fail (Other ''unsupported SOCKS command'')))))"

section \<open>Client\<close>

definition client_auth :: "string option \<Rightarrow> string option \<Rightarrow> unit io" where
  "client_auth username password =
    (case username of
       None \<Rightarrow> io_fail (Other ''missing username'')
     | Some u \<Rightarrow>
         (case password of
            None \<Rightarrow> io_fail (Other ''missing password'')
          | Some p \<Rightarrow>
              io_bind (io_write ([1, word_of_nat (length u)] @ bytes_of_str u @
                  [word_of_nat (length p)] @ bytes_of_str p)) (\<lambda>_.
              io_bind (io_read (read_exact 2)) (\<lambda>buf.
                if buf ! 1 \<noteq> SUCCEEDED then io_fail (Other ''SOCKS5 authentication failed'')
                else io_return ()))))"

definition request_error :: "u8 \<Rightarrow> error" where
  "request_error code =
    Other (''SOCKS5 request failed with '' @
      (if unat code < length ERROR_CODE_LOOKUP then ERROR_CODE_LOOKUP ! unat code
       else ''unknown error''))"

definition client_handshake ::
  "socks_addr \<Rightarrow> u8 \<Rightarrow> string option \<Rightarrow> string option \<Rightarrow> socks_addr io" where
  "client_handshake addr command username password =
    io_bind (io_write (if username \<noteq> None \<and> password \<noteq> None
        then [SOCKS5_VERSION, 1, USER_PASS] else [SOCKS5_VERSION, 1, NO_AUTH])) (\<lambda>_.
    io_bind (io_read (read_exact 2)) (\<lambda>buf.
      if buf ! 0 \<noteq> SOCKS5_VERSION then io_fail (Other ''unsupported SOCKS version'')
      else
        io_bind
          (if buf ! 1 = USER_PASS then client_auth username password
           else if buf ! 1 \<noteq> NO_AUTH
             then io_fail (Other ''unsupported SOCKS5 authentication method'')
           else io_return ()) (\<lambda>_.
        io_bind
          (if command = UDP_ASSOCIATE
           then io_bind (io_lift (bind_result (socks_clone addr) must_into_socket_addr)) (\<lambda>a.
             io_return (if is_ipv4 (socket_ip a) then any_ipv4 else any_ipv6))
           else io_return addr) (\<lambda>dst.
        io_bind (io_write ([SOCKS5_VERSION, command, 0x00] @ write_buf dst)) (\<lambda>_.
        io_bind (io_read (read_exact 3)) (\<lambda>buf.
          if buf ! 0 \<noteq> SOCKS5_VERSION then io_fail (Other ''unsupported SOCKS version'')
          else if buf ! 1 \<noteq> SUCCEEDED then io_fail (request_error (buf ! 1))
          else io_read read_from))))))"

section \<open>Datagrams\<close>

definition socks_udp_encode :: "bytes \<times> socks_addr \<Rightarrow> bytes" where
  "socks_udp_encode item = [0x0, 0x0, 0x0] @ write_buf (snd item) @ fst item"

text \<open>\<^verbatim>\<open>decode\<close>: \<^verbatim>\<open>advance\<close> past the end panics.\<close>

definition socks_udp_decode :: "bytes \<Rightarrow> (socks_addr \<times> bytes) option result" where
  "socks_udp_decode src =
    (if length src < 3 then Ok None
     else if src ! 2 \<noteq> 0 then Err (Other ''unsupported FRAG'')
     else
       let src = drop 3 src in
       bind_result (peek_read src) (\<lambda>addr.
         if length src < socks_size addr then Err Panic
         else Ok (Some (addr, drop (socks_size addr) src))))"

section \<open>Correctness\<close>

lemma plain_authenticator_new_snoc:
  "plain_authenticator_new (users @ [(u, p)]) =
    \<lparr> store = (store (plain_authenticator_new users))(u \<mapsto> p),
      usernames = usernames (plain_authenticator_new users) @ [u] \<rparr>"
  by (simp add: plain_authenticator_new_def)

lemma plain_authenticator_spec:
  "store (plain_authenticator_new users) = map_of (rev users) \<and>
   usernames (plain_authenticator_new users) = map fst users"
  by (induction users rule: rev_induct)
    (auto simp: plain_authenticator_new_snoc, simp_all add: plain_authenticator_new_def)

lemma authenticate_iff:
  "authenticate (plain_authenticator_new users) u p \<longleftrightarrow> map_of (rev users) u = Some p"
  by (simp add: authenticate_def plain_authenticator_spec split: option.splits)

lemma auth_enabled_iff: "auth_enabled (plain_authenticator_new users) \<longleftrightarrow> users \<noteq> []"
  by (simp add: auth_enabled_def plain_authenticator_spec)

lemma length_2_eq: "length s = 2 \<longleftrightarrow> (\<exists>a b. s = [a, b])"
  by (auto simp: length_Suc_conv numeral_eq_Suc)

lemma length_3_eq: "length s = 3 \<longleftrightarrow> (\<exists>a b c. s = [a, b, c])"
  by (auto simp: length_Suc_conv numeral_eq_Suc)

lemma quiet_auth: "quiet (socks_auth authenticator)"
  unfolding socks_auth_def Let_def by (auto intro!: quiet_bind)

text \<open>What a client has sent when the server let it pass.\<close>

definition auth_transcript :: "plain_authenticator \<Rightarrow> bytes \<Rightarrow> bytes \<Rightarrow> bool" where
  "auth_transcript authenticator s rest \<longleftrightarrow>
    (\<exists>methods v u p.
      s = [SOCKS5_VERSION, word_of_nat (length methods)] @ methods @
          [v, word_of_nat (length u)] @ u @ [word_of_nat (length p)] @ p @ rest \<and>
      USER_PASS \<in> set methods \<and> authenticate authenticator (str_of_bytes u) (str_of_bytes p))"

lemma socks_auth_OkD:
  assumes "socks_auth authenticator c = (Ok (), c')" and "auth_enabled authenticator"
  shows "auth_transcript authenticator (inp c) (inp c')"
proof -
  from assms obtain ver n methods v ul u pl p c2 where
    *: "ver = SOCKS5_VERSION" "USER_PASS \<in> set methods"
      "authenticate authenticator (str_of_bytes u) (str_of_bytes p)"
    and s: "inp c = [ver, n] @ methods @ [v, ul] @ u @ [pl] @ p @ inp c'"
    and l: "unat n = length methods" "unat ul = length u" "unat pl = length p"
    by (auto simp: socks_auth_def Let_def io_bind_Ok_iff io_read_Ok_iff length_2_eq
        length_Suc_conv split: if_splits dest!: read_exact_OkD io_write_OkD)
  have "n = word_of_nat (length methods)" "ul = word_of_nat (length u)" "pl = word_of_nat (length p)"
    by (simp_all add: l [symmetric])
  with * s show ?thesis unfolding auth_transcript_def by (intro exI) simp
qed

text \<open>The handler panics only in the authentication block.\<close>

lemma session_clone_read:
  assumes "read_from s = Ok (dst, r)"
  shows "\<not> panics (session_clone (sess \<lparr> destination := dst \<rparr>))"
proof -
  have "wire_ok dst" using read_from_OkD [OF assms] by simp
  then have "socks_clone dst \<noteq> Err Panic"
    by (cases dst) (auto simp: try_from_pair_def split: option.splits)
  moreover have "socks_clone dst \<noteq> Err e" if "e \<noteq> Panic" for e
    using that by (cases dst) (auto split: sum.splits)
  ultimately show ?thesis by (auto simp: session_clone_def panics_def bind_result_def split: sum.splits)
qed

lemma panic_free_auth: "\<not> auth_enabled authenticator \<Longrightarrow> panic_free (socks_auth authenticator)"
  unfolding socks_auth_def Let_def
  by (auto intro!: panic_free_bind panic_free_read)

lemma panic_free_handle:
  assumes "panic_free (socks_auth authenticator)" and "\<And>a. \<not> panics (udp_bind a)"
  shows "panic_free (socks_handle_tcp local_addr udp_bind now counter authenticator sess)"
  unfolding socks_handle_tcp_def using assms
  by (auto intro!: panic_free_bind panic_free_read
      simp: read_from_no_panic io_read_Ok_iff session_clone_read)

text \<open>The bytes of a client that authenticates and asks for \<open>addr\<close>, and of the server's replies.\<close>

definition client_bytes :: "string \<Rightarrow> string \<Rightarrow> u8 \<Rightarrow> socks_addr \<Rightarrow> bytes" where
  "client_bytes u p command addr =
    [SOCKS5_VERSION, 1, USER_PASS] @
    ([1, word_of_nat (length u)] @ bytes_of_str u @ [word_of_nat (length p)] @ bytes_of_str p) @
    ([SOCKS5_VERSION, command, 0] @ write_buf addr)"

definition server_bytes :: "socks_addr \<Rightarrow> bytes" where
  "server_bytes bnd =
    [SOCKS5_VERSION, USER_PASS] @ [1, SUCCEEDED] @ ([SOCKS5_VERSION, SUCCEEDED, 0] @ write_buf bnd)"

lemmas socks_consts =
  SOCKS5_VERSION_def NO_AUTH_def USER_PASS_def NO_METHODS_def CONNECT_def UDP_ASSOCIATE_def
  SUCCEEDED_def FAILURE_def COMMAND_NOT_SUPPORTED_def

lemmas io_eval =
  io_bind_def io_write_def io_read_def io_return_def io_fail_def io_event_def io_lift_def

lemma read_exact_cons [simp]:
  "read_exact 0 s = Ok ([], s)"
  "read_exact (Suc n) (b # s) = bind_result (read_exact n s) (\<lambda>(a, r). Ok (b # a, r))"
  "read_exact (numeral k) (b # s) =
    bind_result (read_exact (pred_numeral k) s) (\<lambda>(a, r). Ok (b # a, r))"
  by (auto simp: read_exact_def numeral_eq_Suc [of k])

lemma client_handshake_run:
  assumes "domain_ok bnd" and "command \<noteq> UDP_ASSOCIATE"
  shows "client_handshake addr command (Some u) (Some p) (start (server_bytes bnd) None) =
    (Ok (wire_norm bnd),
     \<lparr> inp = [],
       trace = [Wrote [SOCKS5_VERSION, 1, USER_PASS],
         Wrote ([1, word_of_nat (length u)] @ bytes_of_str u @ [word_of_nat (length p)] @ bytes_of_str p),
         Wrote ([SOCKS5_VERSION, command, 0] @ write_buf addr)],
       wfail = None \<rparr>)"
  using read_from_write_buf [OF wire_ok_norm [OF assms(1)], of "[]"] assms(2)
  by (simp add: client_handshake_def client_auth_def server_bytes_def start_def io_eval socks_consts)

lemma read_exact_str: "n < 256 \<Longrightarrow> n = length u \<Longrightarrow>
   read_exact (unat (word_of_nat n :: u8)) (bytes_of_str u @ r) = Ok (bytes_of_str u, r)"
  by (simp add: unat_of_nat_u8)

lemma socks_auth_run:
  assumes "auth_enabled authenticator" and "authenticate authenticator u p"
    and "0 < length u" and "length u < 256" and "length p < 256"
  shows "socks_auth authenticator (start ([SOCKS5_VERSION, 1, USER_PASS] @
      ([1, word_of_nat (length u)] @ bytes_of_str u @ [word_of_nat (length p)] @ bytes_of_str p) @ rest) None) =
    (Ok (), \<lparr> inp = rest, trace = [Wrote [SOCKS5_VERSION, USER_PASS], Wrote [1, SUCCEEDED]], wfail = None \<rparr>)"
  using assms read_exact_str [of "length u" u] read_exact_str [of "length p" p]
  by (simp add: socks_auth_def start_def io_eval socks_consts Let_def)

lemma socks_handle_run:
  assumes "auth_enabled authenticator" and "authenticate authenticator u p"
    and "0 < length u" and "length u < 256" and "length p < 256"
    and "wire_ok addr" and "socks_clone addr = Ok dst"
  shows "socks_handle_tcp local_addr udp_bind now counter authenticator sess
      (start (client_bytes u p CONNECT addr) None) =
    (Ok (), \<lparr> inp = [],
       trace = [Wrote [SOCKS5_VERSION, USER_PASS], Wrote [1, SUCCEEDED],
         Wrote ([SOCKS5_VERSION, SUCCEEDED, 0] @ write_buf (Ip local_addr)),
         DispatchStream (sess \<lparr> destination := dst \<rparr>)],
       wfail = None \<rparr>)"
  using socks_auth_run [OF assms(1-5), of "[SOCKS5_VERSION, CONNECT, 0] @ write_buf addr"]
    read_from_write_buf [OF assms(6), of "[]"] assms(7)
  by (simp add: socks_handle_tcp_def client_bytes_def session_clone_def io_eval socks_consts)

text \<open>The datagram codec.\<close>

lemma socks_udp_decode_frame:
  "socks_udp_decode (a # b # 0 # s) = Ok (Some (addr, payload)) \<longleftrightarrow> read_from s = Ok (addr, payload)"
proof -
  have "socks_size addr \<le> length s \<and> drop (socks_size addr) s = payload"
    if "read_from s = Ok (addr, payload)" for addr payload
    using read_from_OkD [OF that] socks_size_length [of addr] by auto
  then show ?thesis
    by (fastforce simp: socks_udp_decode_def bind_result_Inr_iff peek_read_Ok_iff split: if_splits)
qed

lemma socks_udp_panics_iff:
  "panics (socks_udp_decode s) \<longleftrightarrow> 3 \<le> length s \<and> s ! 2 = 0 \<and> peek_truncated (drop 3 s)"
proof -
  have "socks_size a \<le> length (drop 3 s)" if "peek_read (drop 3 s) = Ok a" for a
    using that read_from_OkD [of "drop 3 s" a] socks_size_length [of a]
    by (auto simp: peek_read_Ok_iff simp del: length_drop)
  then show ?thesis
    using peek_read_panics_iff [of "drop 3 s"]
    by (auto simp: socks_udp_decode_def Let_def panics_def bind_result_def peek_truncated_def split: sum.splits)
qed

section \<open>Properties\<close>

text \<open>
  C6. With credentials configured, the SOCKS5 server hands a connection (stream or UDP
  association) to the dispatcher only after the client offered user/password authentication and
  sent a user name and password that the store accepts, whatever bytes it sends and however the
  writes fail.
\<close>

theorem socks_auth_safety:
  assumes "auth_enabled authenticator"
    and "dispatches (snd (socks_handle_tcp local_addr udp_bind now counter authenticator sess (start bs w)))"
  shows "\<exists>rest. auth_transcript authenticator bs rest"
proof -
  have "\<not> dispatches (start bs w)" by (simp add: dispatches_def)
  with assms(2) obtain x c where "socks_auth authenticator (start bs w) = (Ok x, c)"
    unfolding socks_handle_tcp_def by (elim quiet_bindD) (simp_all add: quiet_auth)
  with socks_auth_OkD [of authenticator "start bs w" c] assms(1) show ?thesis by auto
qed

theorem socks_auth_safety_witness:
  "\<exists>rest. auth_transcript (plain_authenticator_new [(''u'', ''p'')])
     (client_bytes ''u'' ''p'' CONNECT (Ip (SocketV4 1 80))) rest"
  by (rule socks_auth_safety [where local_addr = "SocketV4 2 1080" and udp_bind = Ok and w = None and
        now = 0 and counter = 1 and sess = "fst (session_default 0 0)"])
    (simp_all add: auth_enabled_iff socks_handle_run authenticate_iff dispatches_def)

text \<open>
  C16. The two ends fit: a client that connects with credentials the server accepts, and the
  server reading what the client writes, both finish; each sends exactly what the other reads,
  the client gets the server's local address, and the server dispatches a stream for the address
  the client asked for (as the session's clone holds it).
\<close>

theorem socks_interop:
  assumes "auth_enabled authenticator" and "authenticate authenticator u p"
    and "0 < length u" and "length u < 256" and "length p < 256"
    and "wire_ok addr" and "socks_clone addr = Ok dst"
  shows "\<exists>cc cs.
    client_handshake addr CONNECT (Some u) (Some p) (start (sent (trace cs)) None) =
      (Ok (wire_norm (Ip local_addr)), cc) \<and>
    socks_handle_tcp local_addr udp_bind now counter authenticator sess (start (sent (trace cc)) None) =
      (Ok (), cs) \<and>
    DispatchStream (sess \<lparr> destination := dst \<rparr>) \<in> set (trace cs)"
proof -
  have "domain_ok (Ip local_addr)" by (simp add: domain_ok_def)
  note c = client_handshake_run [OF this, of CONNECT addr u p]
  note s = socks_handle_run [OF assms, of local_addr udp_bind now counter sess]
  show ?thesis
    by (rule exI [of _ "snd (client_handshake addr CONNECT (Some u) (Some p)
            (start (server_bytes (Ip local_addr)) None))"],
        rule exI [of _ "snd (socks_handle_tcp local_addr udp_bind now counter authenticator sess
            (start (client_bytes u p CONNECT addr) None))"])
      (use c s in \<open>simp add: server_bytes_def client_bytes_def socks_consts\<close>)
qed

theorem socks_interop_witness:
  "\<exists>cc cs.
    client_handshake (Ip (SocketV4 1 80)) CONNECT (Some ''u'') (Some ''p'') (start (sent (trace cs)) None) =
      (Ok (Ip (SocketV4 2 1080)), cc) \<and>
    socks_handle_tcp (SocketV4 2 1080) Ok 0 1 (plain_authenticator_new [(''u'', ''p'')])
      (fst (session_default 0 0)) (start (sent (trace cc)) None) = (Ok (), cs) \<and>
    DispatchStream (fst (session_default 0 0) \<lparr> destination := Ip (SocketV4 1 80) \<rparr>) \<in> set (trace cs)"
  using socks_interop [of "plain_authenticator_new [(''u'', ''p'')]" "''u''" "''p''"
      "Ip (SocketV4 1 80)" "Ip (SocketV4 1 80)" "SocketV4 2 1080" Ok 0 1 "fst (session_default 0 0)"]
  by (simp add: auth_enabled_iff authenticate_iff)

text \<open>
  C36. A SOCKS5 datagram that the encoder writes is decoded to the same address and payload; every
  datagram the decoder accepts with a zero reserved field is one the encoder writes; and the
  decoder panics exactly on an unfragmented datagram whose domain address is cut off in the port.
\<close>

theorem socks_udp_codec:
  "(wire_ok addr \<longrightarrow> socks_udp_decode (socks_udp_encode (payload, addr)) = Ok (Some (addr, payload))) \<and>
   (socks_udp_decode ([0, 0] @ s) = Ok (Some (addr, payload)) \<longrightarrow> [0, 0] @ s = socks_udp_encode (payload, addr)) \<and>
   (panics (socks_udp_decode t) \<longleftrightarrow> 3 \<le> length t \<and> t ! 2 = 0 \<and> peek_truncated (drop 3 t))"
proof -
  have enc: "socks_udp_encode (payload, addr) = 0 # 0 # 0 # write_buf addr @ payload"
    by (simp add: socks_udp_encode_def)
  have "wire_ok addr \<Longrightarrow> socks_udp_decode (socks_udp_encode (payload, addr)) = Ok (Some (addr, payload))"
    unfolding enc socks_udp_decode_frame by (rule read_from_write_buf)
  moreover have "[0, 0] @ s = socks_udp_encode (payload, addr)"
    if d: "socks_udp_decode ([0, 0] @ s) = Ok (Some (addr, payload))"
  proof -
    obtain r where s: "s = 0 # r"
      using d by (cases s) (auto simp: socks_udp_decode_def split: if_splits)
    with d socks_udp_decode_frame [of 0 0 r addr payload] read_from_OkD [of r addr payload]
    show ?thesis by (simp add: enc)
  qed
  ultimately show ?thesis using socks_udp_panics_iff by blast
qed

theorem socks_udp_codec_witness:
  "socks_udp_decode (socks_udp_encode ([7, 8], Ip (SocketV4 1 53))) = Ok (Some (Ip (SocketV4 1 53), [7, 8]))"
  using socks_udp_codec [of "Ip (SocketV4 1 53)" "[7, 8]"] by simp

text \<open>
  Without credentials no input makes the SOCKS5 server panic; with credentials configured, a
  client that announces an empty user name does: the password length is read into the first byte
  of a buffer that is then empty.
\<close>

theorem socks_server_panics:
  assumes "\<And>a. \<not> panics (udp_bind a)"
  shows "if auth_enabled authenticator
    then fst (socks_handle_tcp local_addr udp_bind now counter authenticator sess
           (start ([SOCKS5_VERSION, 1, USER_PASS, v, 0] @ rest) None)) = Err Panic
    else \<not> panics (fst (socks_handle_tcp local_addr udp_bind now counter authenticator sess (start bs w)))"
proof (cases "auth_enabled authenticator")
  case True
  then show ?thesis
    by (simp add: socks_handle_tcp_def socks_auth_def start_def io_eval socks_consts Let_def)
next
  case False
  with panic_free_handle [OF panic_free_auth [OF False] assms] show ?thesis
    by (simp add: panic_free_def)
qed

theorem socks_server_panics_witness:
  "fst (socks_handle_tcp (SocketV4 2 1080) Ok 0 1 (plain_authenticator_new [(''u'', ''p'')])
     (fst (session_default 0 0)) (start [SOCKS5_VERSION, 1, USER_PASS, 1, 0] None)) = Err Panic"
  using socks_server_panics [of Ok "plain_authenticator_new [(''u'', ''p'')]" "SocketV4 2 1080" 0 1
      "fst (session_default 0 0)" 1 "[]"]
  by (simp add: auth_enabled_iff)

end
