(* ===== verification/Proxy_Manager.thy ===== *)
theory Proxy_Manager
  imports Session
begin

text \<open>
  Outbound handlers as the groups see them, the latency registry, the health check and the proxy
  providers: the trait of \<^verbatim>\<open>proxy/mod.rs\<close>, the registry part of
  \<^verbatim>\<open>app/remote_content_manager/mod.rs\<close>, \<^verbatim>\<open>healthcheck.rs\<close>, the providers of
  \<^verbatim>\<open>providers/proxy_provider\<close> and \<^verbatim>\<open>proxy/utils/provider_helper.rs\<close>.

  A handler is a handle of type \<open>'h\<close>, the \<^verbatim>\<open>Arc<dyn OutboundHandler>\<close>, and the methods of the
  trait are the fields of a record of functions on handles. A \<^verbatim>\<open>Duration\<close> and a point in time are
  their nanoseconds. The HTTP request of a URL test is an argument, as it is network traffic;
  what the registry records of its outcome is modelled.
\<close>

section \<open>Handlers and connections\<close>

definition PROXY_DIRECT :: string where "PROXY_DIRECT = ''DIRECT''"
definition PROXY_REJECT :: string where "PROXY_REJECT = ''REJECT''"
definition PROXY_GLOBAL :: string where "PROXY_GLOBAL = ''GLOBAL''"

datatype connector_type = ConnTcp | ConnAll | ConnNone

text \<open>
  \<^verbatim>\<open>ChainedStreamWrapper\<close>: what is wrapped, and the names pushed on the chain of this wrapper. A
  wrapper around a wrapper starts a chain of its own.
\<close>

record 'c chained =
  ch_inner :: 'c
  ch_chain :: "string list"

definition chained_new :: "'c \<Rightarrow> 'c chained" where
  "chained_new c = \<lparr>ch_inner = c, ch_chain = []\<rparr>"

definition append_to_chain :: "string \<Rightarrow> 'c chained \<Rightarrow> 'c chained" where
  "append_to_chain n s = s\<lparr>ch_chain := ch_chain s @ [n]\<rparr>"

text \<open>\<^verbatim>\<open>RemoteConnector\<close>: dial directly, or through a proxy that dials through a connector.\<close>

datatype 'h remote_connector = DirectConnector | ProxyConnector 'h "'h remote_connector"

record ('h, 'c) outbound_ops =
  ob_name :: "'h \<Rightarrow> string"
  ob_support_udp :: "'h \<Rightarrow> bool"
  ob_support_connector :: "'h \<Rightarrow> connector_type"
  ob_connect_stream :: "'h \<Rightarrow> session \<Rightarrow> 'c chained result"
  ob_connect_datagram :: "'h \<Rightarrow> session \<Rightarrow> 'c chained result"
  ob_connect_stream_with :: "'h \<Rightarrow> session \<Rightarrow> 'h remote_connector \<Rightarrow> 'c chained result"
  ob_connect_datagram_with :: "'h \<Rightarrow> session \<Rightarrow> 'h remote_connector \<Rightarrow> 'c chained result"

section \<open>The latency registry\<close>

record delay_history =
  dh_time :: nat
  dh_delay :: nat

record proxy_state =
  ps_alive :: bool
  ps_history :: "delay_history list"

type_synonym registry = "string \<Rightarrow> proxy_state option"

definition proxy_state_default :: proxy_state where
  "proxy_state_default = \<lparr>ps_alive = False, ps_history = []\<rparr>"

definition registry_new :: registry where
  "registry_new = (\<lambda>_. None)"

definition pm_alive :: "registry \<Rightarrow> string \<Rightarrow> bool" where
  "pm_alive m n = (case m n of Some s \<Rightarrow> ps_alive s | None \<Rightarrow> True)"

definition pm_entry :: "registry \<Rightarrow> string \<Rightarrow> proxy_state" where
  "pm_entry m n = (case m n of Some s \<Rightarrow> s | None \<Rightarrow> proxy_state_default)"

definition report_alive :: "string \<Rightarrow> bool \<Rightarrow> registry \<Rightarrow> registry" where
  "report_alive n a m = m(n \<mapsto> (pm_entry m n)\<lparr>ps_alive := a\<rparr>)"

definition delay_history :: "registry \<Rightarrow> string \<Rightarrow> delay_history list" where
  "delay_history m n = (case m n of Some s \<Rightarrow> ps_history s | None \<Rightarrow> [])"

definition last_delay :: "registry \<Rightarrow> string \<Rightarrow> nat option" where
  "last_delay m n =
    (if \<not> pm_alive m n then None
     else if delay_history m n = [] then None
     else Some (dh_delay (last (delay_history m n))))"

definition push_history :: "delay_history \<Rightarrow> delay_history list \<Rightarrow> delay_history list" where
  "push_history d hs = (let hs' = hs @ [d] in if length hs' > 10 then tl hs' else hs')"

text \<open>
  \<^verbatim>\<open>url_test\<close>: the outcome of the request, the round trip of the request and the overall one, is
  the argument \<open>tester\<close>; the registry learns whether it succeeded and the first of the two.
\<close>

definition url_test ::
  "('h \<Rightarrow> string \<Rightarrow> nat \<Rightarrow> (nat \<times> nat) result) \<Rightarrow> ('h, 'c) outbound_ops \<Rightarrow> nat \<Rightarrow> 'h \<Rightarrow> string \<Rightarrow>
   nat option \<Rightarrow> registry \<Rightarrow> (nat \<times> nat) result \<times> registry" where
  "url_test tester ops now h url timeout m =
    (let n = ob_name ops h;
         t = (case timeout of Some t \<Rightarrow> t | None \<Rightarrow> 5 * 10 ^ 9);
         r = tester h url t;
         m1 = report_alive n (case r of Inr _ \<Rightarrow> True | Inl _ \<Rightarrow> False) m;
         ins = \<lparr>dh_time = now, dh_delay = (case r of Inr (a, _) \<Rightarrow> a | Inl _ \<Rightarrow> 0)\<rparr>;
         st = pm_entry m1 n
     in (r, m1(n \<mapsto> st\<lparr>ps_history := push_history ins (ps_history st)\<rparr>)))"

text \<open>
  \<^verbatim>\<open>check\<close> spawns one test per handler and collects them as they complete. The argument \<open>hs\<close> is the
  list in the order of completion, with the time of each.
\<close>

fun pm_check ::
  "('h \<Rightarrow> string \<Rightarrow> nat \<Rightarrow> (nat \<times> nat) result) \<Rightarrow> ('h, 'c) outbound_ops \<Rightarrow> (nat \<times> 'h) list \<Rightarrow>
   string \<Rightarrow> nat option \<Rightarrow> registry \<Rightarrow> (nat \<times> nat) result list \<times> registry" where
  "pm_check tester ops [] url timeout m = ([], m)"
| "pm_check tester ops ((now, h) # hs) url timeout m =
    (let (r, m1) = url_test tester ops now h url timeout m;
         (rs, m2) = pm_check tester ops hs url timeout m1
     in (r # rs, m2))"

section \<open>Health check\<close>

text \<open>
  \<open>hc_task\<close> is the periodic task: nothing before \<^verbatim>\<open>kick_off\<close>, then the list of proxies that the
  task captured when it started.
\<close>

record 'h health_check =
  hc_url :: string
  hc_interval :: u64
  hc_lazy :: bool
  hc_last :: nat
  hc_proxies :: "'h list"
  hc_task :: "'h list option"

definition hc_new :: "'h list \<Rightarrow> string \<Rightarrow> u64 \<Rightarrow> bool \<Rightarrow> nat \<Rightarrow> 'h health_check" where
  "hc_new proxies url interval lazy now =
    \<lparr>hc_url = url, hc_interval = interval, hc_lazy = lazy, hc_last = now, hc_proxies = proxies,
     hc_task = None\<rparr>"

text \<open>Each operation returns the handlers it has the registry check, and the new state.\<close>

definition kick_off :: "'h health_check \<Rightarrow> 'h list \<times> 'h health_check" where
  "kick_off hc = (hc_proxies hc, hc\<lparr>hc_task := Some (hc_proxies hc)\<rparr>)"

definition hc_tick :: "nat \<Rightarrow> 'h health_check \<Rightarrow> 'h list \<times> 'h health_check" where
  "hc_tick now hc =
    (case hc_task hc of
       None \<Rightarrow> ([], hc)
     | Some proxies \<Rightarrow>
         if \<not> hc_lazy hc \<or> (now - hc_last hc) div 10 ^ 9 \<ge> unat (hc_interval hc)
         then (proxies, hc\<lparr>hc_last := now\<rparr>)
         else ([], hc))"

definition hc_touch :: "nat \<Rightarrow> 'h health_check \<Rightarrow> 'h health_check" where
  "hc_touch now hc = hc\<lparr>hc_last := now\<rparr>"

definition hc_check :: "'h health_check \<Rightarrow> 'h list" where
  "hc_check hc = hc_proxies hc"

definition hc_update :: "'h list \<Rightarrow> 'h health_check \<Rightarrow> 'h health_check" where
  "hc_update proxies hc = hc\<lparr>hc_proxies := proxies\<rparr>"

definition hc_auto :: "'h health_check \<Rightarrow> bool" where
  "hc_auto hc \<longleftrightarrow> hc_interval hc \<noteq> 0"

section \<open>Proxy providers\<close>

record 'h proxy_provider =
  pp_name :: string
  pp_proxies :: "'h list"
  pp_hc :: "'h health_check"

definition plain_provider_new ::
  "string \<Rightarrow> 'h list \<Rightarrow> 'h health_check \<Rightarrow> ('h list \<times> 'h proxy_provider) result" where
  "plain_provider_new n proxies hc =
    (if proxies = [] then Err (InvalidConfig (n @ '': proxies is empty''))
     else if hc_auto hc
     then (let (chk, hc') = kick_off hc
           in Ok (chk, \<lparr>pp_name = n, pp_proxies = proxies, pp_hc = hc'\<rparr>))
     else Ok ([], \<lparr>pp_name = n, pp_proxies = proxies, pp_hc = hc\<rparr>))"

definition proxy_set_provider_new ::
  "string \<Rightarrow> 'h health_check \<Rightarrow> 'h list \<times> 'h proxy_provider" where
  "proxy_set_provider_new n hc =
    (let (chk, hc') = (if hc_auto hc then kick_off hc else ([], hc))
     in (chk, \<lparr>pp_name = n, pp_proxies = [], pp_hc = hc'\<rparr>))"

definition proxy_set_updater ::
  "'h list \<Rightarrow> 'h proxy_provider \<Rightarrow> 'h list \<times> 'h proxy_provider" where
  "proxy_set_updater input p =
    (let hc = hc_update input (pp_hc p)
     in (hc_check hc, p\<lparr>pp_proxies := input, pp_hc := hc\<rparr>))"

definition provider_touch :: "nat \<Rightarrow> 'h proxy_provider \<Rightarrow> 'h proxy_provider" where
  "provider_touch now p = p\<lparr>pp_hc := hc_touch now (pp_hc p)\<rparr>"

text \<open>
  \<^verbatim>\<open>get_proxies_from_providers\<close>: \<open>retain\<close> keeps a handler when its name is new to the set.
\<close>

fun retain_new :: "('h \<Rightarrow> string) \<Rightarrow> string set \<Rightarrow> 'h list \<Rightarrow> string set \<times> 'h list" where
  "retain_new nm seen [] = (seen, [])"
| "retain_new nm seen (h # hs) =
    (if nm h \<in> seen then retain_new nm seen hs
     else let (s, r) = retain_new nm (insert (nm h) seen) hs in (s, h # r))"

fun collect_proxies ::
  "('h \<Rightarrow> string) \<Rightarrow> string set \<Rightarrow> 'h proxy_provider list \<Rightarrow> 'h list" where
  "collect_proxies nm seen [] = []"
| "collect_proxies nm seen (p # ps) =
    (let (s, r) = retain_new nm seen (pp_proxies p) in r @ collect_proxies nm s ps)"

definition get_proxies_from_providers ::
  "('h, 'c) outbound_ops \<Rightarrow> nat \<Rightarrow> bool \<Rightarrow> 'h proxy_provider list \<Rightarrow>
   'h list \<times> 'h proxy_provider list" where
  "get_proxies_from_providers ops now touch ps =
    (collect_proxies (ob_name ops) {} ps, if touch then map (provider_touch now) ps else ps)"

section \<open>Facts about the registry\<close>

definition registry_ok :: "registry \<Rightarrow> bool" where
  "registry_ok m \<longleftrightarrow> (\<forall>s\<in>ran m. length (ps_history s) \<le> 10)"

lemma registry_new_ok: "registry_ok registry_new"
  by (simp add: registry_ok_def registry_new_def)

lemma pm_entry_ok: "registry_ok m \<Longrightarrow> length (ps_history (pm_entry m n)) \<le> 10"
  by (auto simp: registry_ok_def pm_entry_def proxy_state_default_def ran_def split: option.split)

lemma registry_ok_upd:
  "registry_ok m \<Longrightarrow> length (ps_history s) \<le> 10 \<Longrightarrow> registry_ok (m(n \<mapsto> s))"
  by (auto simp: registry_ok_def ran_def)

lemma length_push_history: "length hs \<le> 10 \<Longrightarrow> length (push_history d hs) \<le> 10"
  by (simp add: push_history_def Let_def)

lemma last_push_history: "push_history d hs \<noteq> []" "last (push_history d hs) = d"
  by (cases hs; simp add: push_history_def Let_def)+

lemma report_alive_ok: "registry_ok m \<Longrightarrow> registry_ok (report_alive n a m)"
  by (simp add: report_alive_def registry_ok_upd pm_entry_ok)

lemma url_test_ok: "registry_ok m \<Longrightarrow> registry_ok (snd (url_test tester ops now h url t m))"
  by (simp add: url_test_def Let_def registry_ok_upd length_push_history pm_entry_ok report_alive_ok)

lemma pm_check_ok: "registry_ok m \<Longrightarrow> registry_ok (snd (pm_check tester ops hs url t m))"
proof (induction hs arbitrary: m)
  case (Cons x hs)
  obtain now h where x: "x = (now, h)" by (cases x)
  have "registry_ok (snd (url_test tester ops now h url t m))"
    using Cons.prems by (rule url_test_ok)
  from Cons.IH [OF this] show ?case by (simp add: x case_prod_beta)
qed simp

text \<open>After a test the registry answers with its outcome.\<close>

lemma last_delay_url_test:
  "last_delay (snd (url_test tester ops now h url t m)) (ob_name ops h) =
    (case fst (url_test tester ops now h url t m) of Inr (a, _) \<Rightarrow> Some a | Inl _ \<Rightarrow> None)"
  by (auto simp: url_test_def Let_def last_delay_def pm_alive_def delay_history_def pm_entry_def
      report_alive_def last_push_history split: sum.split)

lemma last_delay_url_test_other:
  "n \<noteq> ob_name ops h \<Longrightarrow> last_delay (snd (url_test tester ops now h url t m)) n = last_delay m n"
  by (simp add: url_test_def Let_def last_delay_def pm_alive_def delay_history_def report_alive_def)

lemma last_delay_alive: "last_delay m n = Some d \<Longrightarrow> pm_alive m n"
  by (simp add: last_delay_def split: if_splits)


section \<open>Facts about the providers\<close>

lemma retain_new_fst: "fst (retain_new nm seen hs) = seen \<union> nm ` set hs"
  by (induction hs arbitrary: seen) (auto simp: case_prod_beta Let_def)

lemma retain_new_Cons:
  "snd (retain_new nm seen (h # hs)) =
    (if nm h \<in> seen then snd (retain_new nm seen hs)
     else h # snd (retain_new nm (insert (nm h) seen) hs))"
  by (simp add: case_prod_beta Let_def)

lemma retain_new_append:
  "snd (retain_new nm seen (xs @ ys)) =
    snd (retain_new nm seen xs) @ snd (retain_new nm (seen \<union> nm ` set xs) ys)"
  by (induction xs arbitrary: seen)
    (simp_all add: retain_new_Cons insert_absorb del: retain_new.simps(2))

lemma collect_retain:
  "collect_proxies nm seen ps = snd (retain_new nm seen (concat (map pp_proxies ps)))"
  by (induction ps arbitrary: seen)
    (simp_all add: retain_new_append retain_new_fst case_prod_beta Let_def)

lemma retain_new_names: "nm ` set (snd (retain_new nm seen hs)) = nm ` set hs - seen"
  by (induction hs arbitrary: seen)
    (auto simp: retain_new_Cons simp del: retain_new.simps(2))

lemma retain_new_subset: "set (snd (retain_new nm seen hs)) \<subseteq> set hs"
proof (induction hs arbitrary: seen)
  case (Cons h hs)
  then show ?case
    by (simp add: retain_new_Cons subset_insertI2 del: retain_new.simps(2))
qed simp

lemma retain_new_distinct: "distinct (map nm (snd (retain_new nm seen hs)))"
proof (induction hs arbitrary: seen)
  case (Cons h hs)
  have "nm h \<notin> nm ` set (snd (retain_new nm (insert (nm h) seen) hs))"
    by (simp add: retain_new_names)
  with Cons.IH show ?case by (simp add: retain_new_Cons del: retain_new.simps(2))
qed simp

end
