(* ===== verification/Statistics.thy ===== *)
theory Statistics
  imports Proxy_Manager "HOL-Library.AList" "HOL-Library.Multiset"
begin

text \<open>
  Model of \<^verbatim>\<open>app/dispatcher/statistics_manager.rs\<close> and \<^verbatim>\<open>app/dispatcher/tracked.rs\<close>: the traffic
  counters, the table of tracked connections and the wrappers that count what passes through a
  connection. The counters are 64-bit words that wrap. A connection is identified by a number, the
  \<^verbatim>\<open>Uuid\<close>; its close channel has something to say exactly when the manager no longer holds its sender,
  that is, when the connection is not in the table.
\<close>

section \<open>Counters\<close>

text \<open>One direction: what came since the last tick, what came in the last second, and the total.\<close>

record counter =
  c_temp :: u64
  c_blip :: u64
  c_total :: u64

definition counter_zero :: counter where
  "counter_zero = \<lparr>c_temp = 0, c_blip = 0, c_total = 0\<rparr>"

text \<open>\<^verbatim>\<open>push_uploaded\<close> and \<^verbatim>\<open>push_downloaded\<close>: two atomic additions, and both together.\<close>

definition push_temp :: "nat \<Rightarrow> counter \<Rightarrow> counter" where
  "push_temp n c = c\<lparr>c_temp := c_temp c + word_of_nat n\<rparr>"

definition push_total :: "nat \<Rightarrow> counter \<Rightarrow> counter" where
  "push_total n c = c\<lparr>c_total := c_total c + word_of_nat n\<rparr>"

definition push_counter :: "nat \<Rightarrow> counter \<Rightarrow> counter" where
  "push_counter n c = push_total n (push_temp n c)"

text \<open>The loop of \<^verbatim>\<open>kick_off\<close> for one direction: load the recent bytes, store them, clear.\<close>

datatype ticker = TickIdle | TickLoaded u64 | TickStored

definition tick_load :: "counter \<Rightarrow> ticker" where
  "tick_load c = TickLoaded (c_temp c)"

definition tick_store :: "u64 \<Rightarrow> counter \<Rightarrow> counter" where
  "tick_store v c = c\<lparr>c_blip := v\<rparr>"

definition tick_clear :: "counter \<Rightarrow> counter" where
  "tick_clear c = c\<lparr>c_temp := 0\<rparr>"

section \<open>The manager\<close>

record tracker_info =
  ti_upload :: u64
  ti_download :: u64
  ti_start :: nat
  ti_chain :: "string list"
  ti_rule :: string
  ti_rule_payload :: string
  ti_session :: session

record stats_manager =
  sm_connections :: "(nat \<times> tracker_info) list"
  sm_up :: counter
  sm_down :: counter

definition stats_new :: stats_manager where
  "stats_new = \<lparr>sm_connections = [], sm_up = counter_zero, sm_down = counter_zero\<rparr>"

definition track :: "nat \<Rightarrow> tracker_info \<Rightarrow> stats_manager \<Rightarrow> stats_manager" where
  "track i t sm = sm\<lparr>sm_connections := AList.update i t (sm_connections sm)\<rparr>"

definition untrack :: "nat \<Rightarrow> stats_manager \<Rightarrow> stats_manager" where
  "untrack i sm = sm\<lparr>sm_connections := AList.delete i (sm_connections sm)\<rparr>"

text \<open>\<^verbatim>\<open>close\<close> and \<^verbatim>\<open>close_all\<close> return the connections whose channel got the signal.\<close>

definition close :: "nat \<Rightarrow> stats_manager \<Rightarrow> nat list \<times> stats_manager" where
  "close i sm = (if i \<in> fst ` set (sm_connections sm) then [i] else [], untrack i sm)"

definition close_all :: "stats_manager \<Rightarrow> nat list \<times> stats_manager" where
  "close_all sm = (map fst (sm_connections sm), sm\<lparr>sm_connections := []\<rparr>)"

definition push_uploaded :: "nat \<Rightarrow> stats_manager \<Rightarrow> stats_manager" where
  "push_uploaded n sm = sm\<lparr>sm_up := push_counter n (sm_up sm)\<rparr>"

definition push_downloaded :: "nat \<Rightarrow> stats_manager \<Rightarrow> stats_manager" where
  "push_downloaded n sm = sm\<lparr>sm_down := push_counter n (sm_down sm)\<rparr>"

definition now_blips :: "stats_manager \<Rightarrow> u64 \<times> u64" where
  "now_blips sm = (c_blip (sm_up sm), c_blip (sm_down sm))"

definition reset_statistic :: "stats_manager \<Rightarrow> stats_manager" where
  "reset_statistic sm = sm\<lparr>sm_up := counter_zero, sm_down := counter_zero\<rparr>"

text \<open>One iteration of \<^verbatim>\<open>kick_off\<close> that nothing interrupts.\<close>

definition tick_counter :: "counter \<Rightarrow> counter" where
  "tick_counter c = (case tick_load c of TickLoaded v \<Rightarrow> tick_clear (tick_store v c) | _ \<Rightarrow> c)"

definition kick_off_tick :: "stats_manager \<Rightarrow> stats_manager" where
  "kick_off_tick sm = sm\<lparr>sm_up := tick_counter (sm_up sm), sm_down := tick_counter (sm_down sm)\<rparr>"

record snapshot =
  sn_download_total :: u64
  sn_upload_total :: u64
  sn_connections :: "(nat \<times> tracker_info) list"
  sn_memory :: nat

text \<open>\<^verbatim>\<open>snapshot\<close>: the connections in the iteration order of the table, which is the order of the list.\<close>

definition take_snapshot :: "nat option \<Rightarrow> stats_manager \<Rightarrow> snapshot" where
  "take_snapshot memory sm =
    \<lparr>sn_download_total = c_total (sm_down sm), sn_upload_total = c_total (sm_up sm),
     sn_connections = sm_connections sm, sn_memory = (case memory of Some m \<Rightarrow> m | None \<Rightarrow> 0)\<rparr>"

section \<open>Tracked connections\<close>

text \<open>\<^verbatim>\<open>UdpPacket\<close> of \<^verbatim>\<open>proxy/datagram.rs\<close>.\<close>

record udp_packet =
  pkt_data :: bytes
  src_addr :: socks_addr
  dst_addr :: socks_addr

datatype 'a poll = Pending | Ready 'a

definition broken_pipe :: error where
  "broken_pipe = Other ''broken pipe''"

definition tracked_new ::
  "nat \<Rightarrow> nat \<Rightarrow> session \<Rightarrow> (string \<times> string) option \<Rightarrow> string list \<Rightarrow> stats_manager \<Rightarrow> stats_manager" where
  "tracked_new i now sess rule chain sm =
    track i \<lparr>ti_upload = 0, ti_download = 0, ti_start = now, ti_chain = chain,
      ti_rule = (case rule of Some (t, _) \<Rightarrow> t | None \<Rightarrow> []),
      ti_rule_payload = (case rule of Some (_, p) \<Rightarrow> p | None \<Rightarrow> []), ti_session = sess\<rparr> sm"

definition is_tracked :: "nat \<Rightarrow> stats_manager \<Rightarrow> bool" where
  "is_tracked i sm \<longleftrightarrow> i \<in> fst ` set (sm_connections sm)"

definition count_download :: "nat \<Rightarrow> nat \<Rightarrow> stats_manager \<Rightarrow> stats_manager" where
  "count_download i n sm =
    (let sm = push_downloaded n sm in
     sm\<lparr>sm_connections := AList.map_entry i (\<lambda>t. t\<lparr>ti_download := ti_download t + word_of_nat n\<rparr>) (sm_connections sm)\<rparr>)"

definition count_upload :: "nat \<Rightarrow> nat \<Rightarrow> stats_manager \<Rightarrow> stats_manager" where
  "count_upload i n sm =
    (let sm = push_uploaded n sm in
     sm\<lparr>sm_connections := AList.map_entry i (\<lambda>t. t\<lparr>ti_upload := ti_upload t + word_of_nat n\<rparr>) (sm_connections sm)\<rparr>)"

text \<open>
  \<^verbatim>\<open>poll_read\<close> of a stream: \<open>inner\<close> is what the wrapped stream makes of the filled part of the read
  buffer. The number of bytes counted is the length of the filled part afterwards.
\<close>

definition tracked_poll_read ::
  "nat \<Rightarrow> (bytes \<Rightarrow> unit result poll \<times> bytes) \<Rightarrow> bytes \<Rightarrow> stats_manager \<Rightarrow>
   unit result poll \<times> bytes \<times> stats_manager" where
  "tracked_poll_read i inner filled sm =
    (if \<not> is_tracked i sm then (Ready (Err broken_pipe), filled, sm)
     else let (v, filled') = inner filled in (v, filled', count_download i (length filled') sm))"

definition tracked_poll_write ::
  "nat \<Rightarrow> (bytes \<Rightarrow> nat result poll) \<Rightarrow> bytes \<Rightarrow> stats_manager \<Rightarrow> nat result poll \<times> stats_manager" where
  "tracked_poll_write i inner buf sm =
    (if \<not> is_tracked i sm then (Ready (Err broken_pipe), sm)
     else case inner buf of
       Ready (Inr n) \<Rightarrow> (Ready (Ok n), count_upload i n sm)
     | v \<Rightarrow> (v, sm))"

text \<open>\<^verbatim>\<open>poll_flush\<close>, \<^verbatim>\<open>poll_shutdown\<close>, \<^verbatim>\<open>poll_ready\<close> and \<^verbatim>\<open>poll_close\<close> share one shape.\<close>

definition tracked_poll :: "nat \<Rightarrow> unit result poll \<Rightarrow> stats_manager \<Rightarrow> unit result poll" where
  "tracked_poll i inner sm = (if \<not> is_tracked i sm then Ready (Err broken_pipe) else inner)"

definition tracked_poll_next ::
  "nat \<Rightarrow> udp_packet option poll \<Rightarrow> stats_manager \<Rightarrow> udp_packet option poll \<times> stats_manager" where
  "tracked_poll_next i inner sm =
    (if \<not> is_tracked i sm then (Ready None, sm)
     else case inner of
       Ready (Some pkt) \<Rightarrow> (inner, count_download i (length (pkt_data pkt)) sm)
     | _ \<Rightarrow> (inner, sm))"

definition tracked_start_send ::
  "nat \<Rightarrow> (udp_packet \<Rightarrow> unit result) \<Rightarrow> udp_packet \<Rightarrow> stats_manager \<Rightarrow> unit result \<times> stats_manager" where
  "tracked_start_send i inner item sm =
    (if \<not> is_tracked i sm then (Err broken_pipe, sm)
     else (inner item, count_upload i (length (pkt_data item)) sm))"

section \<open>The counters under concurrency\<close>

text \<open>
  The tasks of connections and the ticker run in parallel on the atomics. \<open>cr_pending\<close> holds the
  sizes that were added to the recent bytes and not yet to the total, \<open>cr_sent\<close> all sizes so far and
  \<open>cr_seen\<close> the sum of the values the ticker has stored.
\<close>

record counter_run =
  cr_counter :: counter
  cr_ticker :: ticker
  cr_pending :: "nat multiset"
  cr_sent :: nat
  cr_seen :: nat

definition run_start :: counter_run where
  "run_start = \<lparr>cr_counter = counter_zero, cr_ticker = TickIdle, cr_pending = {#}, cr_sent = 0, cr_seen = 0\<rparr>"

inductive counter_reach :: "counter_run \<Rightarrow> bool" where
  reach_start: "counter_reach run_start"
| reach_temp: "counter_reach r \<Longrightarrow>
    counter_reach (r\<lparr>cr_counter := push_temp n (cr_counter r), cr_pending := add_mset n (cr_pending r),
      cr_sent := cr_sent r + n\<rparr>)"
| reach_total: "counter_reach r \<Longrightarrow> n \<in># cr_pending r \<Longrightarrow>
    counter_reach (r\<lparr>cr_counter := push_total n (cr_counter r), cr_pending := cr_pending r - {#n#}\<rparr>)"
| reach_load: "counter_reach r \<Longrightarrow> cr_ticker r = TickIdle \<Longrightarrow>
    counter_reach (r\<lparr>cr_ticker := tick_load (cr_counter r)\<rparr>)"
| reach_store: "counter_reach r \<Longrightarrow> cr_ticker r = TickLoaded v \<Longrightarrow>
    counter_reach (r\<lparr>cr_counter := tick_store v (cr_counter r), cr_ticker := TickStored, cr_seen := cr_seen r + unat v\<rparr>)"
| reach_clear: "counter_reach r \<Longrightarrow> cr_ticker r = TickStored \<Longrightarrow>
    counter_reach (r\<lparr>cr_counter := tick_clear (cr_counter r), cr_ticker := TickIdle\<rparr>)"

fun tick_ok :: "ticker \<Rightarrow> nat \<Rightarrow> u64 \<Rightarrow> nat \<Rightarrow> bool" where
  "tick_ok TickIdle seen temp sent \<longleftrightarrow> seen + unat temp \<le> sent"
| "tick_ok (TickLoaded v) seen temp sent \<longleftrightarrow> seen + unat v \<le> sent"
| "tick_ok TickStored seen temp sent \<longleftrightarrow> seen \<le> sent"

definition counter_inv :: "counter_run \<Rightarrow> bool" where
  "counter_inv r \<longleftrightarrow> sum_mset (cr_pending r) \<le> cr_sent r \<and>
    c_total (cr_counter r) = word_of_nat (cr_sent r - sum_mset (cr_pending r)) \<and>
    tick_ok (cr_ticker r) (cr_seen r) (c_temp (cr_counter r)) (cr_sent r)"

lemma unat_add_of_nat_le: "unat (w + word_of_nat n :: u64) \<le> unat w + n"
proof -
  have "unat (w + word_of_nat n) \<le> unat w + unat (word_of_nat n :: u64)"
    by (simp add: unat_word_ariths)
  also have "unat (word_of_nat n :: u64) \<le> n" by (simp add: unat_of_nat)
  finally show ?thesis by simp
qed

lemma tick_ok_push: "tick_ok t seen temp sent \<Longrightarrow> tick_ok t seen (temp + word_of_nat n) (sent + n)"
  using unat_add_of_nat_le [of temp n] by (cases t) (simp_all add: add.assoc)

lemma total_step:
  assumes "n + k \<le> t"
  shows "word_of_nat (t - (n + k)) + word_of_nat n = (word_of_nat (t - k) :: u64)"
proof -
  have "t - k = (t - (n + k)) + n" using assms by simp
  then show ?thesis by (metis of_nat_add)
qed

lemma counter_reach_inv: "counter_reach r \<Longrightarrow> counter_inv r"
proof (induction rule: counter_reach.induct)
  case reach_start
  show ?case by (simp add: counter_inv_def run_start_def counter_zero_def)
next
  case (reach_temp r n)
  then show ?case by (simp add: counter_inv_def push_temp_def tick_ok_push)
next
  case (reach_total r n)
  then obtain P where P: "cr_pending r = add_mset n P" by (metis multi_member_split)
  with reach_total.IH have "n + sum_mset P \<le> cr_sent r" by (simp add: counter_inv_def)
  from total_step [OF this] reach_total.IH show ?case by (simp add: counter_inv_def push_total_def P)
next
  case (reach_load r)
  then show ?case by (simp add: counter_inv_def tick_load_def)
next
  case (reach_store r v)
  then show ?case by (simp add: counter_inv_def tick_store_def)
next
  case (reach_clear r)
  then show ?case by (simp add: counter_inv_def tick_clear_def)
qed

section \<open>Properties\<close>

text \<open>
  C21. The traffic counters under every interleaving of the connections and the ticker: the total is
  the sum, modulo \<open>2 ^ 64\<close>, of the sizes whose second addition has happened, and the
  values that the ticker publishes, together with the bytes it has not published yet, never exceed
  what was transferred: no byte is reported for two seconds.
\<close>

theorem counter_conserved:
  assumes "counter_reach r"
  shows "c_total (cr_counter r) = word_of_nat (cr_sent r - sum_mset (cr_pending r)) \<and>
    cr_seen r + (if cr_ticker r = TickIdle then unat (c_temp (cr_counter r)) else 0) \<le> cr_sent r"
  using counter_reach_inv [OF assms] by (cases "cr_ticker r") (simp_all add: counter_inv_def)

text \<open>The reports can fall short: a size that arrives between the load and the clear is in no report.\<close>

definition run_lost :: counter_run where
  "run_lost = \<lparr>cr_counter = \<lparr>c_temp = 0, c_blip = 0, c_total = 5\<rparr>, cr_ticker = TickIdle, cr_pending = {#},
    cr_sent = 5, cr_seen = 0\<rparr>"

lemma counter_loses: "counter_reach run_lost"
proof -
  let ?r1 = "run_start\<lparr>cr_ticker := tick_load (cr_counter run_start)\<rparr>"
  have "counter_reach ?r1" by (rule reach_load [OF reach_start]) (simp add: run_start_def)
  from reach_total [OF reach_temp [OF this, of 5], of 5]
  have "counter_reach (run_lost\<lparr>cr_ticker := TickLoaded 0, cr_counter := (cr_counter run_lost)\<lparr>c_temp := 5\<rparr>\<rparr>)"
    by (simp add: run_lost_def run_start_def counter_zero_def tick_load_def push_temp_def push_total_def)
  from reach_clear [OF reach_store [OF this, of 0]] show ?thesis
    by (simp add: run_lost_def tick_store_def tick_clear_def)
qed

theorem counter_conserved_witness:
  "c_total (cr_counter run_lost) = word_of_nat 5 \<and> cr_seen run_lost + 0 \<le> 5"
  using counter_conserved [OF counter_loses] by (simp add: run_lost_def)

section \<open>Tracked connections behave\<close>

text \<open>After a close every operation on the connection fails and is not counted; others go on.\<close>

lemma keys_delete: "fst ` set (AList.delete i al) = fst ` set al - {i}"
  by (metis delete_keys set_map set_removeAll)

lemma is_tracked_simps [simp]:
  "is_tracked j (track i t sm) \<longleftrightarrow> j = i \<or> is_tracked j sm"
  "is_tracked j (untrack i sm) \<longleftrightarrow> j \<noteq> i \<and> is_tracked j sm"
  "is_tracked j (snd (close i sm)) \<longleftrightarrow> j \<noteq> i \<and> is_tracked j sm"
  "\<not> is_tracked j (snd (close_all sm))"
  "is_tracked j (count_download i n sm) = is_tracked j sm"
  "is_tracked j (count_upload i n sm) = is_tracked j sm"
  by (auto simp: is_tracked_def track_def untrack_def close_def close_all_def count_download_def count_upload_def
      push_downloaded_def push_uploaded_def dom_update AList.dom_map_entry keys_delete Let_def)

lemma closed_stream:
  assumes "sm' = snd (close i sm)"
  shows "tracked_poll_read i f b sm' = (Ready (Err broken_pipe), b, sm')"
    and "tracked_poll_write i g b sm' = (Ready (Err broken_pipe), sm')"
    and "tracked_poll i v sm' = Ready (Err broken_pipe)"
    and "tracked_poll_next i p sm' = (Ready None, sm')"
    and "tracked_start_send i s pkt sm' = (Err broken_pipe, sm')"
  by (simp_all add: assms tracked_poll_read_def tracked_poll_write_def tracked_poll_def tracked_poll_next_def
      tracked_start_send_def)

text \<open>A read into a buffer that already holds bytes counts them again.\<close>

lemma read_counts_filled:
  assumes "is_tracked i sm" "inner filled = (Ready (Ok ()), filled @ got)"
  shows "c_total (sm_down (snd (snd (tracked_poll_read i inner filled sm)))) =
    c_total (sm_down sm) + word_of_nat (length filled + length got)"
  using assms by (simp add: tracked_poll_read_def count_download_def push_downloaded_def push_counter_def
      push_temp_def push_total_def Let_def)

end
