(* ===== verification/Trojan.thy ===== *)
theory Trojan
  imports Conn_Io Statistics
begin

text \<open>
  Model of \<^verbatim>\<open>proxy/trojan\<close>: the request header that the outbound writes (\<^verbatim>\<open>mod.rs\<close>), the handshake
  of the inbound (\<^verbatim>\<open>inbound.rs\<close>), and the framing of datagrams on the stream (\<^verbatim>\<open>datagram.rs\<close>), where
  reading and writing are polled and may be interrupted at any byte. The TLS and QUIC layers carry the bytes; the hash
  function SHA-224 is a parameter.
\<close>

section \<open>Header\<close>

definition encode_hex :: "bytes \<Rightarrow> string" where
  "encode_hex bs = concat (map (\<lambda>b. [digit_char (unat b div 16), digit_char (unat b mod 16)]) bs)"

definition CRLF :: bytes where
  "CRLF = [0x0d, 0x0a]"

definition trojan_header :: "(bytes \<Rightarrow> bytes) \<Rightarrow> string \<Rightarrow> bool \<Rightarrow> socks_addr \<Rightarrow> bytes" where
  "trojan_header sha224 password udp dst =
    bytes_of_str (encode_hex (sha224 (bytes_of_str password))) @ CRLF @ [if udp then 0x03 else 0x01] @
    write_buf dst @ CRLF"

definition inner_proxy_stream :: "(bytes \<Rightarrow> bytes) \<Rightarrow> string \<Rightarrow> session \<Rightarrow> bool \<Rightarrow> unit io" where
  "inner_proxy_stream sha224 password sess udp = io_write (trojan_header sha224 password udp (destination sess))"

text \<open>
  \<^verbatim>\<open>connect_stream_with_connector\<close>: \<open>opened\<close> is the stream that the QUIC client or the connector
  opened, behind the configured TLS and transport layers.
\<close>

definition trojan_connect_stream ::
  "(bytes \<Rightarrow> bytes) \<Rightarrow> string \<Rightarrow> string \<Rightarrow> conn result \<Rightarrow> session \<Rightarrow> conn chained result" where
  "trojan_connect_stream sha224 nm password opened sess =
    bind_result opened (\<lambda>c.
      case inner_proxy_stream sha224 password sess False c of
        (Inl e, _) \<Rightarrow> Err e
      | (Inr _, c) \<Rightarrow> Ok (append_to_chain nm (chained_new c)))"

section \<open>Inbound\<close>

text \<open>
  \<^verbatim>\<open>handle_trojan_stream\<close>. The received hash is compared after \<^verbatim>\<open>from_utf8_lossy\<close>, which puts a
  replacement character for what is not UTF-8; no hash has one, so the comparison is with the bytes. Whatever
  goes wrong is logged and ends the connection.
\<close>

definition trojan_session :: "u32 option \<Rightarrow> socket_addr \<Rightarrow> nat \<Rightarrow> u64 \<Rightarrow> socks_addr \<Rightarrow> session" where
  "trojan_session fw_mark src now counter dst =
    (fst (session_default now counter))\<lparr>network := Tcp, sess_typ := Trojan, source := src, destination := dst,
      so_mark := fw_mark\<rparr>"

definition handle_trojan_stream ::
  "(bytes \<Rightarrow> bytes) \<Rightarrow> string \<Rightarrow> u32 option \<Rightarrow> socket_addr \<Rightarrow> nat \<Rightarrow> u64 \<Rightarrow> unit io" where
  "handle_trojan_stream sha224 password fw_mark src now counter =
    io_bind (io_read (read_exact 58)) (\<lambda>buf.
    if take 2 (drop 56 buf) \<noteq> CRLF then io_fail (Other ''invalid trojan header: CRLF missing'')
    else if from_utf8 (take 56 buf) \<noteq> Some (encode_hex (sha224 (bytes_of_str password)))
    then io_fail (Other ''trojan auth failed'')
    else
      io_bind (io_read read_u8) (\<lambda>cmd.
      if cmd \<noteq> 1 then io_fail (Other ''unsupported trojan command'')
      else
        io_bind (io_read read_from) (\<lambda>addr.
        io_bind (io_read (read_exact 2)) (\<lambda>crlf.
        if crlf \<noteq> CRLF then io_fail (Other ''invalid trojan header: CRLF missing after address'')
        else io_event (DispatchStream (trojan_session fw_mark src now counter addr))))))"

text \<open>The trait \<^verbatim>\<open>ToCanonical\<close> of \<^verbatim>\<open>proxy/utils/socket_helpers.rs\<close>.\<close>

fun to_canonical :: "socket_addr \<Rightarrow> socket_addr" where
  "to_canonical (SocketV4 ip prt) = SocketV4 ip prt"
| "to_canonical (SocketV6 ip prt flow scope) =
    (case to_ipv4_mapped ip of Some v4 \<Rightarrow> SocketV4 v4 prt | None \<Rightarrow> SocketV6 ip prt flow scope)"

text \<open>
  A connection of \<^verbatim>\<open>listen_tcp\<close>, from the addresses of the socket on; \<open>tls\<close> is the outcome of the TLS handshake. A
  connection that is turned away dispatches nothing.
\<close>

definition trojan_tcp_conn ::
  "(bytes \<Rightarrow> bytes) \<Rightarrow> bool \<Rightarrow> string \<Rightarrow> u32 option \<Rightarrow> socket_addr \<Rightarrow> socket_addr \<Rightarrow> unit result \<Rightarrow> nat \<Rightarrow> u64 \<Rightarrow> unit io" where
  "trojan_tcp_conn sha224 allow_lan password fw_mark peer local tls now counter =
    (let src = to_canonical peer in
     if \<not> allow_lan \<and> socket_ip src \<noteq> socket_ip (to_canonical local)
     then io_fail (Other ''connection is not allowed'')
     else io_bind (io_lift tls) (\<lambda>_. handle_trojan_stream sha224 password fw_mark src now counter))"

section \<open>Datagrams\<close>

datatype trojan_addr = AddrV4 u32 | AddrV6 u128 | AddrDomain string

datatype read_state = Atyp | Addr u8 | Port trojan_addr | DataLen socks_addr | Data socks_addr nat

text \<open>
  \<^verbatim>\<open>OutboundDatagramTrojan\<close>; \<open>td_out\<close> is what the stream has taken. The fields \<^verbatim>\<open>written\<close>, which is
  counted and never read, and \<^verbatim>\<open>read_buf\<close>, whose length is fixed by the state, are left out.
\<close>

record trojan_datagram =
  td_out :: bytes
  td_remote :: socks_addr
  td_state :: read_state
  td_flushed :: bool
  td_pkt :: "udp_packet option"

definition trojan_datagram_new :: "socks_addr \<Rightarrow> trojan_datagram" where
  "trojan_datagram_new remote =
    \<lparr>td_out = [], td_remote = remote, td_state = Atyp, td_flushed = True, td_pkt = None\<rparr>"

definition trojan_start_send :: "udp_packet \<Rightarrow> trojan_datagram \<Rightarrow> unit result \<times> trojan_datagram" where
  "trojan_start_send item d = (Ok (), d\<lparr>td_pkt := Some item, td_flushed := False\<rparr>)"

definition trojan_frame :: "udp_packet \<Rightarrow> bytes" where
  "trojan_frame pkt =
    write_buf (dst_addr pkt) @ be_put 2 (word_of_nat (length (pkt_data pkt)) :: u16) @ CRLF @ pkt_data pkt"

text \<open>
  The loop of \<^verbatim>\<open>poll_flush\<close>. The list has the answers of the stream to the coming calls of
  \<^verbatim>\<open>poll_write\<close>: not ready, an error, or room for a number of bytes; a stream without further answers is not ready.
\<close>

fun write_loop :: "bytes \<Rightarrow> nat result poll list \<Rightarrow> bytes \<Rightarrow> unit result poll \<times> nat result poll list \<times> bytes" where
  "write_loop [] ws out = (Ready (Ok ()), ws, out)"
| "write_loop payload [] out = (Pending, [], out)"
| "write_loop payload (Pending # ws) out = (Pending, ws, out)"
| "write_loop payload (Ready (Inl e) # ws) out = (Ready (Err e), ws, out)"
| "write_loop payload (Ready (Inr n) # ws) out = write_loop (drop n payload) ws (out @ take n payload)"

definition trojan_poll_flush ::
  "nat result poll list \<Rightarrow> unit result poll \<Rightarrow> trojan_datagram \<Rightarrow>
   unit result poll \<times> nat result poll list \<times> trojan_datagram" where
  "trojan_poll_flush ws flush d =
    (if td_flushed d then (Ready (Ok ()), ws, d)
     else case td_pkt d of
       None \<Rightarrow> (Ready (Err (Other ''no packet to send'')), ws, d)
     | Some pkt \<Rightarrow>
         (case write_loop (trojan_frame pkt) ws (td_out d) of
            (Ready (Inr _), ws, out) \<Rightarrow>
              (case flush of
                 Ready (Inr _) \<Rightarrow> (Ready (Ok ()), ws, d\<lparr>td_out := out, td_flushed := True, td_pkt := None\<rparr>)
               | v \<Rightarrow> (v, ws, d\<lparr>td_out := out\<rparr>))
          | (v, ws, out) \<Rightarrow> (v, ws, d\<lparr>td_out := out\<rparr>)))"

text \<open>
  Reading. \<open>av\<close> are the bytes that can be read now, \<open>eof\<close> tells whether the stream ends after them. The future
  of a read is dropped when it is not ready, and with it the bytes it had taken.
\<close>

definition poll_exact :: "nat \<Rightarrow> bytes \<times> bool \<Rightarrow> bytes result poll \<times> bytes \<times> bool" where
  "poll_exact n rd = (case rd of (av, eof) \<Rightarrow>
    if n \<le> length av then (Ready (Ok (take n av)), drop n av, eof)
    else if eof then (Ready (Err UnexpectedEof), [], eof)
    else (Pending, [], eof))"

datatype read_out = Continue read_state | Return "udp_packet option poll" | Abort error

definition on_read ::
  "bytes result poll \<times> bytes \<times> bool \<Rightarrow> (bytes \<Rightarrow> bytes \<times> bool \<Rightarrow> read_out \<times> bytes \<times> bool) \<Rightarrow> read_out \<times> bytes \<times> bool" where
  "on_read p k =
    (case p of
       (Pending, rd) \<Rightarrow> (Return Pending, rd)
     | (Ready (Inl _), rd) \<Rightarrow> (Return (Ready None), rd)
     | (Ready (Inr b), rd) \<Rightarrow> k b rd)"

definition addr_with_port :: "trojan_addr \<Rightarrow> u16 \<Rightarrow> socks_addr result" where
  "addr_with_port a prt =
    (case a of
       AddrV4 ip \<Rightarrow> Ok (Ip (SocketV4 ip prt))
     | AddrV6 ip \<Rightarrow> Ok (Ip (SocketV6 ip prt 0 0))
     | AddrDomain d \<Rightarrow> try_from_pair d prt)"

text \<open>One turn of the loop of \<^verbatim>\<open>poll_next\<close>.\<close>

fun read_step :: "socks_addr \<Rightarrow> read_state \<Rightarrow> bytes \<times> bool \<Rightarrow> read_out \<times> bytes \<times> bool" where
  "read_step remote Atyp rd = on_read (poll_exact 1 rd) (\<lambda>b rd. (Continue (Addr (hd b)), rd))"
| "read_step remote (Addr atyp) rd =
    (if atyp = V4_ATYP then on_read (poll_exact 4 rd) (\<lambda>b rd. (Continue (Port (AddrV4 (be_get b))), rd))
     else if atyp = V6_ATYP then on_read (poll_exact 16 rd) (\<lambda>b rd. (Continue (Port (AddrV6 (be_get b))), rd))
     else if atyp = DOMAIN then
       on_read (poll_exact 1 rd) (\<lambda>l rd.
       on_read (poll_exact (unat (hd l)) rd) (\<lambda>b rd.
         case from_utf8 b of
           None \<Rightarrow> (Return (Ready None), rd)
         | Some d \<Rightarrow> (Continue (Port (AddrDomain d)), rd)))
     else (Return (Ready None), rd))"
| "read_step remote (Port a) rd =
    on_read (poll_exact 2 rd) (\<lambda>b rd.
      case addr_with_port a (be_get b) of
        Inl _ \<Rightarrow> (Return (Ready None), rd)
      | Inr ad \<Rightarrow> (Continue (DataLen ad), rd))"
| "read_step remote (DataLen ad) rd =
    on_read (poll_exact 2 rd) (\<lambda>l rd.
    on_read (poll_exact 2 rd) (\<lambda>crlf rd.
      if crlf \<noteq> CRLF then (Return (Ready None), rd)
      else case socks_clone ad of
        Inl e \<Rightarrow> (Abort e, rd)
      | Inr ad \<Rightarrow> (Continue (Data ad (unat (be_get l :: u16))), rd)))"
| "read_step remote (Data ad len) rd =
    on_read (poll_exact len rd) (\<lambda>b rd.
      case bind_result (socks_clone ad) (\<lambda>dst. bind_result (socks_clone remote) (\<lambda>src.
          Ok \<lparr>pkt_data = b, src_addr = src, dst_addr = dst\<rparr>)) of
        Inl e \<Rightarrow> (Abort e, rd)
      | Inr pkt \<Rightarrow> (Return (Ready (Some pkt)), rd))"

fun state_rank :: "read_state \<Rightarrow> nat" where
  "state_rank Atyp = 4"
| "state_rank (Addr _) = 3"
| "state_rank (Port _) = 2"
| "state_rank (DataLen _) = 1"
| "state_rank (Data _ _) = 0"

lemma read_step_rank: "read_step remote st rd = (Continue st', rd') \<Longrightarrow> state_rank st' < state_rank st"
  by (cases st)
    (auto simp: on_read_def split: prod.splits poll.splits sum.splits option.splits if_splits)

function trojan_poll_next ::
  "socks_addr \<Rightarrow> read_state \<Rightarrow> bytes \<times> bool \<Rightarrow> udp_packet option poll result \<times> read_state \<times> bytes \<times> bool" where
  "trojan_poll_next remote st rd =
    (case read_step remote st rd of
       (Continue st', rd') \<Rightarrow> trojan_poll_next remote st' rd'
     | (Return (Ready (Some pkt)), rd') \<Rightarrow> (Ok (Ready (Some pkt)), Atyp, rd')
     | (Return v, rd') \<Rightarrow> (Ok v, st, rd')
     | (Abort e, rd') \<Rightarrow> (Err e, st, rd'))"
  by pat_completeness auto
termination
  by (relation "measure (\<lambda>(remote, st, rd). state_rank st)") (auto dest: read_step_rank [OF sym])

section \<open>The handshake\<close>

lemma length_encode_hex [simp]: "length (encode_hex bs) = 2 * length bs"
  by (induction bs) (simp_all add: encode_hex_def)

lemma str_ok_ascii: "(\<And>c. c \<in> set s \<Longrightarrow> of_char c < (128 :: nat)) \<Longrightarrow> str_ok s"
proof (induction s)
  case (Cons c s)
  then have "word_of_nat (of_char c) < (0x80 :: u8)" by (simp add: word_less_nat_alt unat_of_nat)
  then show ?case using Cons by (simp add: str_ok_def bytes_of_str_def)
qed (simp add: str_ok_def bytes_of_str_def)

lemma str_ok_encode_hex: "str_ok (encode_hex bs)"
proof (rule str_ok_ascii)
  fix c
  assume "c \<in> set (encode_hex bs)"
  then obtain d where "c = digit_char d" "d < 16"
    using unat_u8_less by (fastforce simp: encode_hex_def less_mult_imp_div_less)
  then show "of_char c < (128 :: nat)" by (simp add: digit_char_def)
qed

lemma header_hash:
  assumes "length b = 58"
  shows "take 2 (drop 56 b) = CRLF \<and> from_utf8 (take 56 b) = Some (encode_hex h) \<longleftrightarrow>
    b = bytes_of_str (encode_hex h) @ CRLF"
proof
  assume l: "take 2 (drop 56 b) = CRLF \<and> from_utf8 (take 56 b) = Some (encode_hex h)"
  then have "take 56 b = bytes_of_str (encode_hex h)" by (blast dest: from_utf8_SomeD)
  moreover have "drop 56 b = CRLF" using l assms by simp
  ultimately show "b = bytes_of_str (encode_hex h) @ CRLF" by (metis append_take_drop_id)
next
  assume r: "b = bytes_of_str (encode_hex h) @ CRLF"
  then have "length (bytes_of_str (encode_hex h)) = 56" using assms by (simp add: CRLF_def)
  then show "take 2 (drop 56 b) = CRLF \<and> from_utf8 (take 56 b) = Some (encode_hex h)"
    using r by (simp add: CRLF_def str_ok_encode_hex)
qed

lemma handle_Ok:
  assumes "wire_ok a" "length (sha224 (bytes_of_str pw)) = 28"
  shows "handle_trojan_stream sha224 pw fw src now ctr (start (trojan_header sha224 pw False a @ rest) w) =
    (Ok (), \<lparr>inp = rest, trace = [DispatchStream (trojan_session fw src now ctr a)], wfail = w\<rparr>)"
proof -
  let ?h = "bytes_of_str (encode_hex (sha224 (bytes_of_str pw))) @ CRLF"
  have len: "length ?h = 58" using assms(2) by (simp add: CRLF_def)
  have "read_exact 58 (?h @ r) = Ok (?h, r)" for r using len by (rule read_exact_append)
  moreover have "take 2 (drop 56 ?h) = CRLF" "from_utf8 (take 56 ?h) = Some (encode_hex (sha224 (bytes_of_str pw)))"
    using header_hash [OF len, of "sha224 (bytes_of_str pw)"] by auto
  moreover have "read_exact 2 (CRLF @ rest) = Ok (CRLF, rest)" by (rule read_exact_append) (simp add: CRLF_def)
  ultimately show ?thesis using read_from_write_buf [OF assms(1)]
    by (simp add: handle_trojan_stream_def trojan_header_def io_bind_def io_read_def io_event_def start_def)
qed

lemma handle_OkD:
  assumes "handle_trojan_stream sha224 pw fw src now ctr (start bs w) = (Ok u, c)"
  shows "\<exists>a rest. wire_ok a \<and> bs = trojan_header sha224 pw False a @ rest"
proof -
  from assms obtain b r cmd r1 a r2 l r3 where
    b: "read_exact 58 bs = Ok (b, r)" and
    h: "take 2 (drop 56 b) = CRLF" "from_utf8 (take 56 b) = Some (encode_hex (sha224 (bytes_of_str pw)))" and
    r: "read_u8 r = Ok (cmd, r1)" "cmd = 1" "read_from r1 = Ok (a, r2)" "read_exact 2 r2 = Ok (l, r3)" "l = CRLF"
    by (auto simp: handle_trojan_stream_def io_bind_def io_read_def io_fail_def split: sum.splits prod.splits if_splits)
  have "b = bytes_of_str (encode_hex (sha224 (bytes_of_str pw))) @ CRLF"
    using header_hash [of b "sha224 (bytes_of_str pw)"] h read_exact_OkD [OF b] by blast
  then have "bs = trojan_header sha224 pw False a @ r3"
    using read_exact_OkD [OF b] read_u8_OkD [OF r(1)] r(2, 5) read_from_OkD [OF r(3)] read_exact_OkD [OF r(4)]
    by (simp add: trojan_header_def)
  then show ?thesis using read_from_OkD [OF r(3)] by blast
qed

lemma handle_ErrD:
  assumes "handle_trojan_stream sha224 pw fw src now ctr (start bs w) = (Err e, c)"
  shows "trace c = [] \<and> e \<noteq> Panic"
  using assms read_from_no_panic read_exact_no_panic
  by (auto simp: handle_trojan_stream_def io_bind_def io_read_def io_fail_def io_event_def panics_def read_u8_def
      split: sum.splits prod.splits if_splits list.splits)

section \<open>Frames\<close>

declare trojan_poll_next.simps [simp del]

lemma next_continue:
  "read_step remote st rd = (Continue st', rd') \<Longrightarrow> trojan_poll_next remote st rd = trojan_poll_next remote st' rd'"
  by (subst trojan_poll_next.simps) simp

lemma next_packet:
  "read_step remote st rd = (Return (Ready (Some pkt)), rd') \<Longrightarrow>
   trojan_poll_next remote st rd = (Ok (Ready (Some pkt)), Atyp, rd')"
  by (subst trojan_poll_next.simps) simp

lemma poll_exact_append [simp]: "length b = n \<Longrightarrow> poll_exact n (b @ r, eof) = (Ready (Ok b), r, eof)"
  by (simp add: poll_exact_def)

lemma poll_exact_Suc [simp]: "poll_exact (Suc 0) (x # r, eof) = (Ready (Ok [x]), r, eof)"
  by (simp add: poll_exact_def)

lemma on_read_Ready [simp]: "on_read (Ready (Ok b), rd) k = k b rd"
  by (simp add: on_read_def)

lemma next_addr:
  assumes "wire_ok dst" "socks_clone dst = Ok dst"
  shows "trojan_poll_next remote Atyp (write_buf dst @ r, eof) = trojan_poll_next remote (DataLen dst) (r, eof)"
proof (cases dst rule: wire_ok.cases)
  case (1 ip prt)
  then show ?thesis
    by (simp add: next_continue [where rd' = "(be_put 4 ip @ be_put 2 prt @ r, eof)"]
        next_continue [where rd' = "(be_put 2 prt @ r, eof)"] next_continue [where rd' = "(r, eof)"] addr_with_port_def)
next
  case (2 ip prt flow scope)
  then show ?thesis using assms(1)
    by (simp add: next_continue [where rd' = "(be_put 16 ip @ be_put 2 prt @ r, eof)"]
        next_continue [where rd' = "(be_put 2 prt @ r, eof)"] next_continue [where rd' = "(r, eof)"] addr_with_port_def
        atyp_defs)
next
  case (3 d prt)
  then have "try_from_pair d prt = Ok (Domain d prt)" using assms(2) by (auto split: sum.splits)
  then show ?thesis using assms(1) 3
    by (simp add: next_continue [where rd' = "(word_of_nat (length d) # bytes_of_str d @ be_put 2 prt @ r, eof)"]
        next_continue [where rd' = "(be_put 2 prt @ r, eof)"] next_continue [where rd' = "(r, eof)"] addr_with_port_def
        atyp_defs unat_of_nat_u8)
qed

lemma next_frame:
  assumes "wire_ok (dst_addr pkt)" "socks_clone (dst_addr pkt) = Ok (dst_addr pkt)" "socks_clone remote = Ok remote"
    "length (pkt_data pkt) < 2 ^ 16"
  shows "trojan_poll_next remote Atyp (trojan_frame pkt @ rest, eof) =
    (Ok (Ready (Some (pkt\<lparr>src_addr := remote\<rparr>))), Atyp, rest, eof)"
proof -
  let ?n = "word_of_nat (length (pkt_data pkt)) :: u16"
  have n: "unat ?n = length (pkt_data pkt)" using assms(4) by (simp add: unat_of_nat)
  have crlf: "poll_exact 2 (CRLF @ r, eof) = (Ready (Ok CRLF), r, eof)" for r
    by (rule poll_exact_append) (simp add: CRLF_def)
  have "trojan_poll_next remote (DataLen (dst_addr pkt)) (be_put 2 ?n @ CRLF @ pkt_data pkt @ rest, eof) =
      trojan_poll_next remote (Data (dst_addr pkt) (length (pkt_data pkt))) (pkt_data pkt @ rest, eof)"
    using assms(2) n crlf by (intro next_continue) simp
  also have "\<dots> = (Ok (Ready (Some (pkt\<lparr>src_addr := remote\<rparr>))), Atyp, rest, eof)"
    using assms(2, 3) by (intro next_packet) simp
  finally show ?thesis using next_addr [OF assms(1, 2)] by (simp add: trojan_frame_def)
qed

lemma write_loop_all:
  assumes "0 \<notin> set ns" "length payload \<le> sum_list ns"
  shows "\<exists>ws. write_loop payload (map (\<lambda>n. Ready (Ok n)) ns) out = (Ready (Ok ()), ws, out @ payload)"
  using assms
proof (induction ns arbitrary: payload out)
  case (Cons n ns)
  show ?case
  proof (cases payload)
    case p: (Cons b bs)
    have "length (drop n payload) \<le> sum_list ns" using Cons.prems by simp
    then obtain ws where "write_loop (drop n payload) (map (\<lambda>n. Ready (Ok n)) ns) (out @ take n payload) =
        (Ready (Ok ()), ws, (out @ take n payload) @ drop n payload)"
      using Cons.IH [of "drop n payload" "out @ take n payload"] Cons.prems by auto
    then show ?thesis using p by simp
  qed simp
qed simp

text \<open>
  C22. Datagrams over a stream: a packet that the sink was given is written whole and in order when the
  stream keeps taking bytes, in whatever portions, and the reader turns its frame back into the packet, with the session's
  remote address as source, and stops exactly before what follows.
\<close>

theorem trojan_udp_codec:
  assumes "wire_ok (dst_addr pkt)" "socks_clone (dst_addr pkt) = Ok (dst_addr pkt)" "socks_clone remote = Ok remote"
    "length (pkt_data pkt) < 2 ^ 16" "0 \<notin> set ns" "length (trojan_frame pkt) \<le> sum_list ns"
  shows "(\<exists>ws. trojan_poll_flush (map (\<lambda>n. Ready (Ok n)) ns) (Ready (Ok ())) (snd (trojan_start_send pkt d)) =
      (Ready (Ok ()), ws, d\<lparr>td_out := td_out d @ trojan_frame pkt, td_flushed := True, td_pkt := None\<rparr>)) \<and>
    trojan_poll_next remote Atyp (trojan_frame pkt @ rest, eof) =
      (Ok (Ready (Some (pkt\<lparr>src_addr := remote\<rparr>))), Atyp, rest, eof)"
proof -
  obtain ws where "write_loop (trojan_frame pkt) (map (\<lambda>n. Ready (Ok n)) ns) (td_out d) = (Ready (Ok ()), ws, td_out d @ trojan_frame pkt)"
    using write_loop_all [OF assms(5, 6)] by blast
  then show ?thesis using next_frame [OF assms(1-4)]
    by (simp add: trojan_poll_flush_def trojan_start_send_def)
qed

text \<open>
  C7. The inbound authenticates every stream: it dispatches exactly the streams that start with the header
  of its password for an address, with a session to that address and the rest of the stream unread; on
  all others it dispatches nothing, and it never panics.
\<close>

theorem trojan_auth:
  assumes "length (sha (bytes_of_str pw)) = 28"
  shows "case handle_trojan_stream sha pw fw src now ctr (start bs w) of
      (Inr _, c) \<Rightarrow> \<exists>a rest. wire_ok a \<and> bs = trojan_header sha pw False a @ rest \<and> inp c = rest \<and>
        trace c = [DispatchStream (trojan_session fw src now ctr a)]
    | (Inl e, c) \<Rightarrow> (\<forall>a rest. wire_ok a \<longrightarrow> bs \<noteq> trojan_header sha pw False a @ rest) \<and> trace c = [] \<and> e \<noteq> Panic"
proof (cases "handle_trojan_stream sha pw fw src now ctr (start bs w)")
  case (Pair r c)
  have run: "handle_trojan_stream sha pw fw src now ctr (start (trojan_header sha pw False a @ rest) w) =
      (Ok (), \<lparr>inp = rest, trace = [DispatchStream (trojan_session fw src now ctr a)], wfail = w\<rparr>)"
    if "wire_ok a" for a rest using handle_Ok [of a sha pw] that assms by blast
  show ?thesis
  proof (cases r)
    case (Inl e)
    then show ?thesis using Pair handle_ErrD [of sha pw fw src now ctr bs w e c] run by auto
  next
    case (Inr u)
    then obtain a rest where "wire_ok a" "bs = trojan_header sha pw False a @ rest"
      using Pair handle_OkD by blast
    then show ?thesis using Pair Inr run by auto
  qed
qed

section \<open>Witnesses\<close>

theorem trojan_udp_codec_witness:
  "\<exists>ws d. trojan_poll_flush [Ready (Ok 5), Ready (Ok 100)] (Ready (Ok ()))
      (snd (trojan_start_send \<lparr>pkt_data = [7, 8], src_addr = any_ipv4, dst_addr = Ip (SocketV4 9 53)\<rparr>
        (trojan_datagram_new any_ipv4))) = (Ready (Ok ()), ws, d) \<and>
    trojan_poll_next any_ipv4 Atyp (td_out d @ [1], False) =
      (Ok (Ready (Some \<lparr>pkt_data = [7, 8], src_addr = any_ipv4, dst_addr = Ip (SocketV4 9 53)\<rparr>)), Atyp, [1], False)"
  using trojan_udp_codec [where pkt = "\<lparr>pkt_data = [7, 8], src_addr = any_ipv4, dst_addr = Ip (SocketV4 9 53)\<rparr>" and
      remote = any_ipv4 and ns = "[5, 100]" and d = "trojan_datagram_new any_ipv4" and rest = "[1]" and eof = False]
  by (auto simp: any_ipv4_def trojan_frame_def CRLF_def trojan_datagram_new_def)

theorem trojan_auth_witness:
  "\<exists>a c. handle_trojan_stream (\<lambda>_. replicate 28 0) ''pw'' None (SocketV4 1 5000) 0 0
      (start (trojan_header (\<lambda>_. replicate 28 0) ''pw'' False (Ip (SocketV4 9 80)) @ [5]) None) = (Ok (), c) \<and>
    trace c = [DispatchStream (trojan_session None (SocketV4 1 5000) 0 0 a)]"
  using trojan_auth [where sha = "\<lambda>_. replicate 28 0" and pw = "''pw''" and fw = None and src = "SocketV4 1 5000" and
        now = 0 and ctr = 0 and w = None and
        bs = "trojan_header (\<lambda>_. replicate 28 0) ''pw'' False (Ip (SocketV4 9 80)) @ [5]"]
  by (auto split: prod.splits sum.splits dest!: spec [of _ "Ip (SocketV4 9 80)"])

section \<open>What interruptions do\<close>

text \<open>A flush that is interrupted starts over: the frame is written again after the part that was already taken.\<close>

lemma trojan_flush_repeats:
  assumes "\<not> td_flushed d" "td_pkt d = Some pkt" "k < length (trojan_frame pkt)" "length (trojan_frame pkt) \<le> m"
    "trojan_poll_flush [Ready (Ok k), Pending] fl d = (v, ws, d1)"
    "trojan_poll_flush [Ready (Ok m)] (Ready (Ok ())) d1 = (v', ws', d2)"
  shows "v = Pending \<and> v' = Ready (Ok ()) \<and> td_out d2 = td_out d @ take k (trojan_frame pkt) @ trojan_frame pkt"
proof -
  obtain b bs where f: "trojan_frame pkt = b # bs" using assms(3) by (cases "trojan_frame pkt") auto
  obtain c cs where g: "drop k (b # bs) = c # cs" using assms(3) f by (cases "drop k (b # bs)") auto
  have "d1 = d\<lparr>td_out := td_out d @ take k (trojan_frame pkt)\<rparr>" "v = Pending"
    using assms(1, 2, 5) f g by (simp_all add: trojan_poll_flush_def)
  then show ?thesis using assms(1, 2, 4, 6) f by (auto simp: trojan_poll_flush_def)
qed

text \<open>A read that is interrupted inside a field forgets the bytes it had.\<close>

lemma trojan_read_loses:
  assumes "length av < 4"
  shows "trojan_poll_next remote (Addr V4_ATYP) (av, False) = (Ok Pending, Addr V4_ATYP, [], False)"
  using assms by (subst trojan_poll_next.simps) (simp add: poll_exact_def on_read_def)

end
