(* ===== verification/Ring_Buffer.thy ===== *)
theory Ring_Buffer
  imports Clash_Prelude
begin

text \<open>
  Model of the lock-free byte ring of the user-space network stack,
  \<^verbatim>\<open>clash-netstack/src/ring_buffer.rs\<close>: one thread enqueues, one dequeues, each publishes its own
  position with an atomic store. First the operations as functions, with the queue they
  implement; then the two threads as a transition system that interleaves the loads, the copies and
  the stores, under sequential consistency.
\<close>

section \<open>Operations\<close>

record ring =
  rbuf :: bytes
  capacity :: nat
  write_pos :: nat
  read_pos :: nat

definition ring_new :: "nat \<Rightarrow> ring" where
  "ring_new cap = \<lparr> rbuf = replicate cap 0, capacity = cap, write_pos = 0, read_pos = 0 \<rparr>"

text \<open>\<^verbatim>\<open>usize\<close> subtraction wraps.\<close>

definition enq_available :: "nat \<Rightarrow> nat \<Rightarrow> nat \<Rightarrow> nat" where
  "enq_available cap w r =
    nat ((if r \<le> w then int cap - int w + int r - 1 else int r - int w - 1) mod 2 ^ 64)"

definition deq_available :: "nat \<Rightarrow> nat \<Rightarrow> nat \<Rightarrow> nat" where
  "deq_available cap w r = nat ((if r \<le> w then int w - int r else int cap - int r + int w) mod 2 ^ 64)"

text \<open>\<^verbatim>\<open>buffer[pos..pos + n].copy_from_slice\<close>\<close>

definition copy_at :: "nat \<Rightarrow> bytes \<Rightarrow> bytes \<Rightarrow> bytes" where
  "copy_at pos xs buf = take pos buf @ xs @ drop (pos + length xs) buf"

definition enq_copy :: "nat \<Rightarrow> nat \<Rightarrow> bytes \<Rightarrow> nat \<Rightarrow> bytes \<Rightarrow> bytes result" where
  "enq_copy cap w data n buf =
    (if w + n \<le> cap then Ok (copy_at w (take n data) buf)
     else
       let first_part = cap - w in
       if cap < n - first_part then Err Panic
       else Ok (copy_at 0 (take (n - first_part) (drop first_part data)) (copy_at w (take first_part data) buf)))"

definition deq_copy :: "nat \<Rightarrow> nat \<Rightarrow> nat \<Rightarrow> bytes \<Rightarrow> bytes" where
  "deq_copy cap r n buf =
    (if r + n \<le> cap then take n (drop r buf)
     else let first_part = cap - r in drop r buf @ take (n - first_part) buf)"

definition enqueue_slice :: "bytes \<Rightarrow> ring \<Rightarrow> (nat \<times> ring) result" where
  "enqueue_slice data rb =
    (let to_write = min (length data) (enq_available (capacity rb) (write_pos rb) (read_pos rb)) in
     if to_write = 0 then Ok (0, rb)
     else
       bind_result (enq_copy (capacity rb) (write_pos rb) data to_write (rbuf rb)) (\<lambda>buf.
         Ok (to_write, rb \<lparr> rbuf := buf, write_pos := (write_pos rb + to_write) mod capacity rb \<rparr>)))"

text \<open>\<open>len\<close> is the length of the caller's buffer; the result is what it receives.\<close>

definition dequeue_slice :: "nat \<Rightarrow> ring \<Rightarrow> bytes \<times> ring" where
  "dequeue_slice len rb =
    (let to_read = min len (deq_available (capacity rb) (write_pos rb) (read_pos rb)) in
     if to_read = 0 then ([], rb)
     else (deq_copy (capacity rb) (read_pos rb) to_read (rbuf rb),
           rb \<lparr> read_pos := (read_pos rb + to_read) mod capacity rb \<rparr>))"

definition ring_is_empty :: "ring \<Rightarrow> bool" where
  "ring_is_empty rb \<longleftrightarrow> read_pos rb = write_pos rb"

definition ring_is_full :: "ring \<Rightarrow> bool" where
  "ring_is_full rb \<longleftrightarrow> (write_pos rb + 1) mod capacity rb = read_pos rb"

section \<open>The queue in the ring\<close>

text \<open>Rust never allocates \<open>2 ^ 63\<close> bytes.\<close>

definition ring_ok :: "ring \<Rightarrow> bool" where
  "ring_ok rb \<longleftrightarrow> length (rbuf rb) = capacity rb \<and> write_pos rb < capacity rb \<and>
    read_pos rb < capacity rb \<and> capacity rb < 2 ^ 63"

definition used :: "ring \<Rightarrow> nat" where
  "used rb = (if read_pos rb \<le> write_pos rb then write_pos rb - read_pos rb
    else capacity rb - read_pos rb + write_pos rb)"

definition slot :: "ring \<Rightarrow> nat \<Rightarrow> nat" where
  "slot rb k = (if read_pos rb + k < capacity rb then read_pos rb + k else read_pos rb + k - capacity rb)"

definition contents :: "ring \<Rightarrow> bytes" where
  "contents rb = map (\<lambda>k. rbuf rb ! slot rb k) [0..<used rb]"

lemma length_contents [simp]: "length (contents rb) = used rb"
  by (simp add: contents_def)

lemma used_less: "ring_ok rb \<Longrightarrow> used rb < capacity rb"
  by (auto simp: ring_ok_def used_def)

lemma deq_available_used: "ring_ok rb \<Longrightarrow> deq_available (capacity rb) (write_pos rb) (read_pos rb) = used rb"
  by (auto simp: deq_available_def used_def ring_ok_def nat_diff_distrib)

lemma enq_available_free:
  "ring_ok rb \<Longrightarrow> enq_available (capacity rb) (write_pos rb) (read_pos rb) = capacity rb - 1 - used rb"
  by (auto simp: enq_available_def used_def ring_ok_def)

lemma length_copy_at [simp]: "pos + length xs \<le> length buf \<Longrightarrow> length (copy_at pos xs buf) = length buf"
  by (simp add: copy_at_def)

lemma nth_copy_at:
  "pos + length xs \<le> length buf \<Longrightarrow> i < length buf \<Longrightarrow>
   copy_at pos xs buf ! i = (if pos \<le> i \<and> i < pos + length xs then xs ! (i - pos) else buf ! i)"
  by (auto simp: copy_at_def nth_append)

text \<open>The copy, cell by cell: \<open>n\<close> bytes from the write position on, around the end.\<close>

lemma enq_copy_ok:
  assumes "ring_ok rb" and "n \<le> length data" and "n < capacity rb"
  shows "\<exists>buf. enq_copy (capacity rb) (write_pos rb) data n (rbuf rb) = Ok buf \<and> length buf = capacity rb \<and>
    (\<forall>i < capacity rb. buf ! i =
      (if write_pos rb \<le> i \<and> i < write_pos rb + n then data ! (i - write_pos rb)
       else if i + capacity rb < write_pos rb + n then data ! (i + capacity rb - write_pos rb)
       else rbuf rb ! i))"
proof (cases "write_pos rb + n \<le> capacity rb")
  case True
  with assms show ?thesis by (auto simp: enq_copy_def ring_ok_def nth_copy_at)
next
  case False
  with assms show ?thesis by (auto simp: enq_copy_def ring_ok_def nth_copy_at Let_def add.commute)
qed

lemma deq_copy_contents:
  assumes "ring_ok rb" and "n \<le> used rb"
  shows "deq_copy (capacity rb) (read_pos rb) n (rbuf rb) = take n (contents rb)"
proof (rule nth_equalityI)
  show len: "length (deq_copy (capacity rb) (read_pos rb) n (rbuf rb)) = length (take n (contents rb))"
    using assms used_less [OF assms(1)] by (auto simp: deq_copy_def ring_ok_def)
  fix i assume "i < length (deq_copy (capacity rb) (read_pos rb) n (rbuf rb))"
  with len have "i < n" "i < used rb" by simp_all
  then show "deq_copy (capacity rb) (read_pos rb) n (rbuf rb) ! i = take n (contents rb) ! i"
    using assms used_less [OF assms(1)]
    by (auto simp: deq_copy_def contents_def slot_def ring_ok_def nth_append add.commute)
qed

text \<open>The \<open>n\<close> cells behind the contents, where the producer writes before it publishes.\<close>

definition pending :: "ring \<Rightarrow> nat \<Rightarrow> bytes" where
  "pending rb n = map (\<lambda>k. rbuf rb ! slot rb (used rb + k)) [0..<n]"

lemma slot_less: "ring_ok rb \<Longrightarrow> k < capacity rb \<Longrightarrow> slot rb k < capacity rb"
  by (auto simp: slot_def ring_ok_def)

lemma slot_used:
  "ring_ok rb \<Longrightarrow> used rb + k < capacity rb \<Longrightarrow> slot rb (used rb + k) =
    (if write_pos rb + k < capacity rb then write_pos rb + k else write_pos rb + k - capacity rb)"
  by (auto simp: slot_def used_def ring_ok_def split: if_splits)

lemma slot_inj: "ring_ok rb \<Longrightarrow> j < capacity rb \<Longrightarrow> k < capacity rb \<Longrightarrow> slot rb j = slot rb k \<longleftrightarrow> j = k"
  by (auto simp: slot_def ring_ok_def split: if_splits)

lemma ring_frame [simp]:
  "used (rb \<lparr> rbuf := buf \<rparr>) = used rb" "slot (rb \<lparr> rbuf := buf \<rparr>) = slot rb"
  "slot (rb \<lparr> write_pos := w \<rparr>) = slot rb"
  by (auto simp: used_def slot_def fun_eq_iff)

lemma enq_copy_effect:
  assumes "ring_ok rb" and "n \<le> length data" and "used rb + n < capacity rb"
  obtains buf where "enq_copy (capacity rb) (write_pos rb) data n (rbuf rb) = Ok buf"
    and "ring_ok (rb \<lparr> rbuf := buf \<rparr>)" and "contents (rb \<lparr> rbuf := buf \<rparr>) = contents rb"
    and "pending (rb \<lparr> rbuf := buf \<rparr>) n = take n data"
proof -
  obtain buf where buf: "enq_copy (capacity rb) (write_pos rb) data n (rbuf rb) = Ok buf" "length buf = capacity rb"
    and cell: "\<And>i. i < capacity rb \<Longrightarrow> buf ! i =
      (if write_pos rb \<le> i \<and> i < write_pos rb + n then data ! (i - write_pos rb)
       else if i + capacity rb < write_pos rb + n then data ! (i + capacity rb - write_pos rb)
       else rbuf rb ! i)"
    using enq_copy_ok [OF assms(1, 2)] assms(3) by (metis add_lessD1 add.commute)
  have "buf ! slot rb k = rbuf rb ! slot rb k" if "k < used rb" for k
    using that assms(1, 3) by (subst cell) (auto simp: slot_def used_def ring_ok_def split: if_splits)
  then have "contents (rb \<lparr> rbuf := buf \<rparr>) = contents rb" by (simp add: contents_def)
  moreover have "buf ! slot rb (used rb + k) = data ! k" if "k < n" for k
    using that assms cell [of "write_pos rb + k"] cell [of "write_pos rb + k - capacity rb"]
    by (auto simp: slot_used ring_ok_def)
  then have "pending (rb \<lparr> rbuf := buf \<rparr>) n = take n data"
    using assms(2) by (intro nth_equalityI) (simp_all add: pending_def)
  ultimately show ?thesis using that buf assms(1) by (simp add: ring_ok_def)
qed

lemma write_store:
  assumes "ring_ok rb" and "used rb + n < capacity rb"
  shows "ring_ok (rb \<lparr> write_pos := (write_pos rb + n) mod capacity rb \<rparr>)"
    and "used (rb \<lparr> write_pos := (write_pos rb + n) mod capacity rb \<rparr>) = used rb + n"
    and "contents (rb \<lparr> write_pos := (write_pos rb + n) mod capacity rb \<rparr>) = contents rb @ pending rb n"
proof -
  let ?rb = "rb \<lparr> write_pos := (write_pos rb + n) mod capacity rb \<rparr>"
  have w: "(write_pos rb + n) mod capacity rb =
      (if write_pos rb + n < capacity rb then write_pos rb + n else write_pos rb + n - capacity rb)"
    using assms by (auto simp: ring_ok_def mod_if)
  show "ring_ok ?rb" using assms(1) by (simp add: ring_ok_def)
  show u: "used ?rb = used rb + n" unfolding w using assms by (auto simp: ring_ok_def used_def split: if_splits)
  show "contents ?rb = contents rb @ pending rb n"
    unfolding contents_def u by (simp add: pending_def upt_add_eq_append [of 0 "used rb"])
      (intro nth_equalityI; simp)
qed

lemma read_store:
  assumes "ring_ok rb" and "m \<le> used rb"
  shows "ring_ok (rb \<lparr> read_pos := (read_pos rb + m) mod capacity rb \<rparr>)"
    and "used (rb \<lparr> read_pos := (read_pos rb + m) mod capacity rb \<rparr>) = used rb - m"
    and "contents (rb \<lparr> read_pos := (read_pos rb + m) mod capacity rb \<rparr>) = drop m (contents rb)"
    and "used rb + n < capacity rb \<Longrightarrow>
      pending (rb \<lparr> read_pos := (read_pos rb + m) mod capacity rb \<rparr>) n = pending rb n"
proof -
  let ?rb = "rb \<lparr> read_pos := (read_pos rb + m) mod capacity rb \<rparr>"
  have r: "(read_pos rb + m) mod capacity rb =
      (if read_pos rb + m < capacity rb then read_pos rb + m else read_pos rb + m - capacity rb)"
    using assms used_less [OF assms(1)] by (auto simp: ring_ok_def mod_if)
  show "ring_ok ?rb" using assms(1) by (simp add: ring_ok_def)
  show u: "used ?rb = used rb - m" unfolding r using assms by (auto simp: ring_ok_def used_def split: if_splits)
  have slot: "slot ?rb k = slot rb (m + k)" if "m + k < capacity rb" for k
    unfolding r using assms that by (auto simp: ring_ok_def slot_def)
  show "contents ?rb = drop m (contents rb)"
  proof (rule nth_equalityI)
    fix i assume "i < length (contents ?rb)"
    then have "m + i < used rb" and "i < used rb - m" by (simp_all add: u)
    then show "contents ?rb ! i = drop m (contents rb) ! i"
      using used_less [OF assms(1)] by (simp add: contents_def u slot)
  qed (simp add: u)
  show "pending ?rb n = pending rb n" if "used rb + n < capacity rb"
    unfolding pending_def u using assms(2) that by (intro nth_equalityI) (simp_all add: slot)
qed

section \<open>The ring as a bounded queue\<close>

text \<open>What a byte queue of bounded size promises; \<open>room\<close> is how many bytes it still takes.\<close>

locale byte_queue =
  fixes enq :: "bytes \<Rightarrow> 'q \<Rightarrow> (nat \<times> 'q) result" and deq :: "nat \<Rightarrow> 'q \<Rightarrow> bytes \<times> 'q"
    and queue :: "'q \<Rightarrow> bytes" and room :: "'q \<Rightarrow> nat" and queue_ok :: "'q \<Rightarrow> bool"
  assumes enq_law: "queue_ok q \<Longrightarrow> \<exists>q'. enq data q = Inr (min (length data) (room q), q') \<and> queue_ok q' \<and>
      queue q' = queue q @ take (room q) data \<and> room q' = room q - length data"
    and deq_law: "queue_ok q \<Longrightarrow> \<exists>q'. deq n q = (take n (queue q), q') \<and> queue_ok q' \<and>
      queue q' = drop n (queue q) \<and> room q' = room q + min n (length (queue q))"
begin

text \<open>A queue with room takes something, and one that is not empty delivers something.\<close>

lemma enq_progress:
  assumes "queue_ok q" and "0 < room q" and "data \<noteq> []"
  obtains n q' where "enq data q = Inr (n, q')" and "0 < n" and "queue q' = queue q @ take n data"
proof -
  obtain q' where "enq data q = Inr (min (length data) (room q), q')" "queue q' = queue q @ take (room q) data"
    using enq_law [OF assms(1)] by blast
  moreover have "0 < min (length data) (room q)" using assms(2, 3) by simp
  moreover have "take (room q) data = take (min (length data) (room q)) data" by (simp add: min_def)
  ultimately show ?thesis using that by metis
qed

text \<open>A transfer through the queue in one piece loses nothing that fits.\<close>

lemma transfer:
  assumes "queue_ok q" and "queue q = []" and "length data \<le> room q" and "length data \<le> n"
  shows "\<exists>q'. enq data q = Inr (length data, q') \<and> fst (deq n q') = data"
proof -
  obtain q' where q': "enq data q = Inr (min (length data) (room q), q')" "queue_ok q'"
    "queue q' = queue q @ take (room q) data"
    using enq_law [OF assms(1)] by blast
  from deq_law [OF q'(2), of n] have "fst (deq n q') = take n (queue q')" by auto
  with q' assms show ?thesis by simp
qed

end

definition ring_room :: "ring \<Rightarrow> nat" where
  "ring_room rb = capacity rb - 1 - used rb"

lemma enq_available_room:
  "ring_ok rb \<Longrightarrow> enq_available (capacity rb) (write_pos rb) (read_pos rb) = ring_room rb"
  by (simp only: enq_available_free ring_room_def)

lemma enqueue_slice_queue:
  assumes "ring_ok rb"
  shows "\<exists>rb'. enqueue_slice data rb = Inr (min (length data) (ring_room rb), rb') \<and> ring_ok rb' \<and>
    contents rb' = contents rb @ take (ring_room rb) data \<and> ring_room rb' = ring_room rb - length data"
proof (cases "min (length data) (ring_room rb) = 0")
  case True
  with assms show ?thesis
    by (auto simp: enqueue_slice_def enq_available_room Let_def min_def split: if_splits)
next
  case False
  define n where "n = min (length data) (ring_room rb)"
  have n: "n \<le> length data" "used rb + n < capacity rb"
    using used_less [OF assms] by (auto simp: n_def ring_room_def)
  from enq_copy_effect [OF assms n] obtain buf where
    buf: "enq_copy (capacity rb) (write_pos rb) data n (rbuf rb) = Ok buf"
      "ring_ok (rb \<lparr> rbuf := buf \<rparr>)" "contents (rb \<lparr> rbuf := buf \<rparr>) = contents rb"
      "pending (rb \<lparr> rbuf := buf \<rparr>) n = take n data" .
  from write_store [OF buf(2), of n] n(2) buf(3, 4) have
    "ring_ok (rb \<lparr> rbuf := buf, write_pos := (write_pos rb + n) mod capacity rb \<rparr>)"
    "used (rb \<lparr> rbuf := buf, write_pos := (write_pos rb + n) mod capacity rb \<rparr>) = used rb + n"
    "contents (rb \<lparr> rbuf := buf, write_pos := (write_pos rb + n) mod capacity rb \<rparr>) = contents rb @ take n data"
    by simp_all
  moreover have "take n data = take (ring_room rb) data" by (simp add: n_def min_def)
  ultimately show ?thesis
    using False buf(1) assms
    by (simp add: enqueue_slice_def enq_available_room Let_def n_def [symmetric])
      (simp add: ring_room_def n_def)
qed

lemma dequeue_slice_queue:
  assumes "ring_ok rb"
  shows "\<exists>rb'. dequeue_slice n rb = (take n (contents rb), rb') \<and> ring_ok rb' \<and>
    contents rb' = drop n (contents rb) \<and> ring_room rb' = ring_room rb + min n (length (contents rb))"
proof -
  define m where "m = min n (used rb)"
  have m: "m \<le> used rb" by (simp add: m_def)
  have t: "take m (contents rb) = take n (contents rb)" "drop m (contents rb) = drop n (contents rb)"
    by (auto simp: m_def min_def)
  note st = read_store [OF assms m]
  show ?thesis
  proof (cases "m = 0")
    case True
    then show ?thesis
      using assms t by (simp add: dequeue_slice_def deq_available_used m_def [symmetric])
  next
    case False
    then show ?thesis
      using st m used_less [OF assms] assms deq_copy_contents [OF assms m] t
      by (simp add: dequeue_slice_def deq_available_used m_def [symmetric] ring_room_def)
  qed
qed

interpretation ring_queue: byte_queue enqueue_slice dequeue_slice contents ring_room ring_ok
  using enqueue_slice_queue dequeue_slice_queue by unfold_locales simp_all

lemma ring_new_ok: "0 < cap \<Longrightarrow> cap < 2 ^ 63 \<Longrightarrow> ring_ok (ring_new cap) \<and> contents (ring_new cap) = []"
  by (simp add: ring_ok_def ring_new_def contents_def used_def)

section \<open>Two threads\<close>

text \<open>
  Where each thread is: between calls, after its loads, after its copy. The position a thread owns is
  changed by it alone, so its two loads are one step. Ghost fields record the bytes published and the
  bytes handed over.
\<close>

datatype producer = PIdle | PLoaded bytes nat | PCopied bytes nat
datatype consumer = CIdle | CLoaded nat | CCopied bytes

record spsc =
  sring :: ring
  prod :: producer
  cons :: consumer
  sent :: bytes
  received :: bytes

definition spsc_init :: "nat \<Rightarrow> spsc" where
  "spsc_init cap = \<lparr> sring = ring_new cap, prod = PIdle, cons = CIdle, sent = [], received = [] \<rparr>"

inductive spsc_step :: "spsc \<Rightarrow> spsc \<Rightarrow> bool" where
  p_load: "prod s = PIdle \<Longrightarrow>
    n = min (length data) (enq_available (capacity (sring s)) (write_pos (sring s)) (read_pos (sring s))) \<Longrightarrow>
    0 < n \<Longrightarrow> spsc_step s (s \<lparr> prod := PLoaded data n \<rparr>)"
| p_copy: "prod s = PLoaded data n \<Longrightarrow>
    enq_copy (capacity (sring s)) (write_pos (sring s)) data n (rbuf (sring s)) = Ok buf \<Longrightarrow>
    spsc_step s (s \<lparr> sring := (sring s) \<lparr> rbuf := buf \<rparr>, prod := PCopied data n \<rparr>)"
| p_store: "prod s = PCopied data n \<Longrightarrow>
    spsc_step s (s \<lparr> sring := (sring s) \<lparr> write_pos := (write_pos (sring s) + n) mod capacity (sring s) \<rparr>,
      prod := PIdle, sent := sent s @ take n data \<rparr>)"
| c_load: "cons s = CIdle \<Longrightarrow>
    n = min len (deq_available (capacity (sring s)) (write_pos (sring s)) (read_pos (sring s))) \<Longrightarrow>
    0 < n \<Longrightarrow> spsc_step s (s \<lparr> cons := CLoaded n \<rparr>)"
| c_copy: "cons s = CLoaded n \<Longrightarrow>
    spsc_step s (s \<lparr> cons := CCopied (deq_copy (capacity (sring s)) (read_pos (sring s)) n (rbuf (sring s))) \<rparr>)"
| c_store: "cons s = CCopied xs \<Longrightarrow>
    spsc_step s (s \<lparr> sring := (sring s) \<lparr> read_pos := (read_pos (sring s) + length xs) mod capacity (sring s) \<rparr>,
      cons := CIdle, received := received s @ xs \<rparr>)"

inductive spsc_reach :: "nat \<Rightarrow> spsc \<Rightarrow> bool" for cap where
  reach_init: "0 < cap \<Longrightarrow> cap < 2 ^ 63 \<Longrightarrow> spsc_reach cap (spsc_init cap)"
| reach_step: "spsc_reach cap s \<Longrightarrow> spsc_step s s' \<Longrightarrow> spsc_reach cap s'"

fun prod_ok :: "ring \<Rightarrow> producer \<Rightarrow> bool" where
  "prod_ok rb PIdle = True"
| "prod_ok rb (PLoaded data n) \<longleftrightarrow> n \<le> length data \<and> used rb + n < capacity rb"
| "prod_ok rb (PCopied data n) \<longleftrightarrow> n \<le> length data \<and> used rb + n < capacity rb \<and> pending rb n = take n data"

fun cons_ok :: "ring \<Rightarrow> consumer \<Rightarrow> bool" where
  "cons_ok rb CIdle = True"
| "cons_ok rb (CLoaded n) \<longleftrightarrow> n \<le> used rb"
| "cons_ok rb (CCopied xs) \<longleftrightarrow> length xs \<le> used rb \<and> take (length xs) (contents rb) = xs"

definition spsc_inv :: "nat \<Rightarrow> spsc \<Rightarrow> bool" where
  "spsc_inv cap s \<longleftrightarrow> ring_ok (sring s) \<and> capacity (sring s) = cap \<and> sent s = received s @ contents (sring s) \<and>
    prod_ok (sring s) (prod s) \<and> cons_ok (sring s) (cons s)"

lemma cons_ok_extend:
  "cons_ok rb c \<Longrightarrow> used rb' = used rb + n \<Longrightarrow> contents rb' = contents rb @ ys \<Longrightarrow> cons_ok rb' c"
  by (cases c) auto

lemma prod_ok_read:
  assumes "ring_ok rb" and "m \<le> used rb" and "prod_ok rb p"
  shows "prod_ok (rb \<lparr> read_pos := (read_pos rb + m) mod capacity rb \<rparr>) p"
  using assms read_store [OF assms(1, 2)] by (cases p) auto

lemma spsc_inv_step: "spsc_step s s' \<Longrightarrow> spsc_inv cap s \<Longrightarrow> spsc_inv cap s'"
proof (induction rule: spsc_step.induct)
  case (p_load s n data)
  then show ?case by (auto simp: spsc_inv_def enq_available_room ring_room_def)
next
  case (p_copy s data n buf)
  then have "ring_ok (sring s)" "n \<le> length data" "used (sring s) + n < capacity (sring s)"
    by (simp_all add: spsc_inv_def)
  from enq_copy_effect [OF this] obtain buf' where
    "enq_copy (capacity (sring s)) (write_pos (sring s)) data n (rbuf (sring s)) = Ok buf'"
    "ring_ok ((sring s) \<lparr> rbuf := buf' \<rparr>)" "contents ((sring s) \<lparr> rbuf := buf' \<rparr>) = contents (sring s)"
    "pending ((sring s) \<lparr> rbuf := buf' \<rparr>) n = take n data" .
  with p_copy(2) have "ring_ok ((sring s) \<lparr> rbuf := buf \<rparr>)"
    "contents ((sring s) \<lparr> rbuf := buf \<rparr>) = contents (sring s)"
    "pending ((sring s) \<lparr> rbuf := buf \<rparr>) n = take n data" by simp_all
  with p_copy(1, 3) show ?case by (cases "cons s") (simp_all add: spsc_inv_def)
next
  case (p_store s data n)
  let ?rb = "(sring s) \<lparr> write_pos := (write_pos (sring s) + n) mod capacity (sring s) \<rparr>"
  have "ring_ok (sring s)" "used (sring s) + n < capacity (sring s)" using p_store by (simp_all add: spsc_inv_def)
  note w = write_store [OF this]
  have "cons_ok ?rb (cons s)"
    using p_store by (intro cons_ok_extend [OF _ w(2, 3)]) (simp add: spsc_inv_def)
  with w(1, 3) p_store show ?case by (simp add: spsc_inv_def)
next
  case (c_load s n len)
  then show ?case by (auto simp: spsc_inv_def deq_available_used)
next
  case (c_copy s n)
  then show ?case by (auto simp: spsc_inv_def deq_copy_contents)
next
  case (c_store s xs)
  then have ok: "ring_ok (sring s)" "length xs \<le> used (sring s)" "take (length xs) (contents (sring s)) = xs"
    by (simp_all add: spsc_inv_def)
  note r = read_store(1-3) [OF ok(1, 2)] prod_ok_read [OF ok(1, 2), of "prod s"]
  have "xs @ drop (length xs) (contents (sring s)) = contents (sring s)" using ok(3) by (metis append_take_drop_id)
  with r c_store show ?case by (simp add: spsc_inv_def)
qed

lemma spsc_inv_reach: "spsc_reach cap s \<Longrightarrow> spsc_inv cap s"
proof (induction rule: spsc_reach.induct)
  case reach_init
  then show ?case using ring_new_ok [of cap] by (simp add: spsc_inv_def spsc_init_def) (simp add: ring_new_def)
next
  case (reach_step s s')
  then show ?case using spsc_inv_step by blast
qed

section \<open>Properties\<close>

text \<open>The cells a copy of \<open>n\<close> bytes from position \<open>pos\<close> touches.\<close>

definition copy_cells :: "nat \<Rightarrow> nat \<Rightarrow> nat \<Rightarrow> nat list" where
  "copy_cells cap pos n = filter (\<lambda>i. pos \<le> i \<and> i < pos + n \<or> i + cap < pos + n) [0..<cap]"

text \<open>A state in the middle of both operations: one byte in the ring, two more about to be copied.\<close>

definition spsc_example :: spsc where
  "spsc_example = \<lparr> sring = \<lparr> rbuf = [7, 0, 0, 0], capacity = 4, write_pos = 1, read_pos = 0 \<rparr>,
     prod = PLoaded [8, 9] 2, cons = CLoaded 1, sent = [7], received = [] \<rparr>"

lemma spsc_example_reach: "spsc_reach 4 spsc_example"
proof -
  let ?r0 = "\<lparr> rbuf = replicate 4 0, capacity = 4, write_pos = 0, read_pos = 0 \<rparr>"
  let ?b1 = "[7, 0, 0, 0] :: bytes"
  have "spsc_reach 4 \<lparr> sring = ?r0, prod = PIdle, cons = CIdle, sent = [], received = [] \<rparr>" (is "spsc_reach 4 ?s0")
    using reach_init [of 4] by (simp add: spsc_init_def ring_new_def)
  then have "spsc_reach 4 (?s0 \<lparr> prod := PLoaded [7] 1 \<rparr>)" (is "spsc_reach 4 ?s1")
    by (rule reach_step) (rule p_load, simp_all add: enq_available_def)
  then have "spsc_reach 4 (?s1 \<lparr> sring := ?r0 \<lparr> rbuf := ?b1 \<rparr>, prod := PCopied [7] 1 \<rparr>)" (is "spsc_reach 4 ?s2")
    by (rule reach_step) (use p_copy [of ?s1 "[7]" 1 ?b1] in \<open>simp add: enq_copy_def copy_at_def numeral_eq_Suc\<close>)
  then have "spsc_reach 4 \<lparr> sring = ?r0 \<lparr> rbuf := ?b1, write_pos := 1 \<rparr>, prod = PIdle, cons = CIdle,
      sent = [7], received = [] \<rparr>" (is "spsc_reach 4 ?s3")
    by (rule reach_step) (use p_store [of ?s2 "[7]" 1] in simp)
  then have "spsc_reach 4 (?s3 \<lparr> cons := CLoaded 1 \<rparr>)" (is "spsc_reach 4 ?s4")
    by (rule reach_step) (rule c_load [where len = 1], simp_all add: deq_available_def)
  then have "spsc_reach 4 (?s4 \<lparr> prod := PLoaded [8, 9] 2 \<rparr>)"
    by (rule reach_step) (rule p_load, simp_all add: enq_available_def)
  then show ?thesis by (simp add: spsc_example_def)
qed

text \<open>
  C3. The ring is a queue between the two threads: however the loads, copies and stores of the producer
  and the consumer interleave, the bytes published are the bytes handed over followed by the bytes in
  the ring, in order, and at most the capacity less one are in the ring.
\<close>

theorem ring_fifo:
  assumes "spsc_reach cap s"
  shows "sent s = received s @ contents (sring s) \<and> length (contents (sring s)) < cap"
  using spsc_inv_reach [OF assms] used_less [of "sring s"] by (auto simp: spsc_inv_def)

theorem ring_fifo_witness:
  "sent spsc_example = received spsc_example @ contents (sring spsc_example) \<and>
   length (contents (sring spsc_example)) < 4"
  by (rule ring_fifo) (rule spsc_example_reach)

text \<open>
  C17. The unsynchronized copies do not race: when the producer is about to copy in and the consumer to
  copy out, the cells written and the cells read are different, and the producer's copy stays inside
  the buffer.
\<close>

theorem ring_race_free:
  assumes "spsc_reach cap s" and "prod s = PLoaded data n" and "cons s = CLoaded m"
  shows "set (copy_cells cap (write_pos (sring s)) n) \<inter> set (copy_cells cap (read_pos (sring s)) m) = {} \<and>
    (\<exists>buf. enq_copy cap (write_pos (sring s)) data n (rbuf (sring s)) = Ok buf)"
proof -
  have inv: "ring_ok (sring s)" "capacity (sring s) = cap" "n \<le> length data" "used (sring s) + n < cap"
    "m \<le> used (sring s)"
    using spsc_inv_reach [OF assms(1)] assms(2, 3) by (auto simp: spsc_inv_def)
  moreover have "\<exists>buf. enq_copy cap (write_pos (sring s)) data n (rbuf (sring s)) = Ok buf"
    using enq_copy_ok [OF inv(1, 3)] inv by auto
  ultimately show ?thesis by (auto simp: copy_cells_def used_def ring_ok_def split: if_splits)
qed

theorem ring_race_free_witness:
  "set (copy_cells 4 (write_pos (sring spsc_example)) 2) \<inter> set (copy_cells 4 (read_pos (sring spsc_example)) 1) = {}"
  using ring_race_free [OF spsc_example_reach, of "[8, 9]" 2 1] by (simp add: spsc_example_def)

text \<open>
  C31. Used by one thread at a time the ring is a bounded byte queue that makes progress: an enqueue
  takes as many bytes as there is room for, at least one when the ring is not full, a dequeue delivers
  the oldest bytes, at least one when it is not empty, and the tests for empty and full are exact.
\<close>

theorem ring_progress:
  assumes "ring_ok rb" and "data \<noteq> []" and "0 < len"
  shows "(\<not> ring_is_full rb \<longrightarrow>
      (\<exists>n rb'. enqueue_slice data rb = Ok (n, rb') \<and> 0 < n \<and> contents rb' = contents rb @ take n data)) \<and>
    (\<not> ring_is_empty rb \<longrightarrow>
      (\<exists>rb'. dequeue_slice len rb = (take len (contents rb), rb') \<and> take len (contents rb) \<noteq> [] \<and>
        contents rb' = drop len (contents rb))) \<and>
    (ring_is_empty rb \<longleftrightarrow> contents rb = []) \<and> (ring_is_full rb \<longleftrightarrow> ring_room rb = 0)"
proof -
  have full: "ring_is_full rb \<longleftrightarrow> ring_room rb = 0"
    using assms(1) by (auto simp: ring_is_full_def ring_room_def used_def ring_ok_def mod_if)
  have empty: "ring_is_empty rb \<longleftrightarrow> contents rb = []"
    using assms(1) by (auto simp: ring_is_empty_def contents_def used_def ring_ok_def)
  show ?thesis
    using ring_queue.enq_progress [OF assms(1), of data] ring_queue.deq_law [OF assms(1), of len] assms(2, 3)
    unfolding full empty by (metis neq0_conv take_eq_Nil)
qed

theorem ring_progress_witness:
  "\<exists>n rb'. enqueue_slice [1, 2, 3] (ring_new 4) = Ok (n, rb') \<and> 0 < n \<and>
    contents rb' = contents (ring_new 4) @ take n [1, 2, 3]"
  using ring_progress [of "ring_new 4" "[1, 2, 3]" 1] ring_new_ok [of 4]
  by (simp add: ring_is_full_def ring_new_def)

end
