(* ===== verification/Rule_Config.thy ===== *)
theory Rule_Config
  imports Session
begin

text \<open>
  Model of \<^verbatim>\<open>src/clash-lib/src/config/internal/rule.rs\<close>: the rules of the configuration file
  and their parser. The crates \<^verbatim>\<open>ipnet\<close> and \<^verbatim>\<open>regex\<close> are parameters: the record \<open>net_lib\<close>
  holds the functions the code calls (\<open>net_trunc\<close> is the truncated address with the prefix
  length), over a type \<open>'n\<close> of networks and a type \<open>'r\<close> of compiled
  expressions.
\<close>

section \<open>Third-party functions\<close>

record ('n, 'r) net_lib =
  net_parse :: "string \<Rightarrow> 'n option"
  net_new :: "ip_addr \<Rightarrow> nat \<Rightarrow> 'n option"
  net_trunc :: "'n \<Rightarrow> ip_addr \<times> nat"
  net_contains :: "'n \<Rightarrow> ip_addr \<Rightarrow> bool"
  net_show :: "'n \<Rightarrow> string"
  regex_new :: "string \<Rightarrow> string + 'r"
  regex_is_match :: "'r \<Rightarrow> string \<Rightarrow> bool"
  regex_show :: "'r \<Rightarrow> string"

section \<open>Rules\<close>

datatype ('n, 'r) rule_type =
    RuleDomain (domain: string) (rule_target: string)
  | RuleDomainSuffix (domain_suffix: string) (rule_target: string)
  | RuleDomainRegex (regex: 'r) (rule_target: string)
  | RuleDomainKeyword (domain_keyword: string) (rule_target: string)
  | RuleGeoIP (rule_target: string) (country_code: string) (no_resolve: bool)
  | RuleGeoSite (rule_target: string) (country_code: string)
  | RuleIpCidr (ipnet: 'n) (rule_target: string) (no_resolve: bool)
  | RuleSrcCidr (ipnet: 'n) (rule_target: string) (no_resolve: bool)
  | RuleSRCPort (rule_target: string) (port: u16)
  | RuleDSTPort (rule_target: string) (port: u16)
  | RuleProcessName (process_name: string) (rule_target: string)
  | RuleProcessPath (process_path: string) (rule_target: string)
  | RuleRuleSet (rule_set: string) (rule_target: string)
  | RuleMatch (rule_target: string)
  | RuleNetwork (rule_network: network) (rule_target: string)

fun rule_to_string :: "('n, 'r) net_lib \<Rightarrow> ('n, 'r) rule_type \<Rightarrow> string" where
  "rule_to_string lib (RuleDomain d t) = ''DOMAIN,'' @ d @ '','' @ t"
| "rule_to_string lib (RuleDomainRegex r t) = ''DOMAIN-REGEX,'' @ regex_show lib r @ '','' @ t"
| "rule_to_string lib (RuleDomainSuffix _ _) = ''DOMAIN-SUFFIX''"
| "rule_to_string lib (RuleDomainKeyword _ _) = ''DOMAIN-KEYWORD''"
| "rule_to_string lib (RuleGeoIP _ _ _) = ''GEOIP''"
| "rule_to_string lib (RuleGeoSite _ _) = ''GEOSITE''"
| "rule_to_string lib (RuleIpCidr _ _ _) = ''IP-CIDR''"
| "rule_to_string lib (RuleSrcCidr _ _ _) = ''SRC-IP-CIDR''"
| "rule_to_string lib (RuleSRCPort _ _) = ''SRC-PORT''"
| "rule_to_string lib (RuleDSTPort _ _) = ''DST-PORT''"
| "rule_to_string lib (RuleProcessName _ _) = ''PROCESS-NAME''"
| "rule_to_string lib (RuleProcessPath _ _) = ''PROCESS-PATH''"
| "rule_to_string lib (RuleRuleSet _ _) = ''RULE-SET''"
| "rule_to_string lib (RuleMatch _) = ''MATCH''"
| "rule_to_string lib (RuleNetwork _ _) = ''NETWORK''"

definition has_no_resolve :: "string list option \<Rightarrow> bool" where
  "has_no_resolve params = (case params of Some ps \<Rightarrow> ''no-resolve'' \<in> set ps | None \<Rightarrow> False)"

definition net_parse_res :: "('n, 'r) net_lib \<Rightarrow> string \<Rightarrow> 'n result" where
  "net_parse_res lib s = (case net_parse lib s of Some n \<Rightarrow> Ok n | None \<Rightarrow> Err IpNetError)"

definition regex_new_res :: "('n, 'r) net_lib \<Rightarrow> string \<Rightarrow> 'r result" where
  "regex_new_res lib s = (case regex_new lib s of Inl e \<Rightarrow> Err (InvalidConfig e) | Inr r \<Rightarrow> Ok r)"

text \<open>\<^verbatim>\<open>payload.parse().unwrap_or_else(print_and_exit!)\<close> of a port.\<close>

definition parse_port_or_exit :: "string \<Rightarrow> u16 result" where
  "parse_port_or_exit payload =
    (case parse_u16 payload of
       Some p \<Rightarrow> Ok p
     | None \<Rightarrow> Err (Exit (''invalid port: '' @ payload)))"

definition rule_new ::
  "('n, 'r) net_lib \<Rightarrow> string \<Rightarrow> string \<Rightarrow> string \<Rightarrow> string list option \<Rightarrow> ('n, 'r) rule_type result" where
  "rule_new lib proto payload target params =
    (if proto = ''DOMAIN'' then Ok (RuleDomain payload target)
     else if proto = ''DOMAIN-REGEX'' then
       bind_result (regex_new_res lib payload) (\<lambda>r. Ok (RuleDomainRegex r target))
     else if proto = ''DOMAIN-SUFFIX'' then Ok (RuleDomainSuffix payload target)
     else if proto = ''DOMAIN-KEYWORD'' then Ok (RuleDomainKeyword payload target)
     else if proto = ''GEOSITE'' then Ok (RuleGeoSite target payload)
     else if proto = ''GEOIP'' then Ok (RuleGeoIP target payload (has_no_resolve params))
     else if proto = ''IP-CIDR'' \<or> proto = ''IP-CIDR6'' then
       bind_result (net_parse_res lib payload) (\<lambda>n. Ok (RuleIpCidr n target (has_no_resolve params)))
     else if proto = ''SRC-IP-CIDR'' then
       bind_result (net_parse_res lib payload) (\<lambda>n. Ok (RuleSrcCidr n target (has_no_resolve params)))
     else if proto = ''SRC-PORT'' then
       bind_result (parse_port_or_exit payload) (\<lambda>p. Ok (RuleSRCPort target p))
     else if proto = ''DST-PORT'' then
       bind_result (parse_port_or_exit payload) (\<lambda>p. Ok (RuleDSTPort target p))
     else if proto = ''PROCESS-NAME'' then Ok (RuleProcessName payload target)
     else if proto = ''PROCESS-PATH'' then Ok (RuleProcessPath payload target)
     else if proto = ''RULE-SET'' then Ok (RuleRuleSet payload target)
     else if proto = ''MATCH'' then Ok (RuleMatch target)
     else if proto = ''NETWORK'' then
       (if payload = ''TCP'' \<or> payload = ''tcp'' then Ok (RuleNetwork Tcp target)
        else if payload = ''UDP'' \<or> payload = ''udp'' then Ok (RuleNetwork Udp target)
        else Err (InvalidConfig (''invalid network type: '' @ payload @ '', expected TCP or UDP'')))
     else Err (InvalidConfig (''unsupported rule type: '' @ proto)))"

definition rule_try_from :: "('n, 'r) net_lib \<Rightarrow> string \<Rightarrow> ('n, 'r) rule_type result" where
  "rule_try_from lib line =
    (case map str_trim (str_split (CHR '','') line) of
       [proto, target] \<Rightarrow> rule_new lib proto [] target None
     | [proto, payload, target] \<Rightarrow> rule_new lib proto payload target None
     | proto # payload # target # params \<Rightarrow> rule_new lib proto payload target (Some params)
     | _ \<Rightarrow> Err (InvalidConfig (''invalid rule line: '' @ line)))"

section \<open>The configuration syntax\<close>

text \<open>The fields of a rule as the configuration file writes them.\<close>

fun network_word :: "network \<Rightarrow> string" where
  "network_word Tcp = ''TCP''"
| "network_word Udp = ''UDP''"

definition resolve_field :: "bool \<Rightarrow> string list" where
  "resolve_field nr = (if nr then [''no-resolve''] else [])"

fun rule_fields :: "('n, 'r) net_lib \<Rightarrow> ('n, 'r) rule_type \<Rightarrow> string list" where
  "rule_fields lib (RuleDomain d t) = [''DOMAIN'', d, t]"
| "rule_fields lib (RuleDomainSuffix d t) = [''DOMAIN-SUFFIX'', d, t]"
| "rule_fields lib (RuleDomainRegex r t) = [''DOMAIN-REGEX'', regex_show lib r, t]"
| "rule_fields lib (RuleDomainKeyword d t) = [''DOMAIN-KEYWORD'', d, t]"
| "rule_fields lib (RuleGeoIP t c nr) = [''GEOIP'', c, t] @ resolve_field nr"
| "rule_fields lib (RuleGeoSite t c) = [''GEOSITE'', c, t]"
| "rule_fields lib (RuleIpCidr n t nr) = [''IP-CIDR'', net_show lib n, t] @ resolve_field nr"
| "rule_fields lib (RuleSrcCidr n t nr) = [''SRC-IP-CIDR'', net_show lib n, t] @ resolve_field nr"
| "rule_fields lib (RuleSRCPort t p) = [''SRC-PORT'', show_dec (unat p), t]"
| "rule_fields lib (RuleDSTPort t p) = [''DST-PORT'', show_dec (unat p), t]"
| "rule_fields lib (RuleProcessName p t) = [''PROCESS-NAME'', p, t]"
| "rule_fields lib (RuleProcessPath p t) = [''PROCESS-PATH'', p, t]"
| "rule_fields lib (RuleRuleSet s t) = [''RULE-SET'', s, t]"
| "rule_fields lib (RuleMatch t) = [''MATCH'', t]"
| "rule_fields lib (RuleNetwork n t) = [''NETWORK'', network_word n, t]"

definition rule_line :: "('n, 'r) net_lib \<Rightarrow> ('n, 'r) rule_type \<Rightarrow> string" where
  "rule_line lib r = str_join (CHR '','') (rule_fields lib r)"

text \<open>
  What a rule relies on of the crates: a network or expression printed and parsed again is the
  same one.
\<close>

fun lib_inverse :: "('n, 'r) net_lib \<Rightarrow> ('n, 'r) rule_type \<Rightarrow> bool" where
  "lib_inverse lib (RuleDomainRegex r _) \<longleftrightarrow> regex_new lib (regex_show lib r) = Inr r"
| "lib_inverse lib (RuleIpCidr n _ _) \<longleftrightarrow> net_parse lib (net_show lib n) = Some n"
| "lib_inverse lib (RuleSrcCidr n _ _) \<longleftrightarrow> net_parse lib (net_show lib n) = Some n"
| "lib_inverse lib _ \<longleftrightarrow> True"

text \<open>A field survives the line: no comma, nothing that trimming removes.\<close>

definition field_ok :: "string \<Rightarrow> bool" where
  "field_ok s \<longleftrightarrow> CHR '','' \<notin> set s \<and> str_trim s = s"

section \<open>Parsing inverts the syntax\<close>

lemma split_fields:
  assumes "list_all field_ok fs" and "fs \<noteq> []"
  shows "map str_trim (str_split (CHR '','') (str_join (CHR '','') fs)) = fs"
proof -
  have "str_split (CHR '','') (str_join (CHR '','') fs) = fs"
    using assms by (intro str_split_join) (auto simp: field_ok_def list_all_iff)
  then show ?thesis using assms by (simp add: field_ok_def list_all_iff map_idI)
qed

lemma parse_port_show [simp]: "parse_port_or_exit (show_dec (unat p)) = Ok p"
  by (simp add: parse_port_or_exit_def)

lemma rule_fields_new:
  assumes "lib_inverse lib r"
  shows "\<exists>proto payload target params.
    rule_new lib proto payload target params = Ok r \<and>
    (rule_fields lib r = [proto, target] \<and> payload = [] \<and> params = None \<or>
     rule_fields lib r = [proto, payload, target] \<and> params = None \<or>
     (\<exists>ps. rule_fields lib r = proto # payload # target # ps \<and> ps \<noteq> [] \<and> params = Some ps))"
proof (cases r)
  case (RuleGeoIP t c nr)
  then show ?thesis by (cases nr) (auto simp: rule_new_def has_no_resolve_def resolve_field_def)
next
  case (RuleIpCidr n t nr)
  then show ?thesis using assms
    by (cases nr) (auto simp: rule_new_def has_no_resolve_def resolve_field_def net_parse_res_def)
next
  case (RuleSrcCidr n t nr)
  then show ?thesis using assms
    by (cases nr) (auto simp: rule_new_def has_no_resolve_def resolve_field_def net_parse_res_def)
next
  case (RuleNetwork n t)
  then show ?thesis by (cases n) (auto simp: rule_new_def)
qed (use assms in \<open>auto simp: rule_new_def regex_new_res_def\<close>)

section \<open>Properties\<close>

text \<open>
  C35. Every rule, written in the syntax of the configuration file with fields that hold no comma
  and no surrounding blanks, is parsed back to the same rule, given that the network and
  expression crates parse what they print.
\<close>

theorem rule_round_trip:
  assumes "list_all field_ok (rule_fields lib r)" and "lib_inverse lib r"
  shows "rule_try_from lib (rule_line lib r) = Ok r"
proof -
  have "rule_fields lib r \<noteq> []" by (cases r) simp_all
  then have "map str_trim (str_split (CHR '','') (rule_line lib r)) = rule_fields lib r"
    unfolding rule_line_def using assms(1) by (intro split_fields)
  with rule_fields_new [OF assms(2)] show ?thesis
    by (auto simp: rule_try_from_def neq_Nil_conv)
qed

text \<open>A library for concrete inputs: networks and expressions are their text.\<close>

definition text_lib :: "(string, string) net_lib" where
  "text_lib = \<lparr> net_parse = Some, net_new = (\<lambda>i p. Some (show_ip i @ ''/'' @ show_dec p)),
     net_trunc = (\<lambda>n. (V4 0, 0)), net_contains = (\<lambda>n i. n = show_ip i), net_show = id,
     regex_new = Inr, regex_is_match = (\<lambda>r s. r = s), regex_show = id \<rparr>"

theorem rule_round_trip_witness:
  "rule_try_from text_lib (rule_line text_lib (RuleIpCidr ''10.0.0.0/8'' ''DIRECT'' True)) =
    Ok (RuleIpCidr ''10.0.0.0/8'' ''DIRECT'' True)"
  by (rule rule_round_trip)
    (simp_all add: text_lib_def resolve_field_def field_ok_def str_trim_visible visible_def)

end
