(* ===== verification/Trie.thy ===== *)
theory Trie
  imports Rust_Str "HOL-Library.AList"
begin

text \<open>
  Model of \<^verbatim>\<open>src/clash-lib/src/common/trie.rs\<close>: the domain trie with the wildcards \<^verbatim>\<open>*\<close>
  (one label), \<^verbatim>\<open>.\<close> (one label or more in front) and \<^verbatim>\<open>+.\<close> (any number in front), which
  the DNS hosts, the fake-IP filter, the fallback filter and the rule providers search. The
  children of a node are an association list with distinct keys: a \<^verbatim>\<open>HashMap\<close> in some order.
\<close>

section \<open>Nodes\<close>

datatype 'a node = Node (children: "(string \<times> 'a node) list") (node_data: "'a option")

definition DOMAIN_STEP :: char where "DOMAIN_STEP = CHR ''.''"
definition COMPLEX_WILDCARD :: string where "COMPLEX_WILDCARD = ''+''"
definition DOT_WILDCARD :: string where "DOT_WILDCARD = []"
definition WILDCARD :: string where "WILDCARD = ''*''"

definition node_new :: "'a node" where
  "node_new = Node [] None"

definition get_data :: "'a node \<Rightarrow> 'a option" where
  "get_data n = node_data n"

definition get_child :: "'a node \<Rightarrow> string \<Rightarrow> 'a node option" where
  "get_child n s = map_of (children n) s"

definition has_child :: "'a node \<Rightarrow> string \<Rightarrow> bool" where
  "has_child n s \<longleftrightarrow> get_child n s \<noteq> None"

definition add_child :: "string \<Rightarrow> 'a node \<Rightarrow> 'a node \<Rightarrow> 'a node" where
  "add_child s child n = Node (AList.update s child (children n)) (node_data n)"

section \<open>The trie\<close>

definition valid_and_split_domain :: "string \<Rightarrow> string list option" where
  "valid_and_split_domain domain =
    (if domain \<noteq> [] \<and> last domain = CHR ''.'' then None
     else
       let parts = str_split DOMAIN_STEP domain in
       if length parts = 1 then (if parts ! 0 = [] then None else Some parts)
       else if [] \<in> set (drop 1 parts) then None
       else Some parts)"

text \<open>
  \<^verbatim>\<open>insert_inner\<close> walks from the last label to the first and creates the missing nodes; the
  mutable reference to the current node becomes a recursion that rebuilds the nodes on the way.
\<close>

fun insert_path :: "string list \<Rightarrow> 'a \<Rightarrow> 'a node \<Rightarrow> 'a node" where
  "insert_path [] v node = Node (children node) (Some v)"
| "insert_path (part # parts) v node =
    (let node = (if has_child node part then node else add_child part node_new node)
     in add_child part (insert_path parts v (the (get_child node part))) node)"

definition insert_inner :: "string list \<Rightarrow> 'a \<Rightarrow> 'a node \<Rightarrow> 'a node" where
  "insert_inner parts v root = insert_path (rev parts) v root"

text \<open>\<^verbatim>\<open>insert\<close>: the new root and whether the domain was valid.\<close>

definition trie_insert :: "string \<Rightarrow> 'a \<Rightarrow> 'a node \<Rightarrow> 'a node \<times> bool" where
  "trie_insert domain v root =
    (case valid_and_split_domain domain of
       None \<Rightarrow> (root, False)
     | Some parts \<Rightarrow>
         (if parts ! 0 = COMPLEX_WILDCARD
          then (insert_inner (parts[0 := DOT_WILDCARD]) v (insert_inner (drop 1 parts) v root), True)
          else (insert_inner parts v root, True)))"

function search_inner :: "'a node \<Rightarrow> string list \<Rightarrow> 'a node option" where
  "search_inner node parts =
    (if parts = [] then Some node
     else
       case Option.bind (get_child node (last parts)) (\<lambda>c.
              Option.bind (search_inner c (butlast parts)) (\<lambda>n.
                if node_data n \<noteq> None then Some n else None)) of
         Some n \<Rightarrow> Some n
       | None \<Rightarrow>
           (case Option.bind (get_child node WILDCARD) (\<lambda>c.
                   Option.bind (search_inner c (butlast parts)) (\<lambda>n.
                     if node_data n \<noteq> None then Some n else None)) of
              Some n \<Rightarrow> Some n
            | None \<Rightarrow> get_child node DOT_WILDCARD))"
  by pat_completeness auto
termination by (relation "measure (length \<circ> snd)") simp_all

declare search_inner.simps [simp del]

definition trie_search :: "'a node \<Rightarrow> string \<Rightarrow> 'a node option" where
  "trie_search root domain =
    (case valid_and_split_domain domain of
       None \<Rightarrow> None
     | Some parts \<Rightarrow>
         (if parts ! 0 = [] then None
          else Option.bind (search_inner root parts) (\<lambda>n. if node_data n \<noteq> None then Some n else None)))"

text \<open>
  \<^verbatim>\<open>traverse\<close> calls its visitor on the patterns in the iteration order of the maps and stops
  when it returns false; \<open>traverse_inner\<close> lists what is visited below a node with the labels
  \<open>keys\<close>, \<open>traverse\<close> what is visited in all, in order. The visitor is a function on a state.
\<close>

fun node_count :: "'a node \<Rightarrow> nat" where
  "node_count (Node cs d) = Suc (sum_list (map (\<lambda>c. node_count (snd c)) cs))"

function traverse_inner ::
  "(string \<Rightarrow> 'a \<Rightarrow> 's \<Rightarrow> 's \<times> bool) \<Rightarrow> string list \<Rightarrow> (string \<times> 'a node) list \<Rightarrow> 's \<Rightarrow> 's \<times> bool" where
  "traverse_inner f keys [] s = (s, True)"
| "traverse_inner f keys ((key, child) # rest) s =
    (let domain = str_join DOMAIN_STEP (key # keys);
         name = (if prefix [DOMAIN_STEP] domain then COMPLEX_WILDCARD @ domain else domain);
         (s, go) = (case node_data child of Some d \<Rightarrow> f name d s | None \<Rightarrow> (s, True))
     in if \<not> go then (s, False)
        else let (s, go) = traverse_inner f (key # keys) (children child) s
             in if \<not> go then (s, False) else traverse_inner f keys rest s)"
  by pat_completeness auto
termination
proof (relation "measure (\<lambda>(f, keys, cs, s). sum_list (map (\<lambda>c. node_count (snd c)) cs))", goal_cases)
  case (2 f keys key child)
  then show ?case by (cases child) simp
next
  case (3 f keys key child)
  then show ?case by (cases child) simp
qed simp

fun traverse_root ::
  "(string \<Rightarrow> 'a \<Rightarrow> 's \<Rightarrow> 's \<times> bool) \<Rightarrow> (string \<times> 'a node) list \<Rightarrow> 's \<Rightarrow> 's" where
  "traverse_root f [] s = s"
| "traverse_root f ((key, child) # rest) s =
    (let (s, _) = traverse_inner f [key] (children child) s;
         (s, go) = (case node_data child of Some d \<Rightarrow> f key d s | None \<Rightarrow> (s, True))
     in if go then traverse_root f rest s else s)"

definition traverse :: "(string \<Rightarrow> 'a \<Rightarrow> 's \<Rightarrow> 's \<times> bool) \<Rightarrow> 'a node \<Rightarrow> 's \<Rightarrow> 's" where
  "traverse f root s = traverse_root f (children root) s"

section \<open>The trie as a map from label paths\<close>

text \<open>
  A path lists labels from the top-level domain down. \<open>lookup t path\<close> is the value stored there.
\<close>

fun lookup :: "'a node \<Rightarrow> string list \<Rightarrow> 'a option" where
  "lookup n [] = node_data n"
| "lookup n (x # xs) = Option.bind (get_child n x) (\<lambda>c. lookup c xs)"

text \<open>
  Invariant: distinct keys, and the node of the dot wildcard holds a value and has no children.
\<close>

fun trie_ok :: "'a node \<Rightarrow> bool" where
  "trie_ok (Node cs d) \<longleftrightarrow>
    distinct (map fst cs) \<and>
    (\<forall>c \<in> set cs. trie_ok (snd c) \<and> (fst c = [] \<longrightarrow> children (snd c) = [] \<and> node_data (snd c) \<noteq> None))"

text \<open>Paths that \<^verbatim>\<open>insert\<close> writes: an empty label only in the last place, and not alone.\<close>

definition path_ok :: "string list \<Rightarrow> bool" where
  "path_ok path \<longleftrightarrow> [] \<notin> set (butlast path)"

lemma get_child_add [simp]:
  "get_child (add_child s c n) k = (if k = s then Some c else get_child n k)"
  by (simp add: get_child_def add_child_def update_conv')

lemma node_data_add [simp]: "node_data (add_child s c n) = node_data n"
  by (simp add: add_child_def)

lemma lookup_node_new [simp]: "lookup node_new path = None"
  by (cases path) (simp_all add: node_new_def get_child_def)

lemma lookup_insert_path: "lookup (insert_path path v n) q = (if q = path then Some v else lookup n q)"
proof (induction path arbitrary: n q)
  case Nil
  then show ?case by (cases q) (simp_all add: get_child_def)
next
  case (Cons x xs)
  show ?case
  proof (cases q)
    case (Cons y ys)
    show ?thesis
      by (cases "get_child n x") (simp_all add: Cons Cons.IH has_child_def Let_def)
  qed (simp add: Let_def)
qed

lemma trie_ok_get_child:
  assumes "trie_ok n" and "get_child n x = Some c"
  shows "trie_ok c" and "x = [] \<Longrightarrow> children c = [] \<and> node_data c \<noteq> None"
proof -
  have "(x, c) \<in> set (children n)" using assms(2) by (auto simp: get_child_def dest: map_of_SomeD)
  moreover obtain cs d where "n = Node cs d" by (cases n)
  ultimately show "trie_ok c" and "x = [] \<Longrightarrow> children c = [] \<and> node_data c \<noteq> None"
    using assms(1) by fastforce+
qed

lemma trie_ok_add_child:
  assumes "trie_ok n" and "trie_ok c" and "x = [] \<Longrightarrow> children c = [] \<and> node_data c \<noteq> None"
  shows "trie_ok (add_child x c n)"
proof -
  obtain cs d where n: "n = Node cs d" by (cases n)
  have "(k, m) \<in> set (AList.update x c cs) \<Longrightarrow> (k, m) \<in> set cs \<or> k = x \<and> m = c" for k m
    using update_conv' [of x c cs] assms(1) n
    by (metis (no_types, lifting) distinct_update fun_upd_apply map_of_SomeD map_of_eq_Some_iff option.inject trie_ok.simps)
  then show ?thesis
    using assms n by (fastforce simp: add_child_def distinct_update)
qed

lemma trie_ok_new [simp]: "trie_ok node_new"
  by (simp add: node_new_def)

lemma trie_ok_children_Nil: "children n = [] \<Longrightarrow> trie_ok n"
  by (cases n) simp

lemma trie_ok_insert_path: "trie_ok n \<Longrightarrow> path_ok path \<Longrightarrow> trie_ok (insert_path path v n)"
proof (induction path arbitrary: n)
  case Nil
  then show ?case by (cases n) simp
next
  case (Cons x xs)
  define m where "m = (if has_child n x then n else add_child x node_new n)"
  define c where "c = (case get_child n x of Some c \<Rightarrow> c | None \<Rightarrow> node_new)"
  have gm: "the (get_child m x) = c"
    by (auto simp: m_def c_def has_child_def)
  have ok: "trie_ok c"
    using trie_ok_get_child(1) [OF Cons.prems(1)] by (auto simp: c_def split: option.splits)
  have leaf: "children c = []" if "x = []"
    using that trie_ok_get_child(2) [OF Cons.prems(1)]
    by (auto simp: c_def node_new_def split: option.splits)
  have xs: "x = [] \<Longrightarrow> xs = []" and "path_ok xs"
    using Cons.prems(2) by (auto simp: path_ok_def split: if_splits)
  then have "trie_ok (insert_path xs v c)" using Cons.IH ok by simp
  moreover have "add_child x d m = add_child x d n" for d
    by (simp add: m_def add_child_def)
  moreover have "x = [] \<Longrightarrow> children (insert_path xs v c) = [] \<and> node_data (insert_path xs v c) \<noteq> None"
    using xs leaf by simp
  ultimately show ?case
    using Cons.prems(1) gm by (simp add: m_def [symmetric] Let_def trie_ok_add_child)
qed

section \<open>Searching\<close>

text \<open>\<open>srch\<close>: the value that \<^verbatim>\<open>search_inner\<close> finds, on the labels from the top-level domain down.\<close>

definition srch :: "'a node \<Rightarrow> string list \<Rightarrow> 'a option" where
  "srch n ps = Option.bind (search_inner n (rev ps)) node_data"

lemma srch_Nil [simp]: "srch n [] = node_data n"
  by (simp add: srch_def search_inner.simps)

lemma srch_Cons:
  "srch n (p # ps) =
    (case Option.bind (get_child n p) (\<lambda>c. srch c ps) of
       Some v \<Rightarrow> Some v
     | None \<Rightarrow>
         (case Option.bind (get_child n WILDCARD) (\<lambda>c. srch c ps) of
            Some v \<Rightarrow> Some v
          | None \<Rightarrow> Option.bind (get_child n DOT_WILDCARD) node_data))"
  unfolding srch_def by (subst search_inner.simps) (auto split: Option.bind_split option.split)

text \<open>When a stored path covers a queried one, and which of two such paths is the better one.\<close>

fun path_matches :: "string list \<Rightarrow> string list \<Rightarrow> bool" where
  "path_matches [] ps \<longleftrightarrow> ps = []"
| "path_matches (x # xs) [] \<longleftrightarrow> False"
| "path_matches (x # xs) (p # ps) \<longleftrightarrow>
    x = DOT_WILDCARD \<and> xs = [] \<or> (x = p \<or> x = WILDCARD) \<and> path_matches xs ps"

definition rank :: "string \<Rightarrow> string \<Rightarrow> nat" where
  "rank p x = (if x = p then 0 else if x = WILDCARD then 1 else 2)"

fun preferred :: "string list \<Rightarrow> string list \<Rightarrow> string list \<Rightarrow> bool" where
  "preferred (p # ps) (x # xs) (y # ys) \<longleftrightarrow> (if x = y then preferred ps xs ys else rank p x < rank p y)"
| "preferred _ _ _ \<longleftrightarrow> True"

lemma lookup_dot:
  "trie_ok n \<Longrightarrow> lookup n (DOT_WILDCARD # xs) \<noteq> None \<longleftrightarrow> xs = [] \<and> get_child n DOT_WILDCARD \<noteq> None"
proof (cases "get_child n DOT_WILDCARD")
  case (Some c)
  assume "trie_ok n"
  from trie_ok_get_child(2) [OF this Some] have "children c = []" "node_data c \<noteq> None"
    by (simp_all add: DOT_WILDCARD_def)
  with Some show ?thesis by (cases xs) (simp_all add: get_child_def [of c])
qed simp

lemma srch_complete:
  "trie_ok n \<Longrightarrow> [] \<notin> set ps \<Longrightarrow> lookup n path \<noteq> None \<Longrightarrow> path_matches path ps \<Longrightarrow> srch n ps \<noteq> None"
proof (induction path ps arbitrary: n rule: path_matches.induct)
  case (3 x xs p ps)
  show ?case
  proof (cases "x = DOT_WILDCARD \<and> xs = []")
    case True
    with 3 show ?thesis by (auto simp: srch_Cons split: option.split)
  next
    case False
    obtain c where c: "get_child n x = Some c" "lookup c xs \<noteq> None"
      using 3 by (cases "get_child n x") auto
    with False 3 have "srch c ps \<noteq> None" using trie_ok_get_child(1) [of n x c] by auto
    with c False 3 show ?thesis by (auto simp: srch_Cons split: option.split)
  qed
qed auto

lemma path_matches_ConsE:
  assumes "path_matches q (p # ps)"
  obtains (dot) "q = [DOT_WILDCARD]"
  | (label) y ys where "q = y # ys" "y = p \<or> y = WILDCARD" "path_matches ys ps"
  using assms by (cases q) auto

lemma srch_child_None:
  assumes "trie_ok n" and "[] \<notin> set ps" and "Option.bind (get_child n y) (\<lambda>c. srch c ps) = None"
    and "path_matches ys ps"
  shows "lookup n (y # ys) = None"
proof (cases "get_child n y")
  case (Some c)
  then have "trie_ok c" "srch c ps = None" using assms trie_ok_get_child by auto
  with srch_complete [of c ps ys] assms(2,4) have "lookup c ys = None" by blast
  with Some show ?thesis by simp
qed simp

lemma srch_sound:
  "trie_ok n \<Longrightarrow> [] \<notin> set ps \<Longrightarrow> srch n ps = Some v \<Longrightarrow>
   \<exists>path. lookup n path = Some v \<and> path_matches path ps \<and>
     (\<forall>q. lookup n q \<noteq> None \<longrightarrow> path_matches q ps \<longrightarrow> preferred ps path q)"
proof (induction ps arbitrary: n)
  case Nil
  then show ?case by (auto intro!: exI [of _ "[]"])
next
  case (Cons p ps)
  let ?sub = "\<lambda>y. Option.bind (get_child n y) (\<lambda>c. srch c ps)"
  have ps: "[] \<notin> set ps" "p \<noteq> []" using Cons.prems(2) by auto
  have sub: "\<exists>path. lookup n path = Some v \<and> path_matches path (p # ps) \<and>
      (\<forall>q. lookup n q \<noteq> None \<longrightarrow> path_matches q (p # ps) \<longrightarrow> preferred (p # ps) path q)"
    if x: "?sub x = Some v" "x = p \<or> x = WILDCARD \<and> ?sub p = None" for x
  proof -
    obtain c where c: "get_child n x = Some c" "srch c ps = Some v"
      using x(1) by (auto simp: Option.bind_eq_Some_conv)
    then obtain path where path: "lookup c path = Some v" "path_matches path ps"
      "\<forall>q. lookup c q \<noteq> None \<longrightarrow> path_matches q ps \<longrightarrow> preferred ps path q"
      using Cons.IH [of c] trie_ok_get_child(1) [OF Cons.prems(1)] ps(1) by blast
    have "preferred (p # ps) (x # path) q" if q: "lookup n q \<noteq> None" "path_matches q (p # ps)" for q
      using q(2)
    proof (cases rule: path_matches_ConsE)
      case dot
      then show ?thesis using x(2) ps(2) by (auto simp: rank_def DOT_WILDCARD_def WILDCARD_def)
    next
      case (label y ys)
      have "\<not> (y = p \<and> x \<noteq> p)"
        using srch_child_None [OF Cons.prems(1) ps(1) _ label(3), of p] x(2) q(1) label(1) by auto
      then show ?thesis using label path(3) c(1) q(1) x(2) by (auto simp: rank_def)
    qed
    moreover have "path_matches (x # path) (p # ps)" using x(2) path(2) by auto
    moreover have "lookup n (x # path) = Some v" using c path by simp
    ultimately show ?thesis by blast
  qed
  show ?case
  proof (cases "?sub p")
    case (Some w)
    then show ?thesis using sub [of p] Cons.prems(3) by (simp add: srch_Cons)
  next
    case p: None
    show ?thesis
    proof (cases "?sub WILDCARD")
      case (Some w)
      then show ?thesis using sub [of WILDCARD] p Cons.prems(3) by (simp add: srch_Cons)
    next
      case None
      have "lookup n [DOT_WILDCARD] = Some v" using Cons.prems(3) p None by (simp add: srch_Cons)
      moreover have "q = [DOT_WILDCARD]" if q: "lookup n q \<noteq> None" "path_matches q (p # ps)" for q
        using q(2)
      proof (cases rule: path_matches_ConsE)
        case (label y ys)
        then show ?thesis using srch_child_None [OF Cons.prems(1) ps(1) _ label(3)] p None q(1) by auto
      qed
      moreover have "preferred (p # ps) [DOT_WILDCARD] [DOT_WILDCARD]" by simp
      moreover have "path_matches [DOT_WILDCARD] (p # ps)" by simp
      ultimately show ?thesis by metis
    qed
  qed
qed

section \<open>Patterns\<close>

definition label_matches :: "string \<Rightarrow> string \<Rightarrow> bool" where
  "label_matches x p \<longleftrightarrow> x = p \<or> x = WILDCARD"

text \<open>
  What a pattern means: \<^verbatim>\<open>+.rest\<close> covers \<^verbatim>\<open>rest\<close> and every domain below it, \<^verbatim>\<open>.rest\<close>
  every domain strictly below it, anything else the domains with the same number of labels;
  a label \<^verbatim>\<open>*\<close> of the pattern stands for any label.
\<close>

definition labels_match :: "string list \<Rightarrow> string list \<Rightarrow> bool" where
  "labels_match pat dl \<longleftrightarrow>
    (if pat \<noteq> [] \<and> hd pat = COMPLEX_WILDCARD
     then \<exists>us vs. dl = us @ vs \<and> list_all2 label_matches (tl pat) vs
     else if pat \<noteq> [] \<and> hd pat = DOT_WILDCARD
     then \<exists>us vs. dl = us @ vs \<and> us \<noteq> [] \<and> list_all2 label_matches (tl pat) vs
     else list_all2 label_matches pat dl)"

definition domain_query :: "string \<Rightarrow> string list option" where
  "domain_query d =
    (case valid_and_split_domain d of
       Some parts \<Rightarrow> if parts ! 0 = [] then None else Some parts
     | None \<Rightarrow> None)"

definition pattern_matches :: "string \<Rightarrow> string \<Rightarrow> bool" where
  "pattern_matches pat d \<longleftrightarrow>
    (case (valid_and_split_domain pat, domain_query d) of
       (Some pl, Some dl) \<Rightarrow> labels_match pl dl
     | _ \<Rightarrow> False)"

definition pattern_paths :: "string \<Rightarrow> string list set" where
  "pattern_paths pat =
    (case valid_and_split_domain pat of
       None \<Rightarrow> {}
     | Some parts \<Rightarrow>
         if parts ! 0 = COMPLEX_WILDCARD then {rev (tl parts), rev (DOT_WILDCARD # tl parts)}
         else {rev parts})"

lemma valid_parts:
  assumes "valid_and_split_domain d = Some parts"
  shows "parts \<noteq> []" and "[] \<notin> set (tl parts)"
proof -
  show "parts \<noteq> []"
    using assms by (auto simp: valid_and_split_domain_def Let_def split: if_splits)
  have "length parts = 1 \<Longrightarrow> tl parts = []" by (cases parts) auto
  then show "[] \<notin> set (tl parts)"
    using assms by (auto simp: valid_and_split_domain_def Let_def drop_Suc split: if_splits)
qed

lemma domain_query_parts: "domain_query d = Some ps \<Longrightarrow> ps \<noteq> [] \<and> [] \<notin> set ps"
  using valid_parts [of d]
  by (cases ps) (fastforce simp: domain_query_def split: option.splits if_splits)+

lemma path_matches_plain:
  "[] \<notin> set xs \<Longrightarrow> path_matches xs ps \<longleftrightarrow> list_all2 label_matches xs ps"
  by (induction xs ps rule: path_matches.induct) (auto simp: label_matches_def DOT_WILDCARD_def)

lemma path_matches_dot:
  "[] \<notin> set xs \<Longrightarrow>
   path_matches (xs @ [DOT_WILDCARD]) ps \<longleftrightarrow>
     (\<exists>us vs. ps = us @ vs \<and> vs \<noteq> [] \<and> list_all2 label_matches xs us)"
proof (induction xs arbitrary: ps)
  case Nil
  then show ?case by (cases ps) (auto simp: neq_Nil_conv)
next
  case (Cons x xs)
  show ?case
  proof (cases ps)
    case (Cons p qs)
    have "path_matches ((x # xs) @ [DOT_WILDCARD]) ps \<longleftrightarrow>
        label_matches x p \<and> (\<exists>us vs. qs = us @ vs \<and> vs \<noteq> [] \<and> list_all2 label_matches xs us)"
      using Cons Cons.IH [of qs] Cons.prems by (simp add: label_matches_def [of x p])
    also have "\<dots> \<longleftrightarrow> (\<exists>us vs. ps = us @ vs \<and> vs \<noteq> [] \<and> list_all2 label_matches (x # xs) us)"
      by (auto simp: Cons list_all2_Cons1 Cons_eq_append_conv)
    finally show ?thesis .
  qed simp
qed

lemma pattern_paths_match:
  assumes "domain_query d = Some ps"
  shows "pattern_matches pat d \<longleftrightarrow> (\<exists>path \<in> pattern_paths pat. path_matches path (rev ps))"
proof (cases "valid_and_split_domain pat")
  case (Some pl)
  note ne = valid_parts [OF Some] domain_query_parts [OF assms]
  obtain x xs where pl: "pl = x # xs" using ne(1) by (cases pl) auto
  have dot: "path_matches (rev xs @ [DOT_WILDCARD]) (rev ps) \<longleftrightarrow>
      (\<exists>us vs. ps = us @ vs \<and> us \<noteq> [] \<and> list_all2 label_matches xs vs)"
  proof -
    have "path_matches (rev xs @ [DOT_WILDCARD]) (rev ps) \<longleftrightarrow>
        (\<exists>us vs. rev ps = us @ vs \<and> vs \<noteq> [] \<and> list_all2 label_matches (rev xs) us)"
      using ne(2) pl by (intro path_matches_dot) simp
    also have "\<dots> \<longleftrightarrow> (\<exists>us vs. ps = us @ vs \<and> us \<noteq> [] \<and> list_all2 label_matches xs vs)"
      (is "?l \<longleftrightarrow> ?r")
    proof
      assume ?l
      then obtain us vs where "ps = rev vs @ rev us" "vs \<noteq> []" "list_all2 label_matches (rev xs) us"
        by (auto simp: rev_swap)
      then show ?r by (intro exI [of _ "rev vs"] exI [of _ "rev us"]) (simp add: list_all2_rev1)
    next
      assume ?r
      then obtain us vs where "ps = us @ vs" "us \<noteq> []" "list_all2 label_matches xs vs" by auto
      then show ?l by (intro exI [of _ "rev vs"] exI [of _ "rev us"]) simp
    qed
    finally show ?thesis .
  qed
  have plain: "path_matches (rev ys) (rev ps) \<longleftrightarrow> list_all2 label_matches ys ps" if "[] \<notin> set ys" for ys
    using that by (subst path_matches_plain) simp_all
  have lm: "pattern_matches pat d \<longleftrightarrow> labels_match pl ps"
    by (simp add: pattern_matches_def Some assms)
  consider (plus) "x = COMPLEX_WILDCARD" | (dots) "x = DOT_WILDCARD" | (lab) "x \<noteq> COMPLEX_WILDCARD" "x \<noteq> []"
    by (auto simp: DOT_WILDCARD_def)
  then show ?thesis
  proof cases
    case plus
    have "(\<exists>us vs. ps = us @ vs \<and> list_all2 label_matches xs vs) \<longleftrightarrow>
        list_all2 label_matches xs ps \<or> (\<exists>us vs. ps = us @ vs \<and> us \<noteq> [] \<and> list_all2 label_matches xs vs)"
      by (metis append_Nil)
    with plus show ?thesis
      using dot plain [of xs] ne(2) by (simp add: lm pl pattern_paths_def Some labels_match_def)
  next
    case dots
    then show ?thesis
      using dot by (simp add: lm pl pattern_paths_def Some labels_match_def COMPLEX_WILDCARD_def DOT_WILDCARD_def)
  next
    case lab
    then show ?thesis
      using plain [of pl] ne(2) by (simp add: lm pl pattern_paths_def Some labels_match_def DOT_WILDCARD_def)
  qed
qed (simp add: pattern_matches_def pattern_paths_def)

section \<open>The trie refines a list of patterns\<close>

lemma trie_insert_result: "snd (trie_insert pat v t) \<longleftrightarrow> valid_and_split_domain pat \<noteq> None"
  by (auto simp: trie_insert_def split: option.splits)

lemma lookup_trie_insert:
  "lookup (fst (trie_insert pat v t)) path = (if path \<in> pattern_paths pat then Some v else lookup t path)"
proof (cases "valid_and_split_domain pat")
  case (Some parts)
  then obtain x xs where "parts = x # xs" using valid_parts(1) [OF Some] by (cases parts) auto
  with Some show ?thesis
    by (simp add: trie_insert_def pattern_paths_def insert_inner_def lookup_insert_path)
qed (simp add: trie_insert_def pattern_paths_def)

lemma trie_ok_trie_insert: "trie_ok t \<Longrightarrow> trie_ok (fst (trie_insert pat v t))"
proof (cases "valid_and_split_domain pat")
  case (Some parts)
  assume t: "trie_ok t"
  obtain x xs where p: "parts = x # xs" using valid_parts(1) [OF Some] by (cases parts) auto
  have "[] \<notin> set xs" using valid_parts(2) [OF Some] p by simp
  then have "path_ok (rev xs)" "path_ok (rev (y # xs))" for y
    by (cases xs; auto simp: path_ok_def butlast_append)+
  with t Some p show ?thesis
    by (simp add: trie_insert_def insert_inner_def trie_ok_insert_path)
qed (simp add: trie_insert_def)

definition search_data :: "'a node \<Rightarrow> string \<Rightarrow> 'a option" where
  "search_data t d = Option.bind (trie_search t d) get_data"

lemma trie_search_data: "trie_search t d \<noteq> None \<longleftrightarrow> search_data t d \<noteq> None"
  by (cases "trie_search t d")
    (auto simp: search_data_def trie_search_def get_data_def split: option.splits if_splits Option.bind_splits)

lemma search_data_srch:
  "search_data t d = (case domain_query d of None \<Rightarrow> None | Some ps \<Rightarrow> srch t (rev ps))"
  by (auto simp: search_data_def trie_search_def domain_query_def srch_def get_data_def
      split: option.splits Option.bind_splits)

lemma search_data_None_iff:
  assumes "trie_ok t" and "domain_query d = Some ps"
  shows "search_data t d \<noteq> None \<longleftrightarrow> (\<exists>path. lookup t path \<noteq> None \<and> path_matches path (rev ps))"
proof -
  have ps: "[] \<notin> set (rev ps)" using domain_query_parts [OF assms(2)] by simp
  from srch_complete [OF assms(1) ps] srch_sound [OF assms(1) ps] show ?thesis
    by (auto simp: search_data_srch assms(2)) blast+
qed

lemma search_data_insert:
  assumes "trie_ok t"
  shows "search_data (fst (trie_insert pat v t)) d \<noteq> None \<longleftrightarrow> pattern_matches pat d \<or> search_data t d \<noteq> None"
proof (cases "domain_query d")
  case None
  then show ?thesis by (simp add: search_data_srch pattern_matches_def split: option.splits)
next
  case (Some ps)
  show ?thesis
    unfolding search_data_None_iff [OF trie_ok_trie_insert [OF assms] Some]
      search_data_None_iff [OF assms Some] pattern_paths_match [OF Some] lookup_trie_insert
    by auto
qed

lemma search_data_new [simp]: "search_data node_new d = None"
  by (auto simp: search_data_srch srch_def node_new_def search_inner.simps get_child_def
      dest!: domain_query_parts split: option.splits)

text \<open>
  What the clients of a domain index rely on: an empty index contains nothing and inserting a
  pattern adds exactly the domains it covers. The clients need no more than the derived fact on
  an index built from a list.
\<close>

locale domain_index =
  fixes index_empty :: "'i" and index_add :: "'p \<Rightarrow> 'i \<Rightarrow> 'i" and index_has :: "'i \<Rightarrow> 'q \<Rightarrow> bool"
    and covers :: "'p \<Rightarrow> 'q \<Rightarrow> bool" and index_ok :: "'i \<Rightarrow> bool"
  assumes empty_ok: "index_ok index_empty"
    and add_ok: "index_ok i \<Longrightarrow> index_ok (index_add pat i)"
    and has_empty: "\<not> index_has index_empty d"
    and has_add: "index_ok i \<Longrightarrow> index_has (index_add pat i) d \<longleftrightarrow> covers pat d \<or> index_has i d"
begin

lemma fold_ok: "index_ok i \<Longrightarrow> index_ok (fold index_add pats i)"
  by (induction pats arbitrary: i) (simp_all add: add_ok)

lemma has_fold:
  "index_ok i \<Longrightarrow> index_has (fold index_add pats i) d \<longleftrightarrow> list_ex (\<lambda>pat. covers pat d) pats \<or> index_has i d"
  by (induction pats arbitrary: i) (auto simp: has_add add_ok)

lemma has_build: "index_has (fold index_add pats index_empty) d \<longleftrightarrow> list_ex (\<lambda>pat. covers pat d) pats"
  by (simp add: has_fold empty_ok has_empty)

lemma build_order: "set pats = set pats' \<Longrightarrow>
    index_has (fold index_add pats index_empty) d \<longleftrightarrow> index_has (fold index_add pats' index_empty) d"
  by (simp add: has_build list_ex_iff)

end

definition trie_has :: "'a node \<Rightarrow> string \<Rightarrow> bool" where
  "trie_has t d \<longleftrightarrow> trie_search t d \<noteq> None"

lemma trie_has_data: "trie_has t d \<longleftrightarrow> search_data t d \<noteq> None"
  unfolding trie_has_def by (rule trie_search_data)

interpretation trie_index: domain_index node_new "\<lambda>pat t. fst (trie_insert pat v t)"
  trie_has pattern_matches trie_ok for v
  by unfold_locales
    (simp_all add: trie_ok_trie_insert trie_has_data search_data_insert del: not_None_eq)

text \<open>The trie that inserting a list of patterns with their values builds.\<close>

definition trie_build :: "(string \<times> 'a) list \<Rightarrow> 'a node" where
  "trie_build items = fold (\<lambda>(pat, v) t. fst (trie_insert pat v t)) items node_new"

lemma trie_build_ok: "trie_ok (trie_build items)"
proof -
  have "trie_ok t \<Longrightarrow> trie_ok (fold (\<lambda>(pat, v) t. fst (trie_insert pat v t)) items t)" for t
    by (induction items arbitrary: t) (auto simp: trie_ok_trie_insert)
  then show ?thesis by (simp add: trie_build_def)
qed

lemma trie_build_snoc: "trie_build (items @ [(pat, v)]) = fst (trie_insert pat v (trie_build items))"
  by (simp add: trie_build_def)

text \<open>The value at a path is that of the last pattern inserted there.\<close>

lemma lookup_trie_build:
  "lookup (trie_build items) path = Some v \<longleftrightarrow>
    (\<exists>xs pat ys. items = xs @ (pat, v) # ys \<and> path \<in> pattern_paths pat \<and>
      (\<forall>it \<in> set ys. path \<notin> pattern_paths (fst it)))"
proof (induction items arbitrary: v rule: rev_induct)
  case Nil
  then show ?case by (simp add: trie_build_def)
next
  case (snoc it items)
  obtain pat w where it: "it = (pat, w)" by (cases it)
  show ?case
  proof (cases "path \<in> pattern_paths pat")
    case True
    have "(\<exists>xs p ys. items @ [it] = xs @ (p, v) # ys \<and> path \<in> pattern_paths p \<and>
        (\<forall>i \<in> set ys. path \<notin> pattern_paths (fst i))) \<longleftrightarrow> w = v" (is "?E \<longleftrightarrow> _")
    proof
      assume ?E
      then obtain xs p ys where e: "items @ [it] = xs @ (p, v) # ys" "\<forall>i \<in> set ys. path \<notin> pattern_paths (fst i)"
        by blast
      then show "w = v" using True it by (cases ys rule: rev_cases) auto
    next
      assume "w = v"
      then show ?E using True it by (intro exI [of _ items] exI [of _ pat] exI [of _ "[]"]) simp
    qed
    with True show ?thesis by (simp add: it trie_build_snoc lookup_trie_insert)
  next
    case False
    have "(\<exists>xs p ys. items @ [it] = xs @ (p, v) # ys \<and> path \<in> pattern_paths p \<and>
        (\<forall>i \<in> set ys. path \<notin> pattern_paths (fst i))) \<longleftrightarrow>
        (\<exists>xs p ys. items = xs @ (p, v) # ys \<and> path \<in> pattern_paths p \<and>
        (\<forall>i \<in> set ys. path \<notin> pattern_paths (fst i)))" (is "?E \<longleftrightarrow> ?F")
    proof
      assume ?E
      then obtain xs p ys where e: "items @ [it] = xs @ (p, v) # ys" "path \<in> pattern_paths p"
        "\<forall>i \<in> set ys. path \<notin> pattern_paths (fst i)" by blast
      then show ?F using False it by (cases ys rule: rev_cases) auto
    next
      assume ?F
      then obtain xs p ys where "items = xs @ (p, v) # ys" "path \<in> pattern_paths p"
        "\<forall>i \<in> set ys. path \<notin> pattern_paths (fst i)" by blast
      then show ?E using False it by (intro exI [of _ xs] exI [of _ p] exI [of _ "ys @ [it]"]) auto
    qed
    with False snoc show ?thesis by (simp add: it trie_build_snoc lookup_trie_insert)
  qed
qed

lemma lookup_trie_build_dom:
  "lookup (trie_build items) path \<noteq> None \<longleftrightarrow> (\<exists>it \<in> set items. path \<in> pattern_paths (fst it))"
proof (induction items rule: rev_induct)
  case (snoc it items)
  then show ?case by (cases it) (auto simp: trie_build_snoc lookup_trie_insert)
qed (simp add: trie_build_def)

section \<open>Properties\<close>

text \<open>
  C15. A domain is found in a trie exactly when it is a valid domain and one of the inserted
  patterns covers it, in whatever order the patterns were inserted; invalid patterns add nothing.
\<close>

theorem trie_contains:
  "trie_search (trie_build items) d \<noteq> None \<longleftrightarrow> (\<exists>it \<in> set items. pattern_matches (fst it) d)"
proof (cases "domain_query d")
  case None
  then show ?thesis
    by (auto simp: trie_search_def domain_query_def pattern_matches_def split: option.splits if_splits)
next
  case (Some ps)
  have "trie_search (trie_build items) d \<noteq> None \<longleftrightarrow> search_data (trie_build items) d \<noteq> None"
    by (rule trie_search_data)
  also have "\<dots> \<longleftrightarrow> (\<exists>path. (\<exists>it \<in> set items. path \<in> pattern_paths (fst it)) \<and> path_matches path (rev ps))"
    unfolding search_data_None_iff [OF trie_build_ok Some] lookup_trie_build_dom ..
  also have "\<dots> \<longleftrightarrow> (\<exists>it \<in> set items. pattern_matches (fst it) d)"
    unfolding pattern_paths_match [OF Some] by blast
  finally show ?thesis .
qed

theorem trie_contains_witness:
  "trie_search (trie_build [(''+.foo.com'', ())]) ''www.foo.com'' \<noteq> None"
proof -
  have "valid_and_split_domain ''+.foo.com'' = Some [''+'', ''foo'', ''com'']"
    "domain_query ''www.foo.com'' = Some [''www'', ''foo'', ''com'']" by code_simp+
  then have "pattern_matches ''+.foo.com'' ''www.foo.com''"
    by (simp add: pattern_matches_def labels_match_def COMPLEX_WILDCARD_def label_matches_def)
      (rule exI [of _ "[''www'']"], rule exI [of _ "[''foo'', ''com'']"], simp add: label_matches_def)
  then show ?thesis using trie_contains [of "[(''+.foo.com'', ())]" "''www.foo.com''"] by simp
qed

text \<open>
  C5. The value a search finds is that of a stored path that covers the domain and is preferred
  to every other covering path, comparing label by label from the top-level domain: the exact
  label before \<^verbatim>\<open>*\<close> before the dot wildcard; when several patterns store the same path, the
  last one inserted counts.
\<close>

theorem trie_search_best:
  assumes "domain_query d = Some labels" and "search_data (trie_build items) d = Some v"
  shows "\<exists>path xs pat ys.
    items = xs @ (pat, v) # ys \<and> path \<in> pattern_paths pat \<and>
    (\<forall>it \<in> set ys. path \<notin> pattern_paths (fst it)) \<and>
    path_matches path (rev labels) \<and>
    (\<forall>it \<in> set items. \<forall>q \<in> pattern_paths (fst it).
       path_matches q (rev labels) \<longrightarrow> preferred (rev labels) path q)"
proof -
  have ne: "[] \<notin> set (rev labels)" using domain_query_parts [OF assms(1)] by simp
  have found: "srch (trie_build items) (rev labels) = Some v"
    using assms by (simp add: search_data_srch)
  from srch_sound [OF trie_build_ok ne found] obtain path where
    path: "lookup (trie_build items) path = Some v" "path_matches path (rev labels)"
    and best: "\<forall>q. lookup (trie_build items) q \<noteq> None \<longrightarrow> path_matches q (rev labels) \<longrightarrow> preferred (rev labels) path q"
    by (elim exE conjE) (rule that)
  from path(1) [unfolded lookup_trie_build] obtain xs pat ys where
    1: "items = xs @ (pat, v) # ys" and 2: "path \<in> pattern_paths pat"
    and 3: "\<forall>it \<in> set ys. path \<notin> pattern_paths (fst it)"
    by (elim exE conjE) (rule that)
  have 4: "\<forall>it \<in> set items. \<forall>q \<in> pattern_paths (fst it). path_matches q (rev labels) \<longrightarrow> preferred (rev labels) path q"
    using best [unfolded lookup_trie_build_dom] by blast
  show ?thesis by (intro exI conjI) (rule 1 2 3 4 path(2))+
qed

theorem trie_search_best_witness:
  "search_data (trie_build [(''*.io'', 0 :: nat), (''a.io'', 1)]) ''a.io'' = Some 1 \<and>
   (\<exists>path xs pat ys.
     [(''*.io'', 0 :: nat), (''a.io'', 1)] = xs @ (pat, 1) # ys \<and> path \<in> pattern_paths pat \<and>
     (\<forall>it \<in> set ys. path \<notin> pattern_paths (fst it)) \<and>
     path_matches path (rev [''a'', ''io'']) \<and>
     (\<forall>it \<in> set [(''*.io'', 0 :: nat), (''a.io'', 1)]. \<forall>q \<in> pattern_paths (fst it).
       path_matches q (rev [''a'', ''io'']) \<longrightarrow> preferred (rev [''a'', ''io'']) path q))"
proof -
  have "domain_query ''a.io'' = Some [''a'', ''io'']" by code_simp
  moreover have "search_data (trie_build [(''*.io'', 0 :: nat), (''a.io'', 1)]) ''a.io'' = Some 1"
    by code_simp
  ultimately show ?thesis by (intro conjI) (assumption, rule trie_search_best)
qed

end
