(* ===== verification/Rules.thy ===== *)
theory Rules
  imports Rule_Config Trie
begin

text \<open>
  Model of the rule matchers, \<^verbatim>\<open>src/clash-lib/src/app/router/rules/*\<close>: one constructor per
  implementation of the \<^verbatim>\<open>RuleMatcher\<close> trait and one function per method of the trait, with the
  geosite matcher (\<^verbatim>\<open>rules/geodata\<close>) built on the domain trie. Parameters: the network and
  expression crates (\<open>net_lib\<close>), the country database (a lookup function inside the matcher), the
  process table (\<open>find_process\<close>) and what the rule providers answer at the time (\<open>providers\<close>).
  \<^verbatim>\<open>to_lowercase\<close> is modelled on ASCII letters only.
\<close>

section \<open>Geosite data\<close>

text \<open>The messages of \<^verbatim>\<open>common/geodata/geodata.proto\<close>; only the key of an attribute is read.\<close>

record geo_domain =
  geo_type :: int
  geo_value :: string
  geo_attribute :: "string list"

record geo_site =
  geo_code :: string
  geo_domains :: "geo_domain list"

datatype geo_kind = Plain | Regex | DomainType | Full

text \<open>\<^verbatim>\<open>GeoData::get\<close>: the first entry whose code is equal up to ASCII case.\<close>

definition geodata_get :: "geo_site list \<Rightarrow> string \<Rightarrow> geo_site option" where
  "geodata_get entries code = find (\<lambda>x. eq_ignore_ascii_case (geo_code x) code) entries"

text \<open>\<^verbatim>\<open>Type::try_from\<close> of the generated code: the numbers of the enumeration.\<close>

definition geo_kind_of :: "int \<Rightarrow> geo_kind option" where
  "geo_kind_of t =
    (if t = 0 then Some Plain else if t = 1 then Some Regex
     else if t = 2 then Some DomainType else if t = 3 then Some Full else None)"

section \<open>Attribute matchers\<close>

definition boolean_attr_matches :: "string \<Rightarrow> geo_domain \<Rightarrow> bool" where
  "boolean_attr_matches a d = list_ex (\<lambda>k. eq_ignore_ascii_case k a) (geo_attribute d)"

fun and_attr_matches :: "string list \<Rightarrow> geo_domain \<Rightarrow> bool" where
  "and_attr_matches [] d = True"
| "and_attr_matches (m # ms) d = (if \<not> boolean_attr_matches m d then False else and_attr_matches ms d)"

section \<open>String matchers\<close>

datatype 'r str_matcher =
    FullMatcher string
  | SubStrMatcher string
  | DomainMatcher string
  | RegexMatcher 'r

text \<open>\<^verbatim>\<open>DomainMatcher\<close> computes the index before the suffix in \<^verbatim>\<open>i32\<close>; lengths fit it.\<close>

definition domain_matcher_matches :: "string \<Rightarrow> string \<Rightarrow> bool" where
  "domain_matcher_matches pattern url =
    (if \<not> suffix pattern url then False
     else if length pattern = length url then True
     else
       let prefix_idx_end = int (length url) - int (length pattern) - 1 in
       if prefix_idx_end < 0 then False
       else url ! nat prefix_idx_end = CHR ''.'')"

fun str_matches :: "('n, 'r) net_lib \<Rightarrow> 'r str_matcher \<Rightarrow> string \<Rightarrow> bool" where
  "str_matches lib (FullMatcher s) url = (s = url)"
| "str_matches lib (SubStrMatcher s) url = sublist s url"
| "str_matches lib (DomainMatcher s) url = domain_matcher_matches s url"
| "str_matches lib (RegexMatcher r) url = regex_is_match lib r url"

definition try_new_matcher :: "('n, 'r) net_lib \<Rightarrow> string \<Rightarrow> geo_kind \<Rightarrow> 'r str_matcher result" where
  "try_new_matcher lib d t =
    (case t of
       Plain \<Rightarrow> Ok (SubStrMatcher d)
     | Regex \<Rightarrow>
         (case regex_new lib d of
            Inl e \<Rightarrow> Err (InvalidConfig (''invalid regex: '' @ e))
          | Inr r \<Rightarrow> Ok (RegexMatcher r))
     | DomainType \<Rightarrow> Ok (DomainMatcher d)
     | Full \<Rightarrow> Ok (FullMatcher d))"

section \<open>Matcher groups\<close>

record 'r matcher_group =
  group_set :: "unit node"
  other_matchers :: "'r str_matcher list"
  group_not :: bool

definition group_add ::
  "('n, 'r) net_lib \<Rightarrow> geo_domain \<Rightarrow> 'r matcher_group \<Rightarrow> 'r matcher_group result" where
  "group_add lib d g =
    (case geo_kind_of (geo_type d) of
       None \<Rightarrow> Err (InvalidConfig ''invalid domain type'')
     | Some t \<Rightarrow>
         if t = Plain \<or> t = Regex then
           bind_result (try_new_matcher lib (geo_value d) t) (\<lambda>m.
             Ok (g \<lparr> other_matchers := other_matchers g @ [m] \<rparr>))
         else if t = DomainType then
           Ok (g \<lparr> group_set := fst (trie_insert (''+.'' @ geo_value d) () (group_set g)) \<rparr>)
         else
           Ok (g \<lparr> group_set := fst (trie_insert (geo_value d) () (group_set g)) \<rparr>))"

fun group_add_all ::
  "('n, 'r) net_lib \<Rightarrow> geo_domain list \<Rightarrow> 'r matcher_group \<Rightarrow> 'r matcher_group result" where
  "group_add_all lib [] g = Ok g"
| "group_add_all lib (d # ds) g = bind_result (group_add lib d g) (group_add_all lib ds)"

definition group_try_new ::
  "('n, 'r) net_lib \<Rightarrow> geo_domain list \<Rightarrow> bool \<Rightarrow> 'r matcher_group result" where
  "group_try_new lib domains neg =
    group_add_all lib domains \<lparr> group_set = node_new, other_matchers = [], group_not = neg \<rparr>"

definition group_apply :: "('n, 'r) net_lib \<Rightarrow> 'r matcher_group \<Rightarrow> string \<Rightarrow> bool" where
  "group_apply lib g d =
    (let is_matched =
       (if trie_search (group_set g) d \<noteq> None then True
        else list_ex (\<lambda>m. str_matches lib m d) (other_matchers g))
     in if group_not g then \<not> is_matched else is_matched)"

text \<open>\<^verbatim>\<open>parse\<close> of a geosite code: negation, code and the attributes after the at sign.\<close>

definition geosite_parse :: "string \<Rightarrow> (bool \<times> string \<times> string list) option" where
  "geosite_parse code0 =
    (let code = to_ascii_lowercase (str_trim code0) in
     if code = [] then None
     else
       let neg = (hd code = CHR ''!'');
           code = (if neg then tl code else code);
           parts = str_split (CHR ''@'') code;
           attrs = (if 1 < length parts then str_split (CHR '','') (parts ! 1) else [])
       in Some (neg, parts ! 0, attrs))"

definition geosite_new ::
  "('n, 'r) net_lib \<Rightarrow> geo_site list option \<Rightarrow> string \<Rightarrow> 'r matcher_group result" where
  "geosite_new lib loader code0 =
    (case geosite_parse code0 of
       None \<Rightarrow> Err (InvalidConfig ''invalid geosite matcher, country code is empty'')
     | Some (neg, code, attrs) \<Rightarrow>
         (case loader of
            None \<Rightarrow> Err (InvalidConfig ''GeoDataLookup is not available. Maybe config.geosite is not set?'')
          | Some entries \<Rightarrow>
              (case geodata_get entries code of
                 None \<Rightarrow> Err (InvalidConfig (''geosite matcher, country code '' @ code @ '' not found''))
               | Some lst \<Rightarrow>
                   group_try_new lib (filter (and_attr_matches attrs) (geo_domains lst)) neg)))"

section \<open>Matchers\<close>

datatype ('n, 'r) rule_matcher =
    MDomain string string
  | MDomainSuffix string string
  | MDomainRegex 'r string
  | MDomainKeyword string string
  | MGeoIP string string bool "(ip_addr \<Rightarrow> string option) option"
  | MGeoSite string string "'r matcher_group"
  | MIpCidr 'n string bool bool
  | MPort u16 string bool
  | MProcess string string bool
  | MRuleSet string string
  | MFinal string
  | MNetwork network string

text \<open>What the matchers read of the world when they are applied.\<close>

record ('n, 'r) match_env =
  env_lib :: "('n, 'r) net_lib"
  find_process :: "socket_addr option \<Rightarrow> socket_addr option \<Rightarrow> network \<Rightarrow> string option"
  providers :: "string \<Rightarrow> session \<Rightarrow> bool result"

definition session_ip :: "session \<Rightarrow> ip_addr option" where
  "session_ip sess = (case resolved_ip sess of Some i \<Rightarrow> Some i | None \<Rightarrow> socks_ip (destination sess))"

definition suffix_apply :: "string \<Rightarrow> string \<Rightarrow> bool" where
  "suffix_apply sfx d \<longleftrightarrow> suffix (CHR ''.'' # sfx) d \<or> d = sfx"

text \<open>\<^verbatim>\<open>apply\<close> of each kind of rule.\<close>

definition domain_apply :: "string \<Rightarrow> session \<Rightarrow> bool" where
  "domain_apply nm sess = (case destination sess of Ip _ \<Rightarrow> False | Domain d _ \<Rightarrow> nm = d)"

definition domain_suffix_apply :: "string \<Rightarrow> session \<Rightarrow> bool" where
  "domain_suffix_apply sfx sess = (case destination sess of Ip _ \<Rightarrow> False | Domain d _ \<Rightarrow> suffix_apply sfx d)"

definition domain_regex_apply :: "('n, 'r) net_lib \<Rightarrow> 'r \<Rightarrow> session \<Rightarrow> bool" where
  "domain_regex_apply lib r sess = (case destination sess of Ip _ \<Rightarrow> False | Domain d _ \<Rightarrow> regex_is_match lib r d)"

definition domain_keyword_apply :: "string \<Rightarrow> session \<Rightarrow> bool" where
  "domain_keyword_apply kw sess = (case destination sess of Ip _ \<Rightarrow> False | Domain d _ \<Rightarrow> sublist kw d)"

definition geoip_apply :: "(ip_addr \<Rightarrow> string option) option \<Rightarrow> string \<Rightarrow> session \<Rightarrow> bool" where
  "geoip_apply mmdb code sess =
    (case session_ip sess of
       None \<Rightarrow> False
     | Some ip \<Rightarrow>
         (case mmdb of
            Some lookup_country \<Rightarrow>
              (case lookup_country ip of Some c \<Rightarrow> c = code | None \<Rightarrow> False)
          | None \<Rightarrow> False))"

definition geosite_apply :: "('n, 'r) net_lib \<Rightarrow> 'r matcher_group \<Rightarrow> session \<Rightarrow> bool" where
  "geosite_apply lib g sess = (case destination sess of Ip _ \<Rightarrow> False | Domain d _ \<Rightarrow> group_apply lib g d)"

definition ipcidr_apply :: "('n, 'r) net_lib \<Rightarrow> 'n \<Rightarrow> bool \<Rightarrow> session \<Rightarrow> bool" where
  "ipcidr_apply lib n match_src sess =
    (if match_src then net_contains lib n (socket_ip (source sess))
     else case session_ip sess of Some ip \<Rightarrow> net_contains lib n ip | None \<Rightarrow> False)"

definition port_apply :: "u16 \<Rightarrow> bool \<Rightarrow> session \<Rightarrow> bool" where
  "port_apply p is_src sess =
    (if is_src then socket_port (source sess) = p else socks_port (destination sess) = p)"

definition process_apply :: "('n, 'r) match_env \<Rightarrow> string \<Rightarrow> bool \<Rightarrow> session \<Rightarrow> bool result" where
  "process_apply env nm name_only sess =
    bind_result (socks_clone (destination sess)) (\<lambda>dst.
      Ok (case find_process env (Some (source sess)) (try_into_socket_addr dst) (network sess) of
            None \<Rightarrow> False
          | Some proc \<Rightarrow> if name_only then proc = nm else sublist nm proc))"

definition network_apply :: "network \<Rightarrow> session \<Rightarrow> bool" where
  "network_apply n sess \<longleftrightarrow> network sess = n"

fun matcher_apply :: "('n, 'r) match_env \<Rightarrow> ('n, 'r) rule_matcher \<Rightarrow> session \<Rightarrow> bool result" where
  "matcher_apply env (MDomain nm t) sess = Ok (domain_apply nm sess)"
| "matcher_apply env (MDomainSuffix sfx t) sess = Ok (domain_suffix_apply sfx sess)"
| "matcher_apply env (MDomainRegex r t) sess = Ok (domain_regex_apply (env_lib env) r sess)"
| "matcher_apply env (MDomainKeyword kw t) sess = Ok (domain_keyword_apply kw sess)"
| "matcher_apply env (MGeoIP t code nr mmdb) sess = Ok (geoip_apply mmdb code sess)"
| "matcher_apply env (MGeoSite t code g) sess = Ok (geosite_apply (env_lib env) g sess)"
| "matcher_apply env (MIpCidr n t match_src nr) sess = Ok (ipcidr_apply (env_lib env) n match_src sess)"
| "matcher_apply env (MPort p t is_src) sess = Ok (port_apply p is_src sess)"
| "matcher_apply env (MProcess nm t name_only) sess = process_apply env nm name_only sess"
| "matcher_apply env (MRuleSet rs t) sess = providers env rs sess"
| "matcher_apply env (MFinal t) sess = Ok True"
| "matcher_apply env (MNetwork n t) sess = Ok (network_apply n sess)"

lemmas apply_defs [simp] = domain_apply_def domain_suffix_apply_def domain_regex_apply_def
  domain_keyword_apply_def geoip_apply_def geosite_apply_def ipcidr_apply_def port_apply_def
  process_apply_def network_apply_def

fun matcher_target :: "('n, 'r) rule_matcher \<Rightarrow> string" where
  "matcher_target (MDomain _ t) = t"
| "matcher_target (MDomainSuffix _ t) = t"
| "matcher_target (MDomainRegex _ t) = t"
| "matcher_target (MDomainKeyword _ t) = t"
| "matcher_target (MGeoIP t _ _ _) = t"
| "matcher_target (MGeoSite t _ _) = t"
| "matcher_target (MIpCidr _ t _ _) = t"
| "matcher_target (MPort _ t _) = t"
| "matcher_target (MProcess _ t _) = t"
| "matcher_target (MRuleSet _ t) = t"
| "matcher_target (MFinal t) = t"
| "matcher_target (MNetwork _ t) = t"

fun matcher_payload :: "('n, 'r) net_lib \<Rightarrow> ('n, 'r) rule_matcher \<Rightarrow> string" where
  "matcher_payload lib (MDomain d _) = d"
| "matcher_payload lib (MDomainSuffix s _) = s"
| "matcher_payload lib (MDomainRegex r _) = regex_show lib r"
| "matcher_payload lib (MDomainKeyword k _) = k"
| "matcher_payload lib (MGeoIP _ c _ _) = c"
| "matcher_payload lib (MGeoSite _ c _) = c"
| "matcher_payload lib (MIpCidr n _ _ _) = net_show lib n"
| "matcher_payload lib (MPort p _ _) = show_dec (unat p)"
| "matcher_payload lib (MProcess n _ _) = n"
| "matcher_payload lib (MRuleSet s _) = s"
| "matcher_payload lib (MFinal _) = []"
| "matcher_payload lib (MNetwork n _) = network_to_string n"

fun type_name :: "('n, 'r) rule_matcher \<Rightarrow> string" where
  "type_name (MDomain _ _) = ''Domain''"
| "type_name (MDomainSuffix _ _) = ''DomainSuffix''"
| "type_name (MDomainRegex _ _) = ''DomainRegex''"
| "type_name (MDomainKeyword _ _) = ''DomainKeyword''"
| "type_name (MGeoIP _ _ _ _) = ''GeoIP''"
| "type_name (MGeoSite _ _ _) = ''GeoSite''"
| "type_name (MIpCidr _ _ _ _) = ''IPCIDR''"
| "type_name (MPort _ _ _) = ''Port''"
| "type_name (MProcess _ _ _) = ''Process''"
| "type_name (MRuleSet _ _) = ''RuleSet''"
| "type_name (MFinal _) = ''Match''"
| "type_name (MNetwork _ _) = ''Network''"

fun should_resolve_ip :: "('n, 'r) rule_matcher \<Rightarrow> bool" where
  "should_resolve_ip (MGeoIP _ _ nr _) = (\<not> nr)"
| "should_resolve_ip (MIpCidr _ _ _ nr) = (\<not> nr)"
| "should_resolve_ip _ = False"

definition matcher_as_map :: "('n, 'r) net_lib \<Rightarrow> ('n, 'r) rule_matcher \<Rightarrow> (string \<times> string) list" where
  "matcher_as_map lib m =
    [(''type'', type_name m), (''proxy'', matcher_target m), (''payload'', matcher_payload lib m)]"

section \<open>From rules to matchers\<close>

text \<open>
  \<^verbatim>\<open>map_rule_type\<close> of \<^verbatim>\<open>app/router/mod.rs\<close>. \<open>registry\<close> lists the names of the rule
  providers; inside a rule provider there is none and a nested rule set is unreachable code.
\<close>

fun map_rule_type ::
  "('n, 'r) net_lib \<Rightarrow> (ip_addr \<Rightarrow> string option) option \<Rightarrow> geo_site list option \<Rightarrow>
   string list option \<Rightarrow> ('n, 'r) rule_type \<Rightarrow> ('n, 'r) rule_matcher result" where
  "map_rule_type lib mmdb geodata registry (RuleDomain d t) = Ok (MDomain d t)"
| "map_rule_type lib mmdb geodata registry (RuleDomainRegex r t) = Ok (MDomainRegex r t)"
| "map_rule_type lib mmdb geodata registry (RuleDomainSuffix s t) = Ok (MDomainSuffix s t)"
| "map_rule_type lib mmdb geodata registry (RuleDomainKeyword k t) = Ok (MDomainKeyword k t)"
| "map_rule_type lib mmdb geodata registry (RuleIpCidr n t nr) = Ok (MIpCidr n t False nr)"
| "map_rule_type lib mmdb geodata registry (RuleSrcCidr n t nr) = Ok (MIpCidr n t True nr)"
| "map_rule_type lib mmdb geodata registry (RuleGeoIP t c nr) = Ok (MGeoIP t c nr mmdb)"
| "map_rule_type lib mmdb geodata registry (RuleGeoSite t c) =
    (case geosite_new lib geodata c of Inl _ \<Rightarrow> Err Panic | Inr g \<Rightarrow> Ok (MGeoSite t c g))"
| "map_rule_type lib mmdb geodata registry (RuleSRCPort t p) = Ok (MPort p t True)"
| "map_rule_type lib mmdb geodata registry (RuleDSTPort t p) = Ok (MPort p t False)"
| "map_rule_type lib mmdb geodata registry (RuleProcessName p t) = Ok (MProcess p t True)"
| "map_rule_type lib mmdb geodata registry (RuleProcessPath p t) = Ok (MProcess p t False)"
| "map_rule_type lib mmdb geodata registry (RuleRuleSet s t) =
    (case registry of
       Some names \<Rightarrow>
         if s \<in> set names then Ok (MRuleSet s t)
         else Err (Exit (''rule provider '' @ s @ '' not found''))
     | None \<Rightarrow> Err Panic)"
| "map_rule_type lib mmdb geodata registry (RuleMatch t) = Ok (MFinal t)"
| "map_rule_type lib mmdb geodata registry (RuleNetwork n t) = Ok (MNetwork n t)"

section \<open>Facts about matching\<close>

text \<open>The autonomous system of a session is for display; no matcher reads it.\<close>

definition providers_blind :: "('n, 'r) match_env \<Rightarrow> bool" where
  "providers_blind env \<longleftrightarrow> (\<forall>n s a. providers env n (s \<lparr> asn := a \<rparr>) = providers env n s)"

lemma session_ip_asn [simp]: "session_ip (sess \<lparr> asn := a \<rparr>) = session_ip sess"
  by (simp add: session_ip_def split: option.split)

lemma matcher_apply_asn:
  "providers_blind env \<Longrightarrow> matcher_apply env m (sess \<lparr> asn := a \<rparr>) = matcher_apply env m sess"
  by (cases m) (simp_all add: providers_blind_def)

text \<open>Matching by suffix is matching of labels from the right.\<close>

lemma suffix_dot_iff:
  "suffix (CHR ''.'' # sfx) d \<longleftrightarrow> (\<exists>ls. ls \<noteq> [] \<and> str_split (CHR ''.'') d = ls @ str_split (CHR ''.'') sfx)"
proof
  assume "suffix (CHR ''.'' # sfx) d"
  then obtain pre where "d = pre @ CHR ''.'' # sfx" by (auto simp: suffix_def)
  then have "str_split (CHR ''.'') d = str_split (CHR ''.'') pre @ str_split (CHR ''.'') sfx"
    by (simp add: str_split_append)
  then show "\<exists>ls. ls \<noteq> [] \<and> str_split (CHR ''.'') d = ls @ str_split (CHR ''.'') sfx"
    using str_split_not_Nil by blast
next
  assume "\<exists>ls. ls \<noteq> [] \<and> str_split (CHR ''.'') d = ls @ str_split (CHR ''.'') sfx"
  then obtain ls where ls: "ls \<noteq> []" "str_split (CHR ''.'') d = ls @ str_split (CHR ''.'') sfx" by blast
  then have "d = str_join (CHR ''.'') ls @ CHR ''.'' # sfx"
    using str_join_split [of "CHR ''.''" d] by (simp add: str_join_append)
  then show "suffix (CHR ''.'' # sfx) d" by (auto simp: suffix_def)
qed

lemma suffix_cases: "suffix xs ys \<longleftrightarrow> (\<exists>zs. zs \<noteq> [] \<and> ys = zs @ xs) \<or> ys = xs"
  unfolding suffix_def by (metis append_Nil)

lemma suffix_apply_labels:
  "suffix_apply sfx d \<longleftrightarrow> suffix (str_split (CHR ''.'') sfx) (str_split (CHR ''.'') d)"
  by (simp only: suffix_apply_def suffix_dot_iff suffix_cases [of "str_split c s" for c s]
      str_split_eq_split_iff)

lemma domain_matcher_suffix: "domain_matcher_matches p d \<longleftrightarrow> suffix_apply p d"
proof (cases "suffix p d")
  case True
  then obtain pre where d: "d = pre @ p" by (auto simp: suffix_def)
  show ?thesis
  proof (cases pre rule: rev_cases)
    case Nil
    with d show ?thesis by (auto simp: domain_matcher_matches_def suffix_apply_def)
  next
    case (snoc pre' c)
    then have "suffix (CHR ''.'' # p) d \<longleftrightarrow> c = CHR ''.''"
      using d by (auto simp: suffix_def)
    with d snoc True show ?thesis
      by (auto simp: domain_matcher_matches_def suffix_apply_def Let_def nth_append)
  qed
next
  case False
  then show ?thesis
    by (auto simp: domain_matcher_matches_def suffix_apply_def dest: suffix_ConsD)
qed

text \<open>A root domain of the geosite data is stored as \<^verbatim>\<open>+.value\<close>; it covers what a suffix rule does.\<close>

definition plain_labels :: "string \<Rightarrow> bool" where
  "plain_labels s \<longleftrightarrow> (\<forall>l \<in> set (str_split (CHR ''.'') s). l \<noteq> [] \<and> l \<noteq> WILDCARD)"

lemma split_last_Nil: "s \<noteq> [] \<Longrightarrow> last s = c \<Longrightarrow> [] \<in> set (str_split c s)"
proof -
  assume "s \<noteq> []" "last s = c"
  then obtain t where "s = t @ [c]" by (metis append_butlast_last_id)
  then show ?thesis using str_split_append [of c t "[]"] by simp
qed

lemma valid_split_plain:
  assumes "[] \<notin> set (str_split (CHR ''.'') s)"
  shows "valid_and_split_domain s = Some (str_split (CHR ''.'') s)"
proof -
  have "\<not> (s \<noteq> [] \<and> last s = CHR ''.'')" using split_last_Nil assms by blast
  moreover have "str_split (CHR ''.'') s ! 0 \<noteq> []"
    using assms by (cases "str_split (CHR ''.'') s") auto
  moreover have "[] \<notin> set (drop 1 (str_split (CHR ''.'') s))" using assms in_set_dropD by fast
  ultimately show ?thesis by (auto simp: valid_and_split_domain_def DOMAIN_STEP_def Let_def)
qed

lemma valid_split_plus:
  assumes "[] \<notin> set (str_split (CHR ''.'') s)"
  shows "valid_and_split_domain (''+.'' @ s) = Some (''+'' # str_split (CHR ''.'') s)"
proof -
  have "str_split (CHR ''.'') (''+.'' @ s) = ''+'' # str_split (CHR ''.'') s" by simp
  with valid_split_plain [of "''+.'' @ s"] assms show ?thesis by auto
qed

lemma plus_pattern_suffix:
  assumes "plain_labels s" and "domain_query d = Some ps"
  shows "pattern_matches (''+.'' @ s) d \<longleftrightarrow> suffix_apply s d"
proof -
  let ?ls = "str_split (CHR ''.'') s"
  have ps: "ps = str_split (CHR ''.'') d"
    using assms(2) by (auto simp: domain_query_def valid_and_split_domain_def DOMAIN_STEP_def Let_def
        split: option.splits if_splits)
  have "[] \<notin> set ?ls" using assms(1) by (auto simp: plain_labels_def)
  then have v: "valid_and_split_domain (''+.'' @ s) = Some (''+'' # ?ls)" by (rule valid_split_plus)
  have eq: "list_all2 label_matches ?ls vs \<longleftrightarrow> ?ls = vs" for vs
  proof -
    have "list_all2 label_matches ?ls vs \<longleftrightarrow> list_all2 (=) ?ls vs"
      using assms(1) by (intro list.rel_cong refl) (auto simp: plain_labels_def label_matches_def)
    then show ?thesis by (simp add: list.rel_eq)
  qed
  have "pattern_matches (''+.'' @ s) d \<longleftrightarrow> (\<exists>us. ps = us @ ?ls)"
    unfolding pattern_matches_def v assms(2) by (simp add: labels_match_def COMPLEX_WILDCARD_def eq)
  then show ?thesis by (simp only: suffix_apply_labels suffix_def ps)
qed

text \<open>What a geosite entry covers, and that a matcher group decides it.\<close>

definition geo_covers :: "('n, 'r) net_lib \<Rightarrow> geo_domain \<Rightarrow> string \<Rightarrow> bool" where
  "geo_covers lib x d =
    (case geo_kind_of (geo_type x) of
       Some Plain \<Rightarrow> sublist (geo_value x) d
     | Some Regex \<Rightarrow> (case regex_new lib (geo_value x) of Inr r \<Rightarrow> regex_is_match lib r d | Inl _ \<Rightarrow> False)
     | Some DomainType \<Rightarrow> pattern_matches (''+.'' @ geo_value x) d
     | Some Full \<Rightarrow> pattern_matches (geo_value x) d
     | None \<Rightarrow> False)"

definition group_matched :: "('n, 'r) net_lib \<Rightarrow> 'r matcher_group \<Rightarrow> string \<Rightarrow> bool" where
  "group_matched lib g d \<longleftrightarrow>
    trie_has (group_set g) d \<or> list_ex (\<lambda>m. str_matches lib m d) (other_matchers g)"

lemma group_apply_matched: "group_apply lib g d \<longleftrightarrow> group_not g \<noteq> group_matched lib g d"
  unfolding group_apply_def group_matched_def trie_has_def by auto

lemma group_add_spec:
  assumes "group_add lib x g = Ok g'" and "trie_ok (group_set g)"
  shows "trie_ok (group_set g') \<and> group_not g' = group_not g \<and>
    (group_matched lib g' d \<longleftrightarrow> geo_covers lib x d \<or> group_matched lib g d)"
proof -
  obtain t where t: "geo_kind_of (geo_type x) = Some t"
    using assms(1) by (auto simp: group_add_def split: option.splits)
  show ?thesis
    using assms t
    by (cases t)
      (auto simp: group_add_def group_matched_def geo_covers_def try_new_matcher_def
        trie_index.has_add trie_ok_trie_insert split: sum.splits)
qed

lemma group_add_all_spec:
  "group_add_all lib xs g = Ok g' \<Longrightarrow> trie_ok (group_set g) \<Longrightarrow>
   group_not g' = group_not g \<and>
   (group_matched lib g' d \<longleftrightarrow> (\<exists>x \<in> set xs. geo_covers lib x d) \<or> group_matched lib g d)"
proof (induction xs arbitrary: g)
  case (Cons x xs)
  then obtain g1 where g1: "group_add lib x g = Ok g1" "group_add_all lib xs g1 = Ok g'"
    by (auto simp: bind_result_Inr_iff)
  from group_add_spec [OF g1(1) Cons.prems(2), of d] Cons.IH [OF g1(2)] show ?case by auto
qed auto

section \<open>Properties\<close>

text \<open>
  C24. A geosite group decides membership: it applies to a domain exactly when one of its entries
  covers the domain (substring, expression, root domain or full domain), negated when the code
  was; building the group keeps every entry, in whatever order they come.
\<close>

theorem geosite_group:
  assumes "group_try_new lib xs neg = Ok g"
  shows "group_apply lib g d \<longleftrightarrow> neg \<noteq> (\<exists>x \<in> set xs. geo_covers lib x d)"
  using group_add_all_spec [OF assms [unfolded group_try_new_def], of d]
  by (simp add: group_apply_matched group_matched_def trie_index.has_empty)

theorem geosite_group_witness:
  "\<exists>g. group_try_new text_lib [\<lparr> geo_type = 0, geo_value = ''ads'', geo_attribute = [] \<rparr>] True = Ok g \<and>
     \<not> group_apply text_lib g ''ads.io''"
proof -
  let ?xs = "[\<lparr> geo_type = 0, geo_value = ''ads'', geo_attribute = [] \<rparr>]"
  obtain g where g: "group_try_new text_lib ?xs True = Ok g"
    by (simp add: group_try_new_def group_add_def geo_kind_of_def try_new_matcher_def)
  have "geo_covers text_lib (hd ?xs) ''ads.io''"
    by (simp add: geo_covers_def geo_kind_of_def sublist_def)
      (rule exI [of _ "[]"], rule exI [of _ "''.io''"], simp)
  with g geosite_group [OF g, of "''ads.io''"] show ?thesis by simp
qed

text \<open>
  C38. The three ways the program writes "this domain or below it" agree: a suffix rule applies to
  a domain exactly when the string matcher for root domains does, exactly when the labels of the
  suffix end the labels of the domain, and, on valid domains, exactly when the trie covers it
  with the suffix stored as \<^verbatim>\<open>+.suffix\<close>.
\<close>

theorem suffix_matchers_agree:
  "(suffix_apply s d \<longleftrightarrow> domain_matcher_matches s d) \<and>
   (suffix_apply s d \<longleftrightarrow> suffix (str_split (CHR ''.'') s) (str_split (CHR ''.'') d)) \<and>
   (plain_labels s \<longrightarrow> domain_query d \<noteq> None \<longrightarrow>
     (suffix_apply s d \<longleftrightarrow> trie_has (fst (trie_insert (''+.'' @ s) () node_new)) d))"
proof -
  have "suffix_apply s d \<longleftrightarrow> trie_has (fst (trie_insert (''+.'' @ s) () node_new)) d"
    if "plain_labels s" "domain_query d \<noteq> None"
  proof -
    from that(2) obtain ps where "domain_query d = Some ps" by blast
    with plus_pattern_suffix [OF that(1)] show ?thesis
      unfolding trie_index.has_add [OF trie_index.empty_ok] by (simp add: trie_index.has_empty)
  qed
  then show ?thesis using domain_matcher_suffix suffix_apply_labels by blast
qed

theorem suffix_matchers_agree_witness:
  "suffix_apply ''a.io'' ''x.a.io'' \<and> trie_has (fst (trie_insert (''+.'' @ ''a.io'') () node_new)) ''x.a.io''"
proof -
  have "suffix_apply ''a.io'' ''x.a.io''" by (simp add: suffix_apply_def suffix_def)
  moreover have "plain_labels ''a.io''" by code_simp
  moreover have "domain_query ''x.a.io'' \<noteq> None" by code_simp
  ultimately show ?thesis using suffix_matchers_agree [of "''a.io''" "''x.a.io''"] by blast
qed

end
