(* ===== verification/Succinct_Set.thy ===== *)
theory Succinct_Set
  imports Trie
begin

text \<open>
  Model of \<^verbatim>\<open>src/clash-lib/src/common/succinct_set.rs\<close>: the succinct encoding of a set of
  domain patterns (a level-order unary degree sequence over 64-bit words with rank and select
  tables) that the domain rule providers search. Patterns and keys are ASCII: a \<^verbatim>\<open>char\<close> of the
  code is one byte here. Counters that the code keeps as \<^verbatim>\<open>i32\<close> are naturals: bit maps stay
  below \<open>2 ^ 31\<close> bits.
\<close>

unbundle bit_operations_syntax

record domain_set =
  leaves :: "u64 list"
  label_bit_map :: "u64 list"
  labels :: "u8 list"
  ranks :: "nat list"
  selects :: "nat list"

definition domain_set_default :: domain_set where
  "domain_set_default = \<lparr> leaves = [], label_bit_map = [], labels = [], ranks = [], selects = [] \<rparr>"

section \<open>Bit vectors\<close>

text \<open>\<^verbatim>\<open>bm[k]\<close> panics out of range.\<close>

definition word_at :: "u64 list \<Rightarrow> nat \<Rightarrow> u64 result" where
  "word_at bm k = (if k < length bm then Ok (bm ! k) else Err Panic)"

definition nat_at :: "nat list \<Rightarrow> nat \<Rightarrow> nat result" where
  "nat_at xs k = (if k < length xs then Ok (xs ! k) else Err Panic)"

definition get_bit :: "u64 list \<Rightarrow> nat \<Rightarrow> bool result" where
  "get_bit bm i =
    (if bm = [] then Ok False
     else bind_result (word_at bm (i div 64)) (\<lambda>w. Ok (w AND push_bit (i mod 64) 1 \<noteq> 0)))"

fun set_bit :: "u64 list \<Rightarrow> nat \<Rightarrow> bool \<Rightarrow> u64 list" where
  "set_bit bm i v =
    (let bm = bm @ replicate (i div 64 + 1 - length bm) 0
     in bm[i div 64 := bm ! (i div 64) OR push_bit (i mod 64) (if v then 1 else 0)])"

definition count_ones :: "u64 \<Rightarrow> nat" where
  "count_ones w = length (filter (bit w) [0..<64])"

definition count_zeros :: "u64 list \<Rightarrow> nat list \<Rightarrow> nat \<Rightarrow> nat result" where
  "count_zeros bm rks i =
    bind_result (nat_at rks (i div 64)) (\<lambda>r.
    bind_result (word_at bm (i div 64)) (\<lambda>w.
      Ok (i - r - count_ones (w AND (push_bit (i mod 64) 1 - 1)))))"

text \<open>
  \<^verbatim>\<open>trailing_zeros\<close> and \<^verbatim>\<open>unbounded_shr\<close> of the standard library: the number of zeros below
  the lowest set bit, 64 for zero; a shift by 64 or more gives zero.
\<close>

definition trailing_zeros64 :: "u64 \<Rightarrow> nat" where
  "trailing_zeros64 w = length (takeWhile (\<lambda>k. \<not> bit w k) [0..<64])"

text \<open>
  The inner loop of \<^verbatim>\<open>select_ith_one\<close>: scan word \<open>w\<close>, whose lowest bit stands for position
  \<open>bit_idx\<close>, for the \<open>k\<close>-th set bit from here. The result is its position, or how many remain to
  be found in later words.
\<close>

lemma unat_drop_bit64: "unat (drop_bit n (w :: u64)) = unat w div 2 ^ n"
proof -
  have "take_bit 64 (unat w) = unat w"
    using unsigned_less [of w] by (intro take_bit_nat_eq_self) simp
  then have "unat (drop_bit n w) = drop_bit n (unat w)" by (simp add: unsigned_drop_bit_eq)
  then show ?thesis by (simp only: drop_bit_eq_div)
qed

function scan_word :: "u64 \<Rightarrow> nat \<Rightarrow> int \<Rightarrow> nat + int" where
  "scan_word w bit_idx k =
    (if w = 0 then Inr k
     else
       let k = k - (if bit w 0 then 1 else 0) in
       if k < 0 then Inl bit_idx
       else
         let t0 = trailing_zeros64 (w AND NOT 1)
         in scan_word (drop_bit t0 w) (bit_idx + t0) k)"
  by pat_completeness auto
termination
proof (relation "measure (\<lambda>(w, _, _). unat w)", goal_cases)
  case (2 w bit_idx k k' t0)
  have "trailing_zeros64 (w AND NOT 1) \<noteq> 0"
    by (simp add: trailing_zeros64_def bit_simps upt_rec [of 0])
  with 2 have "unat w div 2 ^ t0 < unat w"
    by (intro div_less_dividend one_less_power) (simp_all add: unat_gt_0)
  moreover have "unat (drop_bit t0 w) = unat w div 2 ^ t0" by (rule unat_drop_bit64)
  ultimately show ?case by simp
qed simp

declare scan_word.simps [simp del]

text \<open>\<^verbatim>\<open>select_ith_one\<close>: the scan from word \<open>n\<close> on; running out of words is \<^verbatim>\<open>unreachable!\<close>.\<close>

fun scan_words :: "u64 list \<Rightarrow> nat \<Rightarrow> int \<Rightarrow> nat result" where
  "scan_words [] n k = Err Panic"
| "scan_words (w # ws) n k =
    (case scan_word w 0 k of Inl b \<Rightarrow> Ok (64 * n + b) | Inr k \<Rightarrow> scan_words ws (n + 1) k)"

definition select_ith_one :: "u64 list \<Rightarrow> nat list \<Rightarrow> nat list \<Rightarrow> nat \<Rightarrow> nat result" where
  "select_ith_one bm rks sels i =
    bind_result (nat_at sels (i div 64)) (\<lambda>sel.
      let base = sel - sel mod 64 in
      bind_result (nat_at rks (base div 64)) (\<lambda>r.
        scan_words (drop (base div 64) bm) (base div 64) (int i - int r)))"

text \<open>\<^verbatim>\<open>init\<close>: the rank before each word, and the position of every 64th set bit.\<close>

fun init_ranks :: "u64 list \<Rightarrow> nat \<Rightarrow> nat list" where
  "init_ranks [] last_rank = []"
| "init_ranks (w # ws) last_rank =
    (let r = last_rank + count_ones w in r # init_ranks ws r)"

definition sel_step :: "u64 list \<Rightarrow> nat \<Rightarrow> nat list \<times> nat \<Rightarrow> nat list \<times> nat" where
  "sel_step bm i = (\<lambda>(sels, n).
    if bit (bm ! (i div 64)) (i mod 64)
    then (if n mod 64 = 0 then sels @ [i] else sels, n + 1) else (sels, n))"

definition init_selects :: "u64 list \<Rightarrow> nat list" where
  "init_selects bm = fst (fold (sel_step bm) [0..<length bm * 64] ([], 0))"

definition domain_set_init :: "domain_set \<Rightarrow> domain_set" where
  "domain_set_init ds =
    ds \<lparr> ranks := 0 # init_ranks (label_bit_map ds) 0, selects := init_selects (label_bit_map ds) \<rparr>"

definition from_mrs_parts :: "u64 list \<Rightarrow> u64 list \<Rightarrow> u8 list \<Rightarrow> domain_set" where
  "from_mrs_parts lvs lbm lbs =
    domain_set_init \<lparr> leaves = lvs, label_bit_map = lbm, labels = lbs, ranks = [], selects = [] \<rparr>"

section \<open>Lookup\<close>

definition label_at :: "domain_set \<Rightarrow> nat \<Rightarrow> nat \<Rightarrow> u8 result" where
  "label_at ds bm_idx node_id =
    (if node_id \<le> bm_idx \<and> bm_idx - node_id < length (labels ds)
     then Ok (labels ds ! (bm_idx - node_id)) else Err Panic)"

definition byte_of :: "char \<Rightarrow> u8" where
  "byte_of c = word_of_nat (of_char c)"

text \<open>The node that the edge at \<open>bm_idx\<close> leads to, and where its labels start.\<close>

definition child_of :: "domain_set \<Rightarrow> nat \<Rightarrow> (nat \<times> nat) result" where
  "child_of ds bm_idx =
    bind_result (count_zeros (label_bit_map ds) (ranks ds) (bm_idx + 1)) (\<lambda>node_id.
      if node_id = 0 then Err Panic
      else bind_result (select_ith_one (label_bit_map ds) (ranks ds) (selects ds) (node_id - 1))
        (\<lambda>p. Ok (node_id, p + 1)))"

text \<open>\<^verbatim>\<open>j\<close> moves to the next dot at or after \<^verbatim>\<open>cursor.index\<close>, or to the end of the key.\<close>

definition next_dot :: "string \<Rightarrow> nat \<Rightarrow> nat" where
  "next_dot key j = j + length (takeWhile (\<lambda>c. c \<noteq> CHR ''.'') (drop j key))"

text \<open>The first label that is a dot, from \<^verbatim>\<open>next_bm_idx\<close> to the end of all labels.\<close>

function find_dot :: "domain_set \<Rightarrow> nat \<Rightarrow> nat \<Rightarrow> nat option" where
  "find_dot ds next_node next_bm =
    (if next_bm - next_node < length (labels ds) then
       if labels ds ! (next_bm - next_node) = byte_of (CHR ''.'') then Some next_bm
       else find_dot ds next_node (next_bm + 1)
     else None)"
  by pat_completeness auto
termination
  by (relation "measure (\<lambda>(ds, next_node, next_bm). next_node + length (labels ds) - next_bm)") auto

text \<open>
  \<^verbatim>\<open>has\<close> on the reversed, lower-cased key: the two nested loops with their labels as one
  transition on the state \<^verbatim>\<open>i\<close>, \<^verbatim>\<open>node_id\<close>, \<^verbatim>\<open>bm_idx\<close> and the stack of wildcard cursors.
\<close>

record has_state =
  h_i :: nat
  h_node :: nat
  h_bm :: nat
  h_stack :: "(nat \<times> nat) list"

text \<open>The label bit is set: the children of the node are exhausted, back to a wildcard cursor.\<close>

definition has_backtrack :: "domain_set \<Rightarrow> string \<Rightarrow> has_state \<Rightarrow> bool result + has_state" where
  "has_backtrack ds key st =
    (case h_stack st of
       [] \<Rightarrow> Inl (Ok False)
     | (c_bm, c_index) # stack' \<Rightarrow>
         (case child_of ds c_bm of
            Inl e \<Rightarrow> Inl (Err e)
          | Inr (next_node, next_bm) \<Rightarrow>
              (let j = next_dot key c_index in
               if j = length key then
                 (case get_bit (leaves ds) next_node of
                    Inl e \<Rightarrow> Inl (Err e)
                  | Inr leaf \<Rightarrow>
                      if leaf then Inl (Ok True) else Inr (st \<lparr> h_stack := stack' \<rparr>))
               else
                 (case find_dot ds next_node next_bm of
                    Some b \<Rightarrow> Inr \<lparr> h_i = j, h_node = next_node, h_bm = b, h_stack = stack' \<rparr>
                  | None \<Rightarrow> Inl (Ok False)))))"

definition has_step :: "domain_set \<Rightarrow> string \<Rightarrow> has_state \<Rightarrow> bool result + has_state" where
  "has_step ds key st =
    (if length key \<le> h_i st then Inl (get_bit (leaves ds) (h_node st))
     else
       case get_bit (label_bit_map ds) (h_bm st) of
         Inl e \<Rightarrow> Inl (Err e)
       | Inr last_child \<Rightarrow>
           if last_child then has_backtrack ds key st
           else if labels ds = [] then Inl (Ok False)
           else
             (case label_at ds (h_bm st) (h_node st) of
                Inl e \<Rightarrow> Inl (Err e)
              | Inr l \<Rightarrow>
                  if l = byte_of (CHR ''+'') then Inl (Ok True)
                  else if l = byte_of (CHR ''*'') then
                    Inr (st \<lparr> h_bm := h_bm st + 1, h_stack := (h_bm st, h_i st) # h_stack st \<rparr>)
                  else if l = byte_of (key ! h_i st) then
                    (case child_of ds (h_bm st) of
                       Inl e \<Rightarrow> Inl (Err e)
                     | Inr (node, b) \<Rightarrow> Inr (st \<lparr> h_i := h_i st + 1, h_node := node, h_bm := b \<rparr>))
                  else Inr (st \<lparr> h_bm := h_bm st + 1 \<rparr>)))"

partial_function (option) has_loop :: "domain_set \<Rightarrow> string \<Rightarrow> has_state \<Rightarrow> bool result option" where
  "has_loop ds key st = (case has_step ds key st of Inl r \<Rightarrow> Some r | Inr st' \<Rightarrow> has_loop ds key st')"

definition domain_set_has :: "domain_set \<Rightarrow> string \<Rightarrow> bool result option" where
  "domain_set_has ds key =
    has_loop ds (to_ascii_lowercase (rev key)) \<lparr> h_i = 0, h_node = 0, h_bm = 0, h_stack = [] \<rparr>"

section \<open>Building the set from a trie\<close>

record qelt =
  q_s :: nat
  q_e :: nat
  q_col :: nat

definition nth_char :: "string list \<Rightarrow> nat \<Rightarrow> nat \<Rightarrow> char option" where
  "nth_char keys j col = (if col < length (keys ! j) then Some (keys ! j ! col) else None)"

function group_stop :: "string list \<Rightarrow> nat \<Rightarrow> nat \<Rightarrow> nat \<Rightarrow> nat \<Rightarrow> nat" where
  "group_stop keys col frm e j =
    (if j < e \<and> nth_char keys j col = nth_char keys frm col then group_stop keys col frm e (j + 1) else j)"
  by pat_completeness auto
termination by (relation "measure (\<lambda>(keys, col, frm, e, j). e - j)") auto

declare group_stop.simps [simp del]

text \<open>The state of the construction: queue, labels, label bit map with its length, leaves.\<close>

record build_state =
  b_queue :: "qelt list"
  b_labels :: "u8 list"
  b_bit_map :: "u64 list"
  b_l_idx :: nat
  b_leaves :: "u64 list"

lemma group_stop_ge: "j \<le> group_stop keys col frm e j"
proof (induction keys col frm e j rule: group_stop.induct)
  case (1 keys col frm e j)
  then show ?case by (subst group_stop.simps) auto
qed

function split_groups :: "string list \<Rightarrow> nat \<Rightarrow> nat \<Rightarrow> nat \<Rightarrow> build_state \<Rightarrow> build_state" where
  "split_groups keys col e j st =
    (if j < e then
       let frm = j; j' = group_stop keys col frm e j;
           st = st \<lparr> b_queue := b_queue st @ [\<lparr> q_s = frm, q_e = j', q_col = col + 1 \<rparr>] \<rparr>;
           st = (case nth_char keys frm col of
                   Some c \<Rightarrow> st \<lparr> b_labels := b_labels st @ [byte_of c],
                               b_bit_map := set_bit (b_bit_map st) (b_l_idx st) False,
                               b_l_idx := b_l_idx st + 1 \<rparr>
                 | None \<Rightarrow> st)
       in split_groups keys col e j' st
     else st)"
  by pat_completeness auto
termination
proof (relation "measure (\<lambda>(keys, col, e, j, st). e - j)", goal_cases)
  case (2 keys col e j st frm j')
  have "Suc j \<le> group_stop keys col j e j"
    using 2 group_stop_ge [of "Suc j" keys col j e] by (subst group_stop.simps) simp
  with 2 show ?case by simp
qed simp

partial_function (option) build_loop :: "string list \<Rightarrow> nat \<Rightarrow> build_state \<Rightarrow> build_state result option" where
  "build_loop keys i st =
    (let elt = b_queue st ! i in
     if length keys \<le> q_s elt then Some (Err Panic)
     else
       let is_leaf = (q_col elt = length (keys ! q_s elt));
           s = (if is_leaf then q_s elt + 1 else q_s elt);
           st = (if is_leaf then st \<lparr> b_leaves := set_bit (b_leaves st) i True \<rparr> else st);
           st = split_groups keys (q_col elt) (q_e elt) s st;
           st = st \<lparr> b_bit_map := set_bit (b_bit_map st) (b_l_idx st) True, b_l_idx := b_l_idx st + 1 \<rparr>
       in if i = length (b_queue st) - 1 then Some (Ok st) else build_loop keys (i + 1) st)"

definition trie_keys :: "'a node \<Rightarrow> string list" where
  "trie_keys t = traverse (\<lambda>key _ keys. (keys @ [rev key], True)) t []"

definition domain_set_from :: "'a node \<Rightarrow> domain_set result option" where
  "domain_set_from t =
    (let keys = sort (trie_keys t);
         st = \<lparr> b_queue = [\<lparr> q_s = 0, q_e = length keys, q_col = 0 \<rparr>], b_labels = [], b_bit_map = [],
                b_l_idx = 0, b_leaves = [] \<rparr>
     in map_option (\<lambda>r. bind_result r (\<lambda>st. Ok (domain_set_init
            \<lparr> leaves = b_leaves st, label_bit_map = b_bit_map st, labels = b_labels st,
              ranks = [], selects = [] \<rparr>)))
          (build_loop keys 0 st))"

section \<open>Rank and select\<close>

text \<open>The bit vector a list of words stands for, and its rank function.\<close>

definition bitv :: "u64 list \<Rightarrow> bool list" where
  "bitv bm = concat (map (\<lambda>w. map (bit w) [0..<64]) bm)"

definition rank1 :: "bool list \<Rightarrow> nat \<Rightarrow> nat" where
  "rank1 bs i = length (filter id (take i bs))"

definition rank0 :: "bool list \<Rightarrow> nat \<Rightarrow> nat" where
  "rank0 bs i = length (filter Not (take i bs))"

lemma bitv_simps [simp]: "bitv [] = []" "bitv (w # ws) = map (bit w) [0..<64] @ bitv ws"
  by (simp_all add: bitv_def)

lemma length_bitv [simp]: "length (bitv bm) = 64 * length bm"
  by (induction bm) simp_all

lemma nth_bitv: "i < 64 * length bm \<Longrightarrow> bitv bm ! i \<longleftrightarrow> bit (bm ! (i div 64)) (i mod 64)"
proof (induction bm arbitrary: i)
  case (Cons w ws)
  show ?case
  proof (cases "i < 64")
    case False
    then have "i div 64 = Suc ((i - 64) div 64)" "i mod 64 = (i - 64) mod 64"
      by (simp_all add: le_div_geq le_mod_geq)
    with Cons False show ?thesis by (simp add: nth_append)
  qed (simp add: nth_append)
qed simp

lemma rank_sum: "i \<le> length bs \<Longrightarrow> rank0 bs i + rank1 bs i = i"
proof -
  have "length (filter Not xs) + length (filter id xs) = length xs" for xs :: "bool list"
    by (induction xs) simp_all
  moreover assume "i \<le> length bs"
  ultimately show ?thesis by (simp add: rank0_def rank1_def)
qed

lemma count_ones_filter: "count_ones w = length (filter id (map (bit w) [0..<64]))"
  by (simp add: count_ones_def filter_map comp_def)

lemma count_ones_mask:
  assumes "m < 64"
  shows "count_ones (w AND (push_bit m 1 - 1)) = length (filter id (take m (map (bit w) [0..<64])))"
proof -
  have "bit (w AND (push_bit m 1 - 1)) k \<longleftrightarrow> bit w k \<and> k < m" if "k < 64" for k
    using that by (auto simp: bit_simps mask_eq_exp_minus_1 [symmetric] push_bit_of_1)
  then have "filter (bit (w AND (push_bit m 1 - 1))) [0..<64] = filter (\<lambda>k. bit w k \<and> k < m) [0..<64]"
    by (intro filter_cong) simp_all
  also have "\<dots> = filter (bit w) (filter (\<lambda>k. k < m) [0..<64])" by (simp add: conj_commute)
  also have "filter (\<lambda>k. k < m) [0..<64] = [0..<m]"
  proof -
    have "[0..<64] = [0..<m] @ [m..<64]" using assms upt_add_eq_append [of 0 m "64 - m"] by simp
    then show ?thesis by simp
  qed
  finally show ?thesis
    using assms by (simp add: count_ones_def take_map filter_map comp_def)
qed

lemma drop_bitv: "drop (64 * k) (bitv bm) = bitv (drop k bm)"
proof (induction bm arbitrary: k)
  case (Cons w ws)
  then show ?case by (cases k) (simp_all add: drop_append)
qed simp

lemma take_bitv: "take (64 * k) (bitv bm) = bitv (take k bm)"
proof (induction bm arbitrary: k)
  case (Cons w ws)
  then show ?case by (cases k) simp_all
qed simp

lemma init_ranks_rank:
  "k \<le> length bm \<Longrightarrow> (r # init_ranks bm r) ! k = r + rank1 (bitv bm) (64 * k)"
proof (induction bm arbitrary: r k)
  case Nil
  then show ?case by (simp add: rank1_def)
next
  case (Cons w ws)
  show ?case
  proof (cases k)
    case 0
    then show ?thesis by (simp add: rank1_def)
  next
    case (Suc k')
    then have "(r # init_ranks (w # ws) r) ! k = r + count_ones w + rank1 (bitv ws) (64 * k')"
      using Cons by (simp add: Let_def)
    then show ?thesis using Suc by (simp add: rank1_def count_ones_filter)
  qed
qed

lemma length_init_ranks [simp]: "length (init_ranks bm r) = length bm"
  by (induction bm arbitrary: r) (simp_all add: Let_def)

lemma rank1_word:
  assumes "i < 64 * length bm"
  shows "rank1 (bitv bm) i =
    rank1 (bitv bm) (64 * (i div 64)) + length (filter id (take (i mod 64) (map (bit (bm ! (i div 64))) [0..<64])))"
proof -
  let ?k = "i div 64"
  have k: "?k < length bm" using assms by (simp add: less_mult_imp_div_less mult.commute)
  have "take i (bitv bm) = take (64 * ?k + i mod 64) (bitv bm)" by simp
  also have "\<dots> = take (64 * ?k) (bitv bm) @ take (i mod 64) (drop (64 * ?k) (bitv bm))"
    by (rule take_add)
  also have "drop (64 * ?k) (bitv bm) = bitv (bm ! ?k # drop (Suc ?k) bm)"
    by (simp only: drop_bitv Cons_nth_drop_Suc [OF k])
  finally show ?thesis by (simp add: rank1_def)
qed

lemma count_zeros_rank0:
  assumes "i < 64 * length bm"
  shows "count_zeros bm (0 # init_ranks bm 0) i = Ok (rank0 (bitv bm) i)"
proof -
  have k: "i div 64 < length bm" using assms by (simp add: less_mult_imp_div_less mult.commute)
  have "rank0 (bitv bm) i = i - rank1 (bitv bm) i" using rank_sum [of i "bitv bm"] assms by simp
  with k rank1_word [OF assms] init_ranks_rank [of "i div 64" bm 0] show ?thesis
    by (simp add: count_zeros_def nat_at_def word_at_def count_ones_mask [simplified])
qed

text \<open>The positions of the set bits, in order.\<close>

definition ones :: "bool list \<Rightarrow> nat list" where
  "ones bs = filter (\<lambda>i. bs ! i) [0..<length bs]"

lemma rank1_filter: "p \<le> length bs \<Longrightarrow> rank1 bs p = length (filter (\<lambda>i. bs ! i) [0..<p])"
proof (induction p)
  case (Suc p)
  then show ?case by (simp add: rank1_def take_Suc_conv_app_nth)
qed (simp add: rank1_def)

lemma nth_filter_upt:
  "k < length (filter Q [0..<m]) \<Longrightarrow>
   filter Q [0..<m] ! k < m \<and> Q (filter Q [0..<m] ! k) \<and>
   length (filter Q [0..<filter Q [0..<m] ! k]) = k"
proof (induction m)
  case (Suc m)
  then show ?case by (auto simp: nth_append less_Suc_eq)
qed simp

lemma ones_nth:
  assumes "k < length (ones bs)"
  shows "ones bs ! k < length bs" and "bs ! (ones bs ! k)" and "rank1 bs (ones bs ! k) = k"
proof -
  note n = nth_filter_upt [OF assms [unfolded ones_def]]
  show "ones bs ! k < length bs" "bs ! (ones bs ! k)" using n by (simp_all add: ones_def)
  then show "rank1 bs (ones bs ! k) = k" using n by (simp add: rank1_filter ones_def)
qed

lemma length_ones: "length (ones bs) = rank1 bs (length bs)"
  by (simp add: ones_def rank1_filter)

lemma upt_shift: "[0..<a + b] = [0..<a] @ map ((+) a) [0..<b]"
proof -
  have "map ((+) a) [0..<b] = [a..<a + b]" by (induction b) simp_all
  then show ?thesis using upt_add_eq_append [of 0 a b] by simp
qed

lemma ones_append: "ones (as @ bs) = ones as @ map ((+) (length as)) (ones bs)"
proof -
  have "ones (as @ bs) = filter ((!) (as @ bs)) [0..<length as] @
      map ((+) (length as)) (filter (\<lambda>i. (as @ bs) ! (length as + i)) [0..<length bs])"
    by (simp add: ones_def upt_shift filter_map comp_def)
  moreover have "filter ((!) (as @ bs)) [0..<length as] = ones as"
    unfolding ones_def by (intro filter_cong) (simp_all add: nth_append)
  ultimately show ?thesis by (simp add: ones_def)
qed

definition word_ones :: "u64 \<Rightarrow> nat list" where
  "word_ones w = filter (bit w) [0..<64]"

lemma ones_word: "ones (map (bit w) [0..<64]) = word_ones w"
  unfolding ones_def word_ones_def by (intro filter_cong) simp_all

lemma trailing_zeros_spec:
  assumes "t = trailing_zeros64 w"
  shows "t \<le> 64" and "j < t \<Longrightarrow> \<not> bit w j"
proof -
  have "t \<le> length [0..<64]" unfolding assms trailing_zeros64_def by (rule length_takeWhile_le)
  then show t: "t \<le> 64" by simp
  assume j: "j < t"
  then have "takeWhile (\<lambda>k. \<not> bit w k) [0..<64] ! j = [0..<64] ! j"
    unfolding assms trailing_zeros64_def by (rule takeWhile_nth)
  moreover have "takeWhile (\<lambda>k. \<not> bit w k) [0..<64] ! j \<in> set (takeWhile (\<lambda>k. \<not> bit w k) [0..<64])"
    using j unfolding assms trailing_zeros64_def by (rule nth_mem)
  ultimately show "\<not> bit w j" using j t by (auto dest: set_takeWhileD)
qed

lemma word_ones_split:
  assumes "t = trailing_zeros64 (w AND NOT 1)"
  shows "word_ones w = (if bit w 0 then [0] else []) @ map ((+) t) (word_ones (drop_bit t w))"
proof -
  have t: "t \<le> 64" "t \<noteq> 0" and low: "\<And>j. 0 < j \<Longrightarrow> j < t \<Longrightarrow> \<not> bit w j"
    using trailing_zeros_spec [OF assms]
    by (auto simp: assms trailing_zeros64_def bit_simps upt_rec [of 0])
  have "[0..<64] = [0..<t] @ map ((+) t) [0..<64 - t]" using upt_shift [of t "64 - t"] t by simp
  then have "word_ones w = filter (bit w) [0..<t] @ map ((+) t) (filter (\<lambda>i. bit w (t + i)) [0..<64 - t])"
    by (simp add: word_ones_def filter_map comp_def)
  moreover have "filter (bit w) [0..<t] = (if bit w 0 then [0] else [])"
  proof -
    have "[0..<t] = 0 # [1..<t]" using t(2) by (simp add: upt_conv_Cons)
    moreover have "filter (bit w) [1..<t] = []" using low by (auto simp: filter_empty_conv)
    ultimately show ?thesis by simp
  qed
  moreover have "word_ones (drop_bit t w) = filter (\<lambda>i. bit w (t + i)) [0..<64 - t]"
  proof -
    have "[0..<64] = [0..<64 - t] @ [64 - t..<64]" using upt_add_eq_append [of 0 "64 - t" t] t by simp
    moreover have "filter (\<lambda>i. bit w (t + i)) [64 - t..<64] = []"
      by (auto simp: filter_empty_conv dest!: bit_imp_le_length)
    ultimately show ?thesis by (simp add: word_ones_def bit_simps comp_def)
  qed
  ultimately show ?thesis by simp
qed

lemma scan_word_spec:
  "0 \<le> k \<Longrightarrow> scan_word w b k =
    (if nat k < length (word_ones w) then Inl (b + word_ones w ! nat k)
     else Inr (k - int (length (word_ones w))))"
proof (induction w b k rule: scan_word.induct)
  case (1 w b k)
  show ?case
  proof (cases "w = 0")
    case True
    then show ?thesis using 1 by (subst scan_word.simps) (simp add: word_ones_def)
  next
    case False
    define k' where "k' = k - (if bit w 0 then 1 else 0)"
    define t where "t = trailing_zeros64 (w AND NOT 1)"
    note sp = word_ones_split [OF t_def]
    show ?thesis
    proof (cases "k' < 0")
      case True
      then have "bit w 0" "k = 0" using 1 by (auto simp: k'_def split: if_splits)
      then show ?thesis using False by (subst scan_word.simps) (simp add: sp)
    next
      case k: False
      have "scan_word w b k = scan_word (drop_bit t w) (b + t) k'"
        using False k by (subst scan_word.simps) (simp add: k'_def t_def Let_def)
      also have "\<dots> = (if nat k' < length (word_ones (drop_bit t w)) then Inl (b + t + word_ones (drop_bit t w) ! nat k')
          else Inr (k' - int (length (word_ones (drop_bit t w)))))"
        using 1 False k by (simp add: k'_def t_def)
      finally show ?thesis
        using 1(2) k by (auto simp: sp k'_def nth_Cons' nat_diff_distrib' split: if_splits)
    qed
  qed
qed

lemma scan_words_spec:
  "0 \<le> k \<Longrightarrow> nat k < length (ones (bitv ws)) \<Longrightarrow> scan_words ws n k = Ok (64 * n + ones (bitv ws) ! nat k)"
proof (induction ws arbitrary: n k)
  case (Cons w ws)
  let ?l = "length (word_ones w)"
  have sp: "ones (bitv (w # ws)) = word_ones w @ map ((+) 64) (ones (bitv ws))"
    by (simp add: ones_append ones_word)
  show ?case
  proof (cases "nat k < ?l")
    case True
    then show ?thesis using Cons.prems by (simp add: scan_word_spec sp nth_append del: bitv_simps)
  next
    case False
    have "scan_words ws (n + 1) (k - int ?l) = Ok (64 * (n + 1) + ones (bitv ws) ! nat (k - int ?l))"
      using False Cons.prems by (intro Cons.IH) (auto simp: sp simp del: bitv_simps)
    moreover have "nat (k - int ?l) = nat k - ?l" by simp
    moreover have "nat k - ?l < length (ones (bitv ws))" using False Cons.prems by (auto simp: sp simp del: bitv_simps)
    ultimately show ?thesis
      using False Cons.prems by (simp add: scan_word_spec sp nth_append del: bitv_simps)
  qed
qed (simp add: ones_def)

text \<open>The select table holds the positions of the set bits number 0, 64, 128 and so on.\<close>

definition sampled :: "bool list \<Rightarrow> nat \<Rightarrow> nat list \<Rightarrow> bool" where
  "sampled bs t sels \<longleftrightarrow>
    length sels = (rank1 bs t + 63) div 64 \<and>
    (\<forall>m < length sels. sels ! m < t \<and> rank1 bs (sels ! m) = 64 * m)"

lemma rank1_Suc: "t < length bs \<Longrightarrow> rank1 bs (Suc t) = rank1 bs t + (if bs ! t then 1 else 0)"
  by (simp add: rank1_def take_Suc_conv_app_nth)

lemma ceil_Suc: "(n + 1 + 63) div 64 = (if n mod 64 = 0 then Suc ((n + 63) div 64) else (n + 63) div (64 :: nat))"
proof -
  define q r where "q = n div 64" and "r = n mod 64"
  have n: "n = r + 64 * q" and r: "r < 64" by (simp_all add: q_def r_def)
  have "(r + 63) div 64 = (if r = 0 then 0 else 1)" using r by (auto intro: div_nat_eqI)
  moreover have "n + 63 = r + 63 + 64 * q" "n + 1 + 63 = r + 64 * Suc q" by (simp_all add: n)
  then have "(n + 63) div 64 = (r + 63) div 64 + q" "(n + 1 + 63) div 64 = Suc q"
    using r by simp_all
  moreover have "n mod 64 = r" by (simp add: r_def)
  ultimately show ?thesis by simp
qed

lemma sampled_fold:
  "t \<le> 64 * length bm \<Longrightarrow>
   sampled (bitv bm) t (fst (fold (sel_step bm) [0..<t] ([], 0))) \<and>
   snd (fold (sel_step bm) [0..<t] ([], 0)) = rank1 (bitv bm) t"
proof (induction t)
  case 0
  then show ?case by (simp add: sampled_def rank1_def)
next
  case (Suc t)
  obtain sels n where f: "fold (sel_step bm) [0..<t] ([], 0) = (sels, n)" by fastforce
  have ih: "sampled (bitv bm) t sels" "n = rank1 (bitv bm) t" using Suc f by simp_all
  have r: "rank1 (bitv bm) (Suc t) = n + (if bit (bm ! (t div 64)) (t mod 64) then 1 else 0)"
    using Suc.prems ih(2) by (simp add: rank1_Suc nth_bitv)
  have len: "length sels = (n + 63) div 64" using ih by (simp add: sampled_def)
  have "n mod 64 = 0 \<Longrightarrow> rank1 (bitv bm) t = 64 * length sels"
    using len ih(2) by (auto elim!: dvdE simp: mod_eq_0_iff_dvd)
  then have "sampled (bitv bm) (Suc t) (fst (sel_step bm t (sels, n)))"
    using ih(1) len r ceil_Suc [of n]
    by (auto simp: sel_step_def sampled_def nth_append less_Suc_eq)
  moreover have "snd (sel_step bm t (sels, n)) = rank1 (bitv bm) (Suc t)"
    using r by (simp add: sel_step_def)
  ultimately show ?case by (simp add: f)
qed

lemma select_ith_one_spec:
  assumes "i < length (ones (bitv bm))"
  shows "select_ith_one bm (0 # init_ranks bm 0) (init_selects bm) i = Ok (ones (bitv bm) ! i)"
proof -
  let ?bs = "bitv bm" and ?sels = "init_selects bm"
  have samp: "sampled ?bs (64 * length bm) ?sels"
    using sampled_fold [of "64 * length bm" bm] by (simp add: init_selects_def mult.commute)
  have tot: "i < rank1 ?bs (64 * length bm)" using assms by (simp add: length_ones)
  then have m: "i div 64 < length ?sels" using samp by (simp add: sampled_def)
  define sel where "sel = ?sels ! (i div 64)"
  define b where "b = sel div 64"
  have sel: "sel < 64 * length bm" "rank1 ?bs sel = 64 * (i div 64)"
    using samp m by (auto simp: sampled_def sel_def)
  have b: "b < length bm" "sel - sel mod 64 = 64 * b"
    using sel(1) by (auto simp: b_def less_mult_imp_div_less mult.commute minus_mod_eq_mult_div)
  have "rank1 ?bs (64 * b) \<le> rank1 ?bs sel"
    using rank1_word [OF sel(1)] by (simp add: b_def)
  then have le: "rank1 ?bs (64 * b) \<le> i" using sel(2) by (metis div_times_less_eq_dividend le_trans mult.commute)
  have split: "ones ?bs = ones (bitv (take b bm)) @ map ((+) (64 * b)) (ones (bitv (drop b bm)))"
  proof -
    have "?bs = bitv (take b bm) @ bitv (drop b bm)"
      by (metis append_take_drop_id drop_bitv take_bitv)
    moreover have "length (bitv (take b bm)) = 64 * b" using b(1) by simp
    ultimately show ?thesis using ones_append by metis
  qed
  have low: "length (ones (bitv (take b bm))) = rank1 ?bs (64 * b)"
    using b(1) by (simp add: length_ones rank1_def take_bitv [symmetric])
  have "scan_words (drop b bm) b (int i - int (rank1 ?bs (64 * b))) =
      Ok (64 * b + ones (bitv (drop b bm)) ! nat (int i - int (rank1 ?bs (64 * b))))"
    using le assms split low by (intro scan_words_spec) auto
  also have "nat (int i - int (rank1 ?bs (64 * b))) = i - rank1 ?bs (64 * b)" by simp
  also have "64 * b + ones (bitv (drop b bm)) ! (i - rank1 ?bs (64 * b)) = ones ?bs ! i"
    using le assms split low by (simp add: nth_append)
  finally show ?thesis
    using m b init_ranks_rank [of b bm 0]
    by (simp add: select_ith_one_def nat_at_def Let_def sel_def [symmetric])
qed

section \<open>Properties\<close>



declare has_loop.simps [code] and build_loop.simps [code]

text \<open>
  Building the succinct set of an empty trie panics: the construction reads the first key
  before it looks whether there is one. A rule provider whose list holds no valid domain gets here.
\<close>

theorem domain_set_from_empty: "domain_set_from (node_new :: 'a node) = Some (Err Panic)"
  by (simp add: domain_set_from_def trie_keys_def traverse_def node_new_def build_loop.simps)

text \<open>
  The succinct set does not always answer as the trie it was built from: with the patterns
  \<^verbatim>\<open>*.a\<close> and \<^verbatim>\<open>wx.a\<close> the trie finds \<^verbatim>\<open>x.a\<close>, and the set does not, because a key
  that ends inside another pattern is not tried against the wildcards passed on the way.
\<close>

theorem domain_set_misses_wildcard:
  "let t = trie_build [(''*.a'', ()), (''wx.a'', ())]
   in trie_has t ''x.a'' \<and>
     (case domain_set_from t of
        Some (Inr ds) \<Rightarrow> domain_set_has ds ''x.a'' = Some (Ok False) \<and>
          domain_set_has ds ''w.a'' = Some (Ok True)
      | _ \<Rightarrow> False)"
  by code_simp

end
