(* ===== verification/Cidr_Range.thy ===== *)
theory Cidr_Range
  imports Net_Addr
begin

text \<open>
  Model of the range arithmetic of
  \<^verbatim>\<open>app/remote_content_manager/providers/rule_provider/mrs.rs\<close>: how a range of addresses is cut
  into prefixes, with the wrapping arithmetic of the release build.
\<close>

unbundle bit_operations_syntax

section \<open>Bit counting\<close>

definition trailing_zeros :: "'a::len word \<Rightarrow> nat" where
  "trailing_zeros w = length (takeWhile (\<lambda>k. \<not> bit w k) [0..<LENGTH('a)])"

definition leading_zeros :: "'a::len word \<Rightarrow> nat" where
  "leading_zeros w = length (takeWhile (\<lambda>k. \<not> bit w k) (rev [0..<LENGTH('a)]))"

section \<open>Ranges to prefixes\<close>

text \<open>
  One iteration of \<^verbatim>\<open>range_to_cidrs_v4\<close>: the number of host bits of the block at \<open>current\<close>.
  \<^verbatim>\<open>end_u32 - current + 1\<close> and \<^verbatim>\<open>31 - leading_zeros()\<close> wrap in 32 bits.
\<close>

definition block_bits_v4 :: "u32 \<Rightarrow> u32 \<Rightarrow> nat" where
  "block_bits_v4 current end_ip =
    (let tz = (if current = 0 then 32 else trailing_zeros current);
         remaining_ips = end_ip - current + 1;
         max_block_size_bits = 31 - (word_of_nat (leading_zeros remaining_ips) :: u32)
     in min tz (unat max_block_size_bits))"

text \<open>The loop. A block is its first address and its prefix length.\<close>

lemma next_measure:
  "unat (c :: 'a::len word) + 2 ^ b \<le> unat (e :: 'a word) \<Longrightarrow>
   unat e - unat (word_of_nat (unat c + 2 ^ b) :: 'a word) < unat e - unat c"
proof -
  assume le: "unat c + 2 ^ b \<le> unat (e :: 'a word)"
  then have "unat c + 2 ^ b < 2 ^ LENGTH('a)" using unsigned_less [of e] by (rule le_less_trans)
  then have "unat (word_of_nat (unat c + 2 ^ b) :: 'a word) = unat c + 2 ^ b"
    unfolding unat_of_nat by (rule mod_less)
  moreover have "0 < (2 :: nat) ^ b" by simp
  ultimately show ?thesis using le by linarith
qed

function range_to_cidrs_v4 :: "u32 \<Rightarrow> u32 \<Rightarrow> (u32 \<times> nat) list" where
  "range_to_cidrs_v4 current end_ip =
    (if current \<le> end_ip then
       let bits = block_bits_v4 current end_ip;
           block = (current, 32 - bits);
           next = unat current + 2 ^ bits
       in if unat end_ip < next \<or> 2 ^ 32 \<le> next then [block]
          else block # range_to_cidrs_v4 (word_of_nat next) end_ip
     else [])"
  by pat_completeness auto
termination
proof (relation "measure (\<lambda>(c, e). unat e - unat c)", goal_cases)
  case (2 c e bits block nxt)
  then have "unat c + 2 ^ bits \<le> unat e" by simp
  from next_measure [OF this] show ?case using 2 by simp
qed simp

definition block_bits_v6 :: "u128 \<Rightarrow> u128 \<Rightarrow> nat" where
  "block_bits_v6 current end_ip =
    (let tz = (if current = 0 then 128 else trailing_zeros current);
         remaining_ips = end_ip - current + 1;
         max_block_size_bits = 127 - (word_of_nat (leading_zeros remaining_ips) :: u32)
     in min tz (unat max_block_size_bits))"

text \<open>\<^verbatim>\<open>1u128 << block_size_bits\<close> shifts by the bits modulo 128 in a release build.\<close>

function range_to_cidrs_v6 :: "u128 \<Rightarrow> u128 \<Rightarrow> (u128 \<times> nat) list" where
  "range_to_cidrs_v6 current end_ip =
    (if current \<le> end_ip then
       let bits = block_bits_v6 current end_ip;
           block = (current, 128 - bits);
           next = unat current + 2 ^ (bits mod 128)
       in if 2 ^ 128 \<le> next \<or> unat end_ip < next then [block]
          else block # range_to_cidrs_v6 (word_of_nat next) end_ip
     else [])"
  by pat_completeness auto
termination
proof (relation "measure (\<lambda>(c, e). unat e - unat c)", goal_cases)
  case (2 c e bits block nxt)
  then have "unat c + 2 ^ (bits mod 128) \<le> unat e" by simp
  from next_measure [OF this] show ?case using 2 by simp
qed simp

declare range_to_cidrs_v4.simps [simp del] and range_to_cidrs_v6.simps [simp del]

text \<open>
  \<^verbatim>\<open>range_to_cidrs\<close>: the order on \<^verbatim>\<open>IpAddr\<close> puts every IPv4 address before every IPv6 one;
  mapped IPv4 addresses are unmapped before the range is cut.
\<close>

fun ip_less :: "ip_addr \<Rightarrow> ip_addr \<Rightarrow> bool" where
  "ip_less (V4 a) (V4 b) = (a < b)"
| "ip_less (V6 a) (V6 b) = (a < b)"
| "ip_less (V4 _) (V6 _) = True"
| "ip_less (V6 _) (V4 _) = False"

fun ip_normalize :: "ip_addr \<Rightarrow> ip_addr" where
  "ip_normalize (V6 v6) = (case to_ipv4_mapped v6 of Some v4 \<Rightarrow> V4 v4 | None \<Rightarrow> V6 v6)"
| "ip_normalize (V4 v4) = V4 v4"

definition range_to_cidrs :: "ip_addr \<Rightarrow> ip_addr \<Rightarrow> (ip_addr \<times> nat) list result" where
  "range_to_cidrs start0 end0 =
    (if ip_less end0 start0 then Ok []
     else
       case (ip_normalize start0, ip_normalize end0) of
         (V4 s, V4 e) \<Rightarrow> Ok (map (apfst V4) (range_to_cidrs_v4 s e))
       | (V6 s, V6 e) \<Rightarrow> Ok (map (apfst V6) (range_to_cidrs_v6 s e))
       | _ \<Rightarrow> Err (Other ''Start and end IP addresses must be of the same family''))"

section \<open>Facts on bit counting\<close>

lemma takeWhile_upt_zero:
  assumes "t = length (takeWhile (\<lambda>k. \<not> P k) [0..<n])"
  shows "t \<le> n" and "j < t \<Longrightarrow> \<not> P j" and "t < n \<Longrightarrow> P t"
proof -
  have "t \<le> length [0..<n]" unfolding assms by (rule length_takeWhile_le)
  then show le: "t \<le> n" by simp
  show "\<not> P j" if "j < t"
  proof -
    have "takeWhile (\<lambda>k. \<not> P k) [0..<n] ! j = [0..<n] ! j"
      using that unfolding assms by (rule takeWhile_nth)
    moreover have "takeWhile (\<lambda>k. \<not> P k) [0..<n] ! j \<in> set (takeWhile (\<lambda>k. \<not> P k) [0..<n])"
      using that unfolding assms by (rule nth_mem)
    ultimately show ?thesis using that le by (auto dest: set_takeWhileD)
  qed
  show "P t" if "t < n"
    using that nth_length_takeWhile [of "\<lambda>k. \<not> P k" "[0..<n]"] by (simp add: assms)
qed

lemma trailing_zeros_dvd: "2 ^ trailing_zeros w dvd unat w"
proof -
  have "take_bit (trailing_zeros w) w = 0"
    using takeWhile_upt_zero(2) [OF trailing_zeros_def [of w]]
    by (auto intro!: bit_eqI simp: bit_simps)
  then have "take_bit (trailing_zeros w) (unat w) = 0"
    by (metis unsigned_0 unsigned_take_bit_eq)
  then show ?thesis by (simp add: take_bit_eq_0_iff)
qed

lemma takeWhile_rev_upt:
  assumes "l = length (takeWhile (\<lambda>k. \<not> P k) (rev [0..<n]))"
  shows "l \<le> n" and "n - l \<le> j \<Longrightarrow> j < n \<Longrightarrow> \<not> P j" and "l < n \<Longrightarrow> P (n - 1 - l)"
proof -
  let ?xs = "rev [0..<n]"
  have "l \<le> length ?xs" unfolding assms by (rule length_takeWhile_le)
  then show le: "l \<le> n" by simp
  show "\<not> P j" if "n - l \<le> j" "j < n"
  proof -
    have i: "n - 1 - j < l" using that le by simp
    have "takeWhile (\<lambda>k. \<not> P k) ?xs ! (n - 1 - j) = ?xs ! (n - 1 - j)"
      using i unfolding assms by (rule takeWhile_nth)
    moreover have "takeWhile (\<lambda>k. \<not> P k) ?xs ! (n - 1 - j) \<in> set (takeWhile (\<lambda>k. \<not> P k) ?xs)"
      using i unfolding assms by (rule nth_mem)
    moreover have "?xs ! (n - 1 - j) = j" using that by (simp add: rev_nth)
    ultimately show ?thesis by (auto dest: set_takeWhileD)
  qed
  show "P (n - 1 - l)" if "l < n"
    using that nth_length_takeWhile [of "\<lambda>k. \<not> P k" ?xs] by (simp add: assms rev_nth)
qed

lemmas leading_zeros_facts = takeWhile_rev_upt [OF leading_zeros_def]

lemma leading_zeros_le: "leading_zeros (w :: 'a::len word) \<le> LENGTH('a)"
  by (rule leading_zeros_facts(1))

lemma leading_zeros_less: "w \<noteq> 0 \<Longrightarrow> leading_zeros (w :: 'a::len word) < LENGTH('a)"
proof (rule ccontr)
  assume w: "w \<noteq> 0" and "\<not> leading_zeros w < LENGTH('a)"
  then have "\<not> bit w j" if "j < LENGTH('a)" for j
    using that leading_zeros_facts(2) [of w j] by simp
  then have "w = 0" by (intro bit_eqI) simp
  with w show False by simp
qed

lemma leading_zeros_lower:
  assumes "w \<noteq> 0"
  shows "2 ^ (LENGTH('a) - 1 - leading_zeros w) \<le> unat (w :: 'a::len word)"
proof (rule ccontr)
  let ?m = "LENGTH('a) - 1 - leading_zeros w"
  assume "\<not> 2 ^ ?m \<le> unat w"
  then have "take_bit ?m (unat w) = unat w" by (simp add: take_bit_nat_eq_self)
  then have "\<not> bit (unat w) ?m" by (metis bit_take_bit_iff less_irrefl)
  moreover have "bit w ?m" using leading_zeros_facts(3) [OF leading_zeros_less [OF assms]] .
  ultimately show False by (simp add: bit_unsigned_iff)
qed

section \<open>Blocks\<close>

text \<open>
  The block at \<open>c\<close> within \<open>{c..e}\<close>, for a range that does not hold every address: aligned,
  inside the range.
\<close>

definition block_ok :: "nat \<Rightarrow> nat \<Rightarrow> nat \<Rightarrow> bool" where
  "block_ok c e b \<longleftrightarrow> 2 ^ b dvd c \<and> c + 2 ^ b \<le> e + 1"

lemma range_size:
  fixes c e :: "'a::len word"
  assumes "c \<le> e" and "\<not> (c = 0 \<and> e = - 1)"
  shows "e - c + 1 \<noteq> 0" and "unat (e - c + 1) = unat e - unat c + 1"
proof -
  have ec: "unat (e - c) = unat e - unat c" using assms(1) by (rule unat_sub)
  have "e - c \<noteq> - 1"
  proof
    assume "e - c = - 1"
    then have "unat e - unat c = unat (- 1 :: 'a word)" using ec by simp
    moreover have "unat (- 1 :: 'a word) \<noteq> 0" by (simp add: unat_eq_zero)
    moreover have "unat e \<le> unat (- 1 :: 'a word)" using word_n1_ge [of e] unfolding word_le_nat_alt .
    ultimately have "unat c = 0 \<and> unat e = unat (- 1 :: 'a word)" by linarith
    then show False using assms(2) by (metis unsigned_word_eqI unat_eq_zero)
  qed
  then show ne: "e - c + 1 \<noteq> 0" by (metis add_eq_0_iff2)
  then show "unat (e - c + 1) = unat e - unat c + 1" using ec by (metis Suc_eq_plus1 add.commute unatSuc)
qed

lemma block_ok_min:
  fixes c e :: "'a::len word"
  assumes "c \<le> e" and "\<not> (c = 0 \<and> e = - 1)"
  shows "block_ok (unat c) (unat e) (min (if c = 0 then LENGTH('a) else trailing_zeros c)
    (LENGTH('a) - 1 - leading_zeros (e - c + 1)))" (is "block_ok _ _ (min ?tz ?mb)")
proof -
  note rem = range_size [OF assms]
  have "2 ^ min ?tz ?mb \<le> (2 :: nat) ^ ?mb" by (rule power_increasing) simp_all
  also have "\<dots> \<le> unat (e - c + 1)" using leading_zeros_lower [OF rem(1)] .
  finally have "unat c + 2 ^ min ?tz ?mb \<le> unat e + 1"
    using rem(2) assms(1) [unfolded word_le_nat_alt] by linarith
  moreover have "2 ^ min ?tz ?mb dvd unat c"
  proof (cases "c = 0")
    case False
    then have "2 ^ min ?tz ?mb dvd (2 :: nat) ^ trailing_zeros c" by (simp add: le_imp_power_dvd)
    also have "\<dots> dvd unat c" by (rule trailing_zeros_dvd)
    finally show ?thesis .
  qed simp
  ultimately show ?thesis by (simp add: block_ok_def)
qed

lemma unat_sub_small: "l \<le> n \<Longrightarrow> n < 2 ^ 32 \<Longrightarrow> unat (word_of_nat n - word_of_nat l :: u32) = n - l"
  by (simp add: of_nat_diff [symmetric] unat_of_nat del: of_nat_diff)

lemma max_bits:
  assumes "w \<noteq> 0" and "LENGTH('a) \<le> 128"
  shows "unat (word_of_nat (LENGTH('a) - 1) - word_of_nat (leading_zeros w) :: u32) =
    LENGTH('a) - 1 - leading_zeros (w :: 'a::len word)"
  using leading_zeros_less [OF assms(1)] assms(2) by (intro unat_sub_small) simp_all

lemma block_bits_v4_part:
  assumes "c \<le> e" and "\<not> (c = 0 \<and> e = - 1)"
  shows "block_ok (unat c) (unat e) (block_bits_v4 c e)" and "block_bits_v4 c e \<le> 32"
proof -
  have "unat (31 - word_of_nat (leading_zeros (e - c + 1)) :: u32) = 31 - leading_zeros (e - c + 1)"
    using max_bits [OF range_size(1) [OF assms]] by simp
  then have "block_bits_v4 c e =
      min (if c = 0 then 32 else trailing_zeros c) (31 - leading_zeros (e - c + 1))"
    by (simp add: block_bits_v4_def Let_def)
  then show "block_ok (unat c) (unat e) (block_bits_v4 c e)" "block_bits_v4 c e \<le> 32"
    using block_ok_min [OF assms] by (cases "c = 0"; simp)+
qed

lemma block_bits_v4_full: "block_bits_v4 0 (- 1) = 32"
proof -
  have "leading_zeros (0 :: u32) = 32" by (simp add: leading_zeros_def takeWhile_eq_all_conv [THEN iffD2])
  then show ?thesis by (simp add: block_bits_v4_def Let_def unsigned_minus_1_eq_mask mask_eq_exp_minus_1)
qed

lemma block_bits_v4_ok:
  assumes "c \<le> e"
  shows "block_ok (unat c) (unat e) (block_bits_v4 c e) \<and> block_bits_v4 c e \<le> 32"
proof (cases "c = 0 \<and> e = - 1")
  case True
  then show ?thesis by (simp add: block_bits_v4_full block_ok_def unsigned_minus_1_eq_mask mask_eq_exp_minus_1)
next
  case False
  then show ?thesis using block_bits_v4_part [OF assms] by simp
qed

lemma block_bits_v6_ok:
  assumes "c \<le> e" and "\<not> (c = 0 \<and> e = - 1)"
  shows "block_ok (unat c) (unat e) (block_bits_v6 c e) \<and> block_bits_v6 c e \<le> 127"
proof -
  have "unat (127 - word_of_nat (leading_zeros (e - c + 1)) :: u32) = 127 - leading_zeros (e - c + 1)"
    using max_bits [OF range_size(1) [OF assms]] by simp
  then have "block_bits_v6 c e =
      min (if c = 0 then 128 else trailing_zeros c) (127 - leading_zeros (e - c + 1))"
    by (simp add: block_bits_v6_def Let_def)
  then show ?thesis using block_ok_min [OF assms] by (cases "c = 0") simp_all
qed

section \<open>The loops cover the range\<close>

text \<open>The addresses of a list of blocks of \<open>w\<close>-bit addresses, in order.\<close>

definition block_addrs :: "nat \<Rightarrow> ('a::len word \<times> nat) list \<Rightarrow> nat list" where
  "block_addrs w bs = concat (map (\<lambda>(a, p). [unat a..<unat a + 2 ^ (w - p)]) bs)"

definition aligned :: "nat \<Rightarrow> ('a::len word \<times> nat) list \<Rightarrow> bool" where
  "aligned w bs \<longleftrightarrow> (\<forall>(a, p) \<in> set bs. p \<le> w \<and> 2 ^ (w - p) dvd unat a)"

lemma upt_join: "a \<le> b \<Longrightarrow> b \<le> c \<Longrightarrow> [a..<b] @ [b..<c] = [a..<c]"
  by (metis le_add_diff_inverse upt_add_eq_append)

lemma range_to_cidrs_v4_cover:
  "c \<le> e \<Longrightarrow> aligned 32 (range_to_cidrs_v4 c e) \<and>
    block_addrs 32 (range_to_cidrs_v4 c e) = [unat c..<unat e + 1]"
proof (induction c e rule: range_to_cidrs_v4.induct)
  case (1 c e)
  define b where "b = block_bits_v4 c e"
  have pos: "1 \<le> (2 :: nat) ^ b" by simp
  have b: "2 ^ b dvd unat c" "unat c + 2 ^ b \<le> unat e + 1" "b \<le> 32"
    using block_bits_v4_ok [OF 1(2)] by (simp_all add: block_ok_def b_def)
  have e: "unat e < 2 ^ 32" using unsigned_less [of e] by simp
  show ?case
  proof (cases "unat e < unat c + 2 ^ b \<or> 2 ^ 32 \<le> unat c + 2 ^ b")
    case True
    then have "unat c + 2 ^ b = unat e + 1" using b(2) e by linarith
    then show ?thesis
      using True b 1(2) by (simp add: range_to_cidrs_v4.simps [of c] b_def [symmetric] Let_def
          block_addrs_def aligned_def)
  next
    case False
    define c' where "c' = (word_of_nat (unat c + 2 ^ b) :: u32)"
    have c': "unat c' = unat c + 2 ^ b" using False unfolding c'_def unat_of_nat by simp
    have "c' \<le> e" using False c' unfolding word_le_nat_alt by linarith
    then have bs: "aligned 32 (range_to_cidrs_v4 c' e)"
      "block_addrs 32 (range_to_cidrs_v4 c' e) = [unat c'..<unat e + 1]"
      using 1(1) [OF 1(2) b_def refl refl] False by (simp_all add: c'_def)
    have "range_to_cidrs_v4 c e = (c, 32 - b) # range_to_cidrs_v4 c' e"
      using False 1(2) by (simp add: range_to_cidrs_v4.simps [of c] b_def [symmetric] Let_def c'_def)
    then show ?thesis
      using bs b c' upt_join [of "unat c" "unat c'" "unat e + 1"] False
      by (simp add: block_addrs_def aligned_def)
  qed
qed

lemma range_to_cidrs_v6_cover:
  "c \<le> e \<Longrightarrow> \<not> (c = 0 \<and> e = - 1) \<Longrightarrow> aligned 128 (range_to_cidrs_v6 c e) \<and>
    block_addrs 128 (range_to_cidrs_v6 c e) = [unat c..<unat e + 1]"
proof (induction c e rule: range_to_cidrs_v6.induct)
  case (1 c e)
  define b where "b = block_bits_v6 c e"
  have pos: "1 \<le> (2 :: nat) ^ b" by simp
  have b: "2 ^ b dvd unat c" "unat c + 2 ^ b \<le> unat e + 1" "b \<le> 127" "b mod 128 = b"
    using block_bits_v6_ok [OF 1(2,3)] by (simp_all add: block_ok_def b_def)
  have e: "unat e < 2 ^ 128" using unsigned_less [of e] by simp
  show ?case
  proof (cases "2 ^ 128 \<le> unat c + 2 ^ b \<or> unat e < unat c + 2 ^ b")
    case True
    then have "unat c + 2 ^ b = unat e + 1" using b(2) e by linarith
    then show ?thesis
      using True b 1(2) by (simp add: range_to_cidrs_v6.simps [of c] b_def [symmetric] Let_def
          block_addrs_def aligned_def)
  next
    case False
    define c' where "c' = (word_of_nat (unat c + 2 ^ b) :: u128)"
    have c': "unat c' = unat c + 2 ^ b" using False unfolding c'_def unat_of_nat by simp
    have "c' \<le> e" "\<not> (c' = 0 \<and> e = - 1)" using False c' pos unfolding word_le_nat_alt by (linarith, auto)
    then have bs: "aligned 128 (range_to_cidrs_v6 c' e)"
      "block_addrs 128 (range_to_cidrs_v6 c' e) = [unat c'..<unat e + 1]"
      using 1(1) [OF 1(2) b_def refl refl] False b(4) by (simp_all add: c'_def)
    have "range_to_cidrs_v6 c e = (c, 128 - b) # range_to_cidrs_v6 c' e"
      using False 1(2) b(4) by (simp add: range_to_cidrs_v6.simps [of c] b_def [symmetric] Let_def c'_def)
    then show ?thesis
      using bs b c' upt_join [of "unat c" "unat c'" "unat e + 1"] False
      by (simp add: block_addrs_def aligned_def)
  qed
qed

section \<open>Properties\<close>

text \<open>
  C14. Cutting an IPv4 range into prefixes is exact for every range, the full one included where
  the arithmetic wraps: the loop ends, every block is aligned to its prefix length, and the
  blocks list the addresses from the first to the last once each, in order.
\<close>

theorem range_to_cidrs_v4_exact:
  assumes "start \<le> end_ip"
  shows "aligned 32 (range_to_cidrs_v4 start end_ip) \<and>
    block_addrs 32 (range_to_cidrs_v4 start end_ip) = [unat start..<unat end_ip + 1]"
  using assms by (rule range_to_cidrs_v4_cover)

theorem range_to_cidrs_v4_exact_witness:
  "aligned 32 (range_to_cidrs_v4 10 17) \<and> block_addrs 32 (range_to_cidrs_v4 10 17) = [10..<18]"
  using range_to_cidrs_v4_exact [of 10 17] by simp

text \<open>
  C34. The same for IPv6 ranges, except the range of all addresses, where the count of addresses
  wraps to zero and the shift by 128 bits is a shift by none.
\<close>

theorem range_to_cidrs_v6_exact:
  assumes "start \<le> end_ip" and "\<not> (start = 0 \<and> end_ip = - 1)"
  shows "aligned 128 (range_to_cidrs_v6 start end_ip) \<and>
    block_addrs 128 (range_to_cidrs_v6 start end_ip) = [unat start..<unat end_ip + 1]"
  using assms by (rule range_to_cidrs_v6_cover)

theorem range_to_cidrs_v6_exact_witness:
  "aligned 128 (range_to_cidrs_v6 10 17) \<and> block_addrs 128 (range_to_cidrs_v6 10 17) = [10..<18]"
  using range_to_cidrs_v6_exact [of 10 17] by simp

end
