(* ===== verification/Rule_Provider.thy ===== *)
theory Rule_Provider
  imports Rules Succinct_Set Cidr_Range
begin

text \<open>
  Model of the rule providers, \<^verbatim>\<open>app/remote_content_manager/providers/rule_provider/*\<close>: the prefix
  table (\<^verbatim>\<open>cidr_trie.rs\<close>), the binary rule-set format (\<^verbatim>\<open>mrs.rs\<close>), the construction of rules
  from text and the search (\<^verbatim>\<open>provider.rs\<close>). Parameters: the \<^verbatim>\<open>IpLookupTable\<close> crate
  (\<open>table_lib\<close>), the zstd decoder (the bytes it yields before its end or a read error), the YAML
  parser and what the fetcher delivers.
\<close>

section \<open>Prefix table\<close>

text \<open>The functions of the lookup-table crate; \<open>t4_match\<close> is \<^verbatim>\<open>longest_match(..).is_some()\<close>.\<close>

record ('t, 's) table_lib =
  t4_new :: 't
  t4_insert :: "u32 \<Rightarrow> nat \<Rightarrow> 't \<Rightarrow> 't"
  t4_match :: "'t \<Rightarrow> u32 \<Rightarrow> bool"
  t6_new :: 's
  t6_insert :: "u128 \<Rightarrow> nat \<Rightarrow> 's \<Rightarrow> 's"
  t6_match :: "'s \<Rightarrow> u128 \<Rightarrow> bool"

record ('t, 's) cidr_trie =
  table_v4 :: 't
  table_v6 :: 's

definition cidr_trie_new :: "('t, 's) table_lib \<Rightarrow> ('t, 's) cidr_trie" where
  "cidr_trie_new tbl = \<lparr> table_v4 = t4_new tbl, table_v6 = t6_new tbl \<rparr>"

definition cidr_insert ::
  "('n, 'r) net_lib \<Rightarrow> ('t, 's) table_lib \<Rightarrow> string \<Rightarrow> ('t, 's) cidr_trie \<Rightarrow> ('t, 's) cidr_trie \<times> bool" where
  "cidr_insert lib tbl cidr trie =
    (case net_parse lib cidr of
       Some n \<Rightarrow>
         (case net_trunc lib n of
            (V4 a, p) \<Rightarrow> (trie \<lparr> table_v4 := t4_insert tbl a p (table_v4 trie) \<rparr>, True)
          | (V6 a, p) \<Rightarrow> (trie \<lparr> table_v6 := t6_insert tbl a p (table_v6 trie) \<rparr>, True))
     | None \<Rightarrow> (trie, False))"

fun cidr_contains :: "('t, 's) table_lib \<Rightarrow> ('t, 's) cidr_trie \<Rightarrow> ip_addr \<Rightarrow> bool" where
  "cidr_contains tbl trie (V4 a) = t4_match tbl (table_v4 trie) a"
| "cidr_contains tbl trie (V6 a) = t6_match tbl (table_v6 trie) a"

section \<open>Behaviours and contents\<close>

datatype rule_set_format = Yaml | Text | MrsFormat
datatype rule_set_behavior = BDomain | BIpcidr | BClassical

fun format_to_string :: "rule_set_format \<Rightarrow> string" where
  "format_to_string Yaml = ''yaml''"
| "format_to_string Text = ''text''"
| "format_to_string MrsFormat = ''mrs''"

fun behavior_to_string :: "rule_set_behavior \<Rightarrow> string" where
  "behavior_to_string BDomain = ''Domain''"
| "behavior_to_string BIpcidr = ''IPCIDR''"
| "behavior_to_string BClassical = ''Classical''"

datatype ('n, 'r, 't, 's) rule_content =
    CDomain domain_set
  | CIpcidr "('t, 's) cidr_trie"
  | CClassical "('n, 'r) rule_matcher list"

text \<open>All third-party functions of this theory and the databases the rules refer to.\<close>

record ('n, 'r, 't, 's) provider_lib =
  p_net :: "('n, 'r) net_lib"
  p_table :: "('t, 's) table_lib"
  p_zstd :: "bytes \<Rightarrow> bytes option"
  p_yaml :: "bytes \<Rightarrow> string list option"
  p_mmdb :: "(ip_addr \<Rightarrow> string option) option"
  p_geodata :: "geo_site list option"

section \<open>Rules from text\<close>

definition domain_set_res :: "'a node \<Rightarrow> domain_set result" where
  "domain_set_res t = (case domain_set_from t of Some r \<Rightarrow> r | None \<Rightarrow> Err Diverges)"

fun make_domain_rules :: "string list \<Rightarrow> bool node \<Rightarrow> bool node" where
  "make_domain_rules [] trie = trie"
| "make_domain_rules (rule # rules) trie = make_domain_rules rules (fst (trie_insert rule True trie))"

fun make_ip_cidr_rules ::
  "('n, 'r) net_lib \<Rightarrow> ('t, 's) table_lib \<Rightarrow> string list \<Rightarrow> ('t, 's) cidr_trie \<Rightarrow> ('t, 's) cidr_trie" where
  "make_ip_cidr_rules lib tbl [] trie = trie"
| "make_ip_cidr_rules lib tbl (rule # rules) trie =
    make_ip_cidr_rules lib tbl rules (fst (cidr_insert lib tbl rule trie))"

definition classical_rule ::
  "('n, 'r, 't, 's) provider_lib \<Rightarrow> string \<Rightarrow> ('n, 'r) rule_matcher result" where
  "classical_rule lib rule =
    bind_result
      (case map str_trim (str_split (CHR '','') rule) of
         [proto, payload] \<Rightarrow> rule_new (p_net lib) proto payload [] None
       | proto # payload # params \<Rightarrow> rule_new (p_net lib) proto payload [] (Some params)
       | _ \<Rightarrow> Err (InvalidConfig (''invalid rule line: '' @ rule)))
      (map_rule_type (p_net lib) (p_mmdb lib) (p_geodata lib) None)"

fun make_classical_rules ::
  "('n, 'r, 't, 's) provider_lib \<Rightarrow> string list \<Rightarrow> ('n, 'r) rule_matcher list result" where
  "make_classical_rules lib [] = Ok []"
| "make_classical_rules lib (rule # rules) =
    bind_result (classical_rule lib rule) (\<lambda>m.
    bind_result (make_classical_rules lib rules) (\<lambda>ms. Ok (m # ms)))"

definition make_rules ::
  "('n, 'r, 't, 's) provider_lib \<Rightarrow> rule_set_behavior \<Rightarrow> string list \<Rightarrow> ('n, 'r, 't, 's) rule_content result" where
  "make_rules lib behavior rules =
    (case behavior of
       BDomain \<Rightarrow>
         bind_result (domain_set_res (make_domain_rules rules node_new)) (\<lambda>s. Ok (CDomain s))
     | BIpcidr \<Rightarrow>
         Ok (CIpcidr (make_ip_cidr_rules (p_net lib) (p_table lib) rules (cidr_trie_new (p_table lib))))
     | BClassical \<Rightarrow> bind_result (make_classical_rules lib rules) (\<lambda>ms. Ok (CClassical ms)))"

section \<open>The binary format\<close>

definition MRS_MAGIC_BYTES :: bytes where "MRS_MAGIC_BYTES = [0x4D, 0x52, 0x53, 1]"
definition DOMAIN_SET_VERSION :: u8 where "DOMAIN_SET_VERSION = 0x01"
definition IP_CIDR_SET_VERSION :: u8 where "IP_CIDR_SET_VERSION = 0x01"
definition BEHAVIOR_DOMAIN :: u8 where "BEHAVIOR_DOMAIN = 0x00"
definition BEHAVIOR_IPCIDR :: u8 where "BEHAVIOR_IPCIDR = 0x01"

fun to_mrs_byte :: "rule_set_behavior \<Rightarrow> u8 option" where
  "to_mrs_byte BDomain = Some BEHAVIOR_DOMAIN"
| "to_mrs_byte BIpcidr = Some BEHAVIOR_IPCIDR"
| "to_mrs_byte BClassical = None"

definition from_mrs_byte :: "u8 \<Rightarrow> rule_set_behavior result" where
  "from_mrs_byte b =
    (if b = BEHAVIOR_DOMAIN then Ok BDomain
     else if b = BEHAVIOR_IPCIDR then Ok BIpcidr
     else Err (Other ''Invalid MRS behavior byte''))"

text \<open>\<^verbatim>\<open>read_i64\<close> is signed. A length is at most \<open>2 ^ 63 - 1\<close> once it is not negative.\<close>

definition read_u64_length :: "bytes \<Rightarrow> (nat \<times> bytes) result" where
  "read_u64_length s =
    bind_result (read_be 8 s) (\<lambda>(w :: u64, r).
      if sint w < 0 then Err (Other ''Invalid negative length'') else Ok (unat w, r))"

fun read_u64s :: "nat \<Rightarrow> bytes \<Rightarrow> (u64 list \<times> bytes) result" where
  "read_u64s 0 s = Ok ([], s)"
| "read_u64s (Suc n) s =
    bind_result (read_be 8 s) (\<lambda>(w, r). bind_result (read_u64s n r) (\<lambda>(ws, r). Ok (w # ws, r)))"

text \<open>\<^verbatim>\<open>Vec::with_capacity(count)\<close> panics when \<open>8 * count\<close> bytes exceed \<^verbatim>\<open>isize::MAX\<close>.\<close>

definition read_u64_vec :: "nat \<Rightarrow> bytes \<Rightarrow> (u64 list \<times> bytes) result" where
  "read_u64_vec count s = (if 2 ^ 63 \<le> 8 * count then Err Panic else read_u64s count s)"

definition MAX_BYTE_VEC_LEN :: nat where "MAX_BYTE_VEC_LEN = 512 * 1024 * 1024"

definition read_byte_vec :: "nat \<Rightarrow> bytes \<Rightarrow> (bytes \<times> bytes) result" where
  "read_byte_vec n s =
    (if MAX_BYTE_VEC_LEN < n then Err (Other ''data length exceeds maximum allowed size'')
     else read_exact n s)"

definition parse_domain_payload :: "bytes \<Rightarrow> domain_set result" where
  "parse_domain_payload s =
    bind_result (read_u8 s) (\<lambda>(version, s).
      if version \<noteq> DOMAIN_SET_VERSION then Err (Other ''Unsupported DomainSet version'')
      else
        bind_result (read_u64_length s) (\<lambda>(leaves_len, s).
        bind_result (read_u64_vec leaves_len s) (\<lambda>(lvs, s).
        bind_result (read_u64_length s) (\<lambda>(bitmap_len, s).
        bind_result (read_u64_vec bitmap_len s) (\<lambda>(bitmap, s).
        bind_result (read_u64_length s) (\<lambda>(labels_len, s).
        bind_result (read_byte_vec labels_len s) (\<lambda>(lbs, s).
          Ok (from_mrs_parts lvs bitmap lbs))))))))"

text \<open>The prefixes of one range, built with \<^verbatim>\<open>IpNet::new\<close> and inserted in printed form.\<close>

fun insert_nets ::
  "('n, 'r, 't, 's) provider_lib \<Rightarrow> 'n list \<Rightarrow> ('t, 's) cidr_trie \<Rightarrow> ('t, 's) cidr_trie" where
  "insert_nets lib [] trie = trie"
| "insert_nets lib (n # ns) trie =
    insert_nets lib ns (fst (cidr_insert (p_net lib) (p_table lib) (net_show (p_net lib) n) trie))"

fun nets_of :: "('n, 'r) net_lib \<Rightarrow> (ip_addr \<times> nat) list \<Rightarrow> 'n list result" where
  "nets_of lib [] = Ok []"
| "nets_of lib ((a, p) # bs) =
    (case net_new lib a p of
       None \<Rightarrow> Err (Other ''invalid prefix length'')
     | Some n \<Rightarrow> bind_result (nets_of lib bs) (\<lambda>ns. Ok (n # ns)))"

fun read_ranges ::
  "('n, 'r, 't, 's) provider_lib \<Rightarrow> nat \<Rightarrow> bytes \<Rightarrow> ('t, 's) cidr_trie \<Rightarrow> ('t, 's) cidr_trie result" where
  "read_ranges lib 0 s trie = Ok trie"
| "read_ranges lib (Suc n) s trie =
    bind_result (read_exact 32 s) (\<lambda>(range_buf, s).
      let from_ip = V6 (be_get (take 16 range_buf)); to_ip = V6 (be_get (drop 16 range_buf)) in
      bind_result (range_to_cidrs from_ip to_ip) (\<lambda>blocks.
      bind_result (nets_of (p_net lib) blocks) (\<lambda>nets.
        read_ranges lib n s (insert_nets lib nets trie))))"

definition parse_ipcidr_payload ::
  "('n, 'r, 't, 's) provider_lib \<Rightarrow> bytes \<Rightarrow> ('t, 's) cidr_trie result" where
  "parse_ipcidr_payload lib s =
    bind_result (read_u8 s) (\<lambda>(version, s).
      if version \<noteq> IP_CIDR_SET_VERSION then Err (Other ''Unsupported IpCidrSet version'')
      else
        bind_result (read_u64_length s) (\<lambda>(ranges_len, s).
          read_ranges lib ranges_len s (cidr_trie_new (p_table lib))))"

definition rules_mrs_parse ::
  "('n, 'r, 't, 's) provider_lib \<Rightarrow> bytes \<Rightarrow> rule_set_behavior \<Rightarrow> ('n, 'r, 't, 's) rule_content result" where
  "rules_mrs_parse lib buf expected_behavior =
    (case p_zstd lib buf of
       None \<Rightarrow> Err (Other ''Failed to create zstd decoder'')
     | Some s \<Rightarrow>
         bind_result (read_exact 4 s) (\<lambda>(magic, s).
           if magic \<noteq> MRS_MAGIC_BYTES then Err (Other ''Invalid MRS magic bytes'')
           else
             bind_result (read_u8 s) (\<lambda>(b, s).
             bind_result (from_mrs_byte b) (\<lambda>actual_behavior.
               if actual_behavior \<noteq> expected_behavior then Err (Other ''MRS behavior mismatch'')
               else
                 bind_result (read_be 8 s) (\<lambda>(count :: u64, s).
                   if sint count < 0 then Err (Other ''Invalid MRS rule count'')
                   else
                     bind_result (read_be 8 s) (\<lambda>(extra_length :: u64, s).
                       if extra_length \<noteq> 0 then Err (Other ''Invalid MRS extra length for v1'')
                       else
                         case actual_behavior of
                           BDomain \<Rightarrow> bind_result (parse_domain_payload s) (\<lambda>d. Ok (CDomain d))
                         | BIpcidr \<Rightarrow> bind_result (parse_ipcidr_payload lib s) (\<lambda>t. Ok (CIpcidr t))
                         | BClassical \<Rightarrow> Err (Other ''Classical behavior is not supported by MRS format'')))))))"

section \<open>Providers\<close>

record ('n, 'r, 't, 's) rule_provider =
  prov_name :: string
  prov_behavior :: rule_set_behavior
  prov_format :: rule_set_format
  prov_fetcher :: bool
  prov_inline :: "string list option"
  prov_content :: "('n, 'r, 't, 's) rule_content"

text \<open>\<^verbatim>\<open>new\<close>: an empty content; there is a fetcher when both interval and vehicle are given.\<close>

definition rule_provider_new ::
  "('n, 'r, 't, 's) provider_lib \<Rightarrow> string \<Rightarrow> rule_set_behavior \<Rightarrow> rule_set_format \<Rightarrow> bool \<Rightarrow>
   string list option \<Rightarrow> ('n, 'r, 't, 's) rule_provider" where
  "rule_provider_new lib nm behavior fmt fetcher inline =
    \<lparr> prov_name = nm, prov_behavior = behavior, prov_format = fmt, prov_fetcher = fetcher,
      prov_inline = inline,
      prov_content =
        (case behavior of
           BDomain \<Rightarrow> CDomain domain_set_default
         | BIpcidr \<Rightarrow> CIpcidr (cidr_trie_new (p_table lib))
         | BClassical \<Rightarrow> CClassical []) \<rparr>"

text \<open>\<^verbatim>\<open>str::lines\<close>: a line ends with LF or CRLF; the text after the last LF is a line if not empty.\<close>

definition strip_cr :: "string \<Rightarrow> string" where
  "strip_cr l = (if l \<noteq> [] \<and> last l = CHR 0x0D then butlast l else l)"

definition str_lines :: "string \<Rightarrow> string list" where
  "str_lines s =
    (let ps = str_split (CHR 0x0A) s
     in map strip_cr (butlast ps) @ (if last ps = [] then [] else [last ps]))"

definition text_payload :: "string \<Rightarrow> string list" where
  "text_payload s =
    filter (\<lambda>l. l \<noteq> [] \<and> \<not> prefix ''#'' l \<and> \<not> prefix ''//'' l) (map str_trim (str_lines s))"

definition unwrap_list :: "'a list option \<Rightarrow> 'a list" where
  "unwrap_list opt = (case opt of Some xs \<Rightarrow> xs | None \<Rightarrow> [])"

text \<open>The parser closure that \<^verbatim>\<open>new\<close> hands to the fetcher.\<close>

definition provider_parse ::
  "('n, 'r, 't, 's) provider_lib \<Rightarrow> ('n, 'r, 't, 's) rule_provider \<Rightarrow> bytes \<Rightarrow> ('n, 'r, 't, 's) rule_content result" where
  "provider_parse lib p input =
    (case prov_format p of
       Yaml \<Rightarrow>
         (case p_yaml lib input of
            None \<Rightarrow> Err (InvalidConfig ''rule provider parse error (yaml)'')
          | Some payload \<Rightarrow> make_rules lib (prov_behavior p) (unwrap_list (prov_inline p) @ payload))
     | Text \<Rightarrow>
         (case from_utf8 input of
            None \<Rightarrow> Err (InvalidConfig ''invalid utf-8 in text rule provider'')
          | Some t \<Rightarrow> make_rules lib (prov_behavior p) (text_payload t @ unwrap_list (prov_inline p)))
     | MrsFormat \<Rightarrow>
         if prov_behavior p = BClassical
         then Err (InvalidConfig ''MRS format is not supported for classical behavior'')
         else rules_mrs_parse lib input (prov_behavior p))"

text \<open>\<^verbatim>\<open>search\<close>; \<open>busy\<close> says that a writer holds the lock, and then the answer is no.\<close>

fun any_apply :: "('n, 'r) match_env \<Rightarrow> ('n, 'r) rule_matcher list \<Rightarrow> session \<Rightarrow> bool result" where
  "any_apply env [] sess = Ok False"
| "any_apply env (m # ms) sess =
    bind_result (matcher_apply env m sess) (\<lambda>b. if b then Ok True else any_apply env ms sess)"

definition provider_search ::
  "('n, 'r) match_env \<Rightarrow> ('t, 's) table_lib \<Rightarrow> bool \<Rightarrow> ('n, 'r, 't, 's) rule_provider \<Rightarrow> session \<Rightarrow> bool result" where
  "provider_search env tbl busy p sess =
    (if busy then Ok False
     else
       case prov_content p of
         CDomain ds \<Rightarrow>
           (case domain_set_has ds (socks_host (destination sess)) of
              Some r \<Rightarrow> r | None \<Rightarrow> Err Diverges)
       | CIpcidr trie \<Rightarrow>
           Ok (cidr_contains tbl trie
             (case socks_ip (destination sess) of Some ip \<Rightarrow> ip | None \<Rightarrow> V4 0))
       | CClassical rules \<Rightarrow> any_apply env rules sess)"

text \<open>The outcomes that are not an \<^verbatim>\<open>Err\<close> value of Rust and cannot be caught.\<close>

fun aborts :: "error \<Rightarrow> bool" where
  "aborts Panic = True"
| "aborts Diverges = True"
| "aborts (Exit _) = True"
| "aborts _ = False"

text \<open>
  \<^verbatim>\<open>initialize\<close> and \<^verbatim>\<open>update\<close>; \<open>fetched\<close> is what the fetcher returns, for an update with the
  flag that the content is the same.
\<close>

definition provider_initialize ::
  "('n, 'r, 't, 's) provider_lib \<Rightarrow> ('n, 'r, 't, 's) rule_content result \<Rightarrow> ('n, 'r, 't, 's) rule_provider \<Rightarrow>
   ('n, 'r, 't, 's) rule_provider result" where
  "provider_initialize lib fetched p =
    (if prov_fetcher p then bind_result fetched (\<lambda>c. Ok (p \<lparr> prov_content := c \<rparr>))
     else
       case make_rules lib (prov_behavior p) (unwrap_list (prov_inline p)) of
         Inr c \<Rightarrow> Ok (p \<lparr> prov_content := c \<rparr>)
       | Inl e \<Rightarrow>
           Err (if aborts e then e else InvalidData ''failed to initialize inline rule provider''))"

definition provider_update ::
  "(('n, 'r, 't, 's) rule_content \<times> bool) result \<Rightarrow> ('n, 'r, 't, 's) rule_provider \<Rightarrow>
   ('n, 'r, 't, 's) rule_provider result" where
  "provider_update fetched p =
    (if prov_fetcher p then
       bind_result fetched (\<lambda>(c, same). Ok (if same then p else p \<lparr> prov_content := c \<rparr>))
     else Ok p)"

section \<open>Documented laws of the crates\<close>

fun ip_width :: "ip_addr \<Rightarrow> nat" where
  "ip_width (V4 _) = 32"
| "ip_width (V6 _) = 128"

definition same_prefix :: "nat \<Rightarrow> nat \<Rightarrow> 'a::len word \<Rightarrow> 'a word \<Rightarrow> bool" where
  "same_prefix w p a x \<longleftrightarrow> unat a div 2 ^ (w - p) = unat x div 2 ^ (w - p)"

fun in_prefix :: "ip_addr \<Rightarrow> nat \<Rightarrow> ip_addr \<Rightarrow> bool" where
  "in_prefix (V4 a) p (V4 x) = same_prefix 32 p a x"
| "in_prefix (V6 a) p (V6 x) = same_prefix 128 p a x"
| "in_prefix _ _ _ = False"

text \<open>A lookup table has a longest match for an address exactly if some inserted prefix contains it.\<close>

definition table_laws :: "('t, 's) table_lib \<Rightarrow> bool" where
  "table_laws tbl \<longleftrightarrow>
    (\<forall>x. \<not> t4_match tbl (t4_new tbl) x) \<and> (\<forall>x. \<not> t6_match tbl (t6_new tbl) x) \<and>
    (\<forall>a p t x. p \<le> 32 \<longrightarrow> t4_match tbl (t4_insert tbl a p t) x = (same_prefix 32 p a x \<or> t4_match tbl t x)) \<and>
    (\<forall>a p t x. p \<le> 128 \<longrightarrow> t6_match tbl (t6_insert tbl a p t) x = (same_prefix 128 p a x \<or> t6_match tbl t x))"

text \<open>A parsed network contains the addresses of its truncated prefix.\<close>

definition trunc_law :: "('n, 'r) net_lib \<Rightarrow> bool" where
  "trunc_law lib \<longleftrightarrow>
    (\<forall>s n. net_parse lib s = Some n \<longrightarrow>
      (case net_trunc lib n of (a, p) \<Rightarrow> p \<le> ip_width a \<and> (\<forall>ip. net_contains lib n ip = in_prefix a p ip)))"

text \<open>A network made from an address and a length contains that prefix and is printed parsably.\<close>

definition new_law :: "('n, 'r) net_lib \<Rightarrow> bool" where
  "new_law lib \<longleftrightarrow>
    (\<forall>a p. p \<le> ip_width a \<longrightarrow>
      (\<exists>n. net_new lib a p = Some n \<and> net_parse lib (net_show lib n) = Some n \<and>
        (\<forall>ip. net_contains lib n ip = in_prefix a p ip)))"

section \<open>The prefix table is a set of networks\<close>

definition cidr_covers :: "('n, 'r) net_lib \<Rightarrow> string \<Rightarrow> ip_addr \<Rightarrow> bool" where
  "cidr_covers lib r ip = (case net_parse lib r of Some n \<Rightarrow> net_contains lib n ip | None \<Rightarrow> False)"

lemma cidr_contains_insert:
  assumes "table_laws tbl" and "trunc_law lib"
  shows "cidr_contains tbl (fst (cidr_insert lib tbl r trie)) ip \<longleftrightarrow> cidr_covers lib r ip \<or> cidr_contains tbl trie ip"
proof (cases "net_parse lib r")
  case (Some n)
  obtain a p where t: "net_trunc lib n = (a, p)" by fastforce
  have "case net_trunc lib n of (a, p) \<Rightarrow> p \<le> ip_width a \<and> (\<forall>ip. net_contains lib n ip = in_prefix a p ip)"
    using assms(2) Some by (simp add: trunc_law_def)
  with t have "p \<le> ip_width a" and "net_contains lib n ip = in_prefix a p ip" by simp_all
  then show ?thesis
    using assms(1) Some t by (cases a; cases ip) (simp_all add: cidr_insert_def cidr_covers_def table_laws_def)
qed (simp add: cidr_insert_def cidr_covers_def)

lemma cidr_contains_new: "table_laws tbl \<Longrightarrow> \<not> cidr_contains tbl (cidr_trie_new tbl) ip"
  by (cases ip) (simp_all add: table_laws_def cidr_trie_new_def)

lemma cidr_index:
  assumes "table_laws tbl" and "trunc_law lib"
  shows "domain_index (cidr_trie_new tbl) (\<lambda>r t. fst (cidr_insert lib tbl r t)) (cidr_contains tbl)
    (cidr_covers lib) (\<lambda>_. True)"
  using assms by unfold_locales (simp_all add: cidr_contains_new cidr_contains_insert)

lemma make_ip_cidr_rules_fold:
  "make_ip_cidr_rules lib tbl rules t = fold (\<lambda>r t. fst (cidr_insert lib tbl r t)) rules t"
  by (induction rules arbitrary: t) simp_all

lemma make_ip_cidr_rules_contains:
  assumes "table_laws tbl" and "trunc_law lib"
  shows "cidr_contains tbl (make_ip_cidr_rules lib tbl rules (cidr_trie_new tbl)) ip \<longleftrightarrow>
    (\<exists>r \<in> set rules. cidr_covers lib r ip)"
  using domain_index.has_build [OF cidr_index [OF assms]] by (simp add: make_ip_cidr_rules_fold list_ex_iff)

lemma insert_nets_contains:
  assumes "table_laws (p_table lib)" and "trunc_law (p_net lib)"
  shows "cidr_contains (p_table lib) (insert_nets lib ns t) ip \<longleftrightarrow>
    (\<exists>n \<in> set ns. cidr_covers (p_net lib) (net_show (p_net lib) n) ip) \<or> cidr_contains (p_table lib) t ip"
  using assms by (induction ns arbitrary: t) (auto simp: cidr_contains_insert)

lemma nets_of_blocks:
  assumes "new_law lib" and "\<forall>(a, p) \<in> set bs. p \<le> ip_width a"
  shows "\<exists>ns. nets_of lib bs = Ok ns \<and>
    (\<forall>ip. (\<exists>n \<in> set ns. cidr_covers lib (net_show lib n) ip) = (\<exists>(a, p) \<in> set bs. in_prefix a p ip))"
  using assms(2)
proof (induction bs)
  case (Cons b bs)
  obtain a p where b: "b = (a, p)" by fastforce
  with Cons.prems have "p \<le> ip_width a" by simp
  with assms(1) obtain n where "net_new lib a p = Some n" "net_parse lib (net_show lib n) = Some n"
    "\<forall>ip. net_contains lib n ip = in_prefix a p ip"
    unfolding new_law_def by blast
  with Cons b show ?case by (auto simp: cidr_covers_def)
qed simp

section \<open>Address ranges\<close>

text \<open>The addresses of a range whose ends are both IPv4-mapped or both not.\<close>

fun in_range :: "ip_addr \<times> ip_addr \<Rightarrow> ip_addr \<Rightarrow> bool" where
  "in_range (V4 s, V4 e) (V4 x) = (s \<le> x \<and> x \<le> e)"
| "in_range (V6 s, V6 e) (V6 x) = (s \<le> x \<and> x \<le> e)"
| "in_range _ _ = False"

definition normal_range :: "u128 \<times> u128 \<Rightarrow> ip_addr \<times> ip_addr" where
  "normal_range r = (ip_normalize (V6 (fst r)), ip_normalize (V6 (snd r)))"

fun range_ok :: "u128 \<times> u128 \<Rightarrow> bool" where
  "range_ok (s, e) \<longleftrightarrow> s \<le> e \<and> is_ipv4 (ip_normalize (V6 s)) = is_ipv4 (ip_normalize (V6 e)) \<and> \<not> (s = 0 \<and> e = - 1)"

lemma div_eq_interval: "0 < (k :: nat) \<Longrightarrow> x div k = q \<longleftrightarrow> k * q \<le> x \<and> x < k * q + k"
  by (auto intro: div_nat_eqI simp: dividend_less_times_div add.commute)

lemma aligned_block:
  assumes "p \<le> w" and "2 ^ (w - p) dvd unat (a :: 'a::len word)"
  shows "same_prefix w p a x \<longleftrightarrow> unat x \<in> set [unat a..<unat a + 2 ^ (w - p)]"
proof -
  obtain q where q: "unat a = 2 ^ (w - p) * q" using assms(2) by (rule dvdE)
  then have "same_prefix w p a x \<longleftrightarrow> unat x div 2 ^ (w - p) = q" by (auto simp: same_prefix_def)
  also have "\<dots> \<longleftrightarrow> 2 ^ (w - p) * q \<le> unat x \<and> unat x < 2 ^ (w - p) * q + 2 ^ (w - p)"
    by (rule div_eq_interval) simp
  finally show ?thesis using q by simp
qed

lemma blocks_cover:
  assumes "aligned w bs" and "block_addrs w bs = [unat s..<unat e + 1]"
  shows "(\<exists>(a, p) \<in> set bs. same_prefix w p a x) \<longleftrightarrow> s \<le> (x :: 'a::len word) \<and> x \<le> e"
proof -
  have "(\<exists>(a, p) \<in> set bs. same_prefix w p a x) \<longleftrightarrow>
      (\<exists>(a, p) \<in> set bs. unat x \<in> set [unat a..<unat a + 2 ^ (w - p)])"
    using assms(1) by (intro bex_cong) (auto simp: aligned_def aligned_block simp del: set_upt)
  also have "\<dots> \<longleftrightarrow> unat x \<in> set (block_addrs w bs)" by (auto simp: block_addrs_def)
  finally show ?thesis by (auto simp: assms(2) word_le_nat_alt less_Suc_eq_le)
qed

lemma be_nat_append: "be_nat (xs @ ys) = be_nat xs * 256 ^ length ys + be_nat ys"
  by (induction ys rule: rev_induct) (simp_all add: append_assoc [symmetric] algebra_simps del: append_assoc)

lemma mapped_value:
  assumes "to_ipv4_mapped a = Some s"
  shows "unat a = be_nat (replicate 10 0 @ [0xFF, 0xFF]) * 256 ^ 4 + unat s"
proof -
  let ?bs = "be_put 16 a"
  have t: "take 12 ?bs = replicate 10 0 @ [0xFF, 0xFF]" and s: "s = be_get (drop 12 ?bs)"
    using assms by (simp_all add: to_ipv4_mapped_def Let_def split: if_splits)
  have "be_nat (drop 12 ?bs) < 2 ^ 32" using be_nat_less [of "drop 12 ?bs"] by simp
  then have "unat s = be_nat (drop 12 ?bs)" unfolding s be_get_def by (simp add: unat_of_nat)
  moreover have "unat a < 2 ^ 128" using unsigned_less [of a] by simp
  then have "unat a = be_nat ?bs" by (simp only: be_put_def be_nat_nat_be) simp
  moreover have "be_nat ?bs = be_nat (take 12 ?bs) * 256 ^ 4 + be_nat (drop 12 ?bs)"
    using be_nat_append [of "take 12 ?bs" "drop 12 ?bs"] by simp
  ultimately show ?thesis by (simp add: t)
qed

lemma mapped_mono:
  assumes "to_ipv4_mapped a = Some s" and "to_ipv4_mapped b = Some e" and "a \<le> b"
  shows "s \<le> e"
  using mapped_value [OF assms(1)] mapped_value [OF assms(2)] assms(3)
  unfolding word_le_nat_alt by linarith

lemma bex_apfst: "(\<exists>(a, p) \<in> set (map (apfst f) bs). P a p) \<longleftrightarrow> (\<exists>(a, p) \<in> set bs. P (f a) p)"
  by (simp add: split_beta)

lemma range_to_cidrs_in_range:
  assumes "range_ok (s, e)"
  shows "\<exists>bs. range_to_cidrs (V6 s) (V6 e) = Ok bs \<and> (\<forall>(a, p) \<in> set bs. p \<le> ip_width a) \<and>
    (\<forall>ip. (\<exists>(a, p) \<in> set bs. in_prefix a p ip) = in_range (normal_range (s, e)) ip)"
proof (cases "to_ipv4_mapped s")
  case None
  with assms have e: "to_ipv4_mapped e = None" by (auto split: option.splits)
  have cover: "aligned 128 (range_to_cidrs_v6 s e)"
      "block_addrs 128 (range_to_cidrs_v6 s e) = [unat s..<unat e + 1]"
    using assms range_to_cidrs_v6_cover by auto
  have "(\<exists>(a, p) \<in> set (map (apfst V6) (range_to_cidrs_v6 s e)). in_prefix a p ip) = in_range (V6 s, V6 e) ip" for ip
    unfolding bex_apfst by (cases ip) (simp_all add: blocks_cover [OF cover])
  moreover have "\<forall>(a, p) \<in> set (map (apfst V6) (range_to_cidrs_v6 s e)). p \<le> ip_width a"
    using cover(1) by (fastforce simp: aligned_def)
  ultimately show ?thesis using None e assms by (auto simp: range_to_cidrs_def normal_range_def)
next
  case (Some s4)
  with assms obtain e4 where e: "to_ipv4_mapped e = Some e4" by (auto split: option.splits)
  have "s4 \<le> e4" using assms by (intro mapped_mono [OF Some e]) simp
  then have cover: "aligned 32 (range_to_cidrs_v4 s4 e4)"
      "block_addrs 32 (range_to_cidrs_v4 s4 e4) = [unat s4..<unat e4 + 1]"
    using range_to_cidrs_v4_cover by auto
  have "(\<exists>(a, p) \<in> set (map (apfst V4) (range_to_cidrs_v4 s4 e4)). in_prefix a p ip) = in_range (V4 s4, V4 e4) ip" for ip
    unfolding bex_apfst by (cases ip) (simp_all add: blocks_cover [OF cover])
  moreover have "\<forall>(a, p) \<in> set (map (apfst V4) (range_to_cidrs_v4 s4 e4)). p \<le> ip_width a"
    using cover(1) by (fastforce simp: aligned_def)
  ultimately show ?thesis using Some e assms by (auto simp: range_to_cidrs_def normal_range_def)
qed

text \<open>The encoding of a range and of an IP payload.\<close>

fun put_range :: "u128 \<times> u128 \<Rightarrow> bytes" where
  "put_range (s, e) = be_put 16 s @ be_put 16 e"

definition put_ranges :: "(u128 \<times> u128) list \<Rightarrow> bytes" where
  "put_ranges rs = [IP_CIDR_SET_VERSION] @ be_put 8 (word_of_nat (length rs) :: u64) @ concat (map put_range rs)"

lemma read_ranges_contains:
  assumes "table_laws (p_table lib)" and "trunc_law (p_net lib)" and "new_law (p_net lib)"
    and "\<forall>r \<in> set rs. range_ok r"
  shows "\<exists>trie'. read_ranges lib (length rs) (concat (map put_range rs) @ rest) trie = Ok trie' \<and>
    (\<forall>ip. cidr_contains (p_table lib) trie' ip \<longleftrightarrow>
      (\<exists>r \<in> set rs. in_range (normal_range r) ip) \<or> cidr_contains (p_table lib) trie ip)"
  using assms(4)
proof (induction rs arbitrary: trie)
  case (Cons r rs)
  obtain s e where r: "r = (s, e)" by fastforce
  with Cons.prems have "range_ok (s, e)" by simp
  then obtain bs where bs: "range_to_cidrs (V6 s) (V6 e) = Ok bs" "\<forall>(a, p) \<in> set bs. p \<le> ip_width a"
      "\<forall>ip. (\<exists>(a, p) \<in> set bs. in_prefix a p ip) = in_range (normal_range (s, e)) ip"
    using range_to_cidrs_in_range by blast
  obtain ns where ns: "nets_of (p_net lib) bs = Ok ns"
      "\<forall>ip. (\<exists>n \<in> set ns. cidr_covers (p_net lib) (net_show (p_net lib) n) ip) = in_range (normal_range (s, e)) ip"
    using nets_of_blocks [OF assms(3) bs(2)] bs(3) by auto
  have "read_exact 32 (be_put 16 s @ be_put 16 e @ t) = Ok (be_put 16 s @ be_put 16 e, t)" for t
    by (simp add: read_exact_def)
  with Cons.prems Cons.IH [of "insert_nets lib ns trie"] show ?case
    by (auto simp: r bs(1) ns insert_nets_contains [OF assms(1, 2)] Let_def)
qed simp

lemma small_u64:
  assumes "n < 2 ^ 63"
  shows "unat (word_of_nat n :: u64) = n" and "\<not> sint (word_of_nat n :: u64) < 0"
proof -
  show u: "unat (word_of_nat n :: u64) = n" using assms by (simp add: unat_of_nat)
  show "\<not> sint (word_of_nat n :: u64) < 0"
    using assms by (simp add: sint_uint uint_nat u signed_take_bit_int_eq_self)
qed

lemma read_u64_length_put:
  "n < 2 ^ 63 \<Longrightarrow> read_u64_length (be_put 8 (word_of_nat n :: u64) @ s) = Ok (n, s)"
  by (simp add: read_u64_length_def small_u64 del: of_nat_power of_nat_numeral)

lemma parse_ipcidr_payload_contains:
  assumes "table_laws (p_table lib)" and "trunc_law (p_net lib)" and "new_law (p_net lib)"
    and "\<forall>r \<in> set rs. range_ok r" and "length rs < 2 ^ 63"
  shows "\<exists>trie. parse_ipcidr_payload lib (put_ranges rs @ rest) = Ok trie \<and>
    (\<forall>ip. cidr_contains (p_table lib) trie ip \<longleftrightarrow> (\<exists>r \<in> set rs. in_range (normal_range r) ip))"
  using read_ranges_contains [OF assms(1-4), of rest "cidr_trie_new (p_table lib)"]
  by (auto simp: parse_ipcidr_payload_def put_ranges_def read_u64_length_put [OF assms(5)]
    cidr_contains_new [OF assms(1)])

section \<open>Contents stay of the kind of the provider\<close>

fun content_kind :: "('n, 'r, 't, 's) rule_content \<Rightarrow> rule_set_behavior" where
  "content_kind (CDomain _) = BDomain"
| "content_kind (CIpcidr _) = BIpcidr"
| "content_kind (CClassical _) = BClassical"

lemma make_rules_kind: "make_rules lib b rules = Ok c \<Longrightarrow> content_kind c = b"
  by (auto simp: make_rules_def bind_result_Inr_iff split: rule_set_behavior.splits)

lemma rules_mrs_parse_kind: "rules_mrs_parse lib buf b = Ok c \<Longrightarrow> content_kind c = b"
  by (cases b) (auto simp: rules_mrs_parse_def bind_result_Inr_iff
    split: option.splits if_splits rule_set_behavior.splits)

lemma provider_parse_kind: "provider_parse lib p input = Ok c \<Longrightarrow> content_kind c = prov_behavior p"
  by (auto simp: provider_parse_def make_rules_kind rules_mrs_parse_kind
    split: rule_set_format.splits option.splits if_splits)

text \<open>
  The life of a provider. The fetcher delivers what the parser makes of the bytes it got.
\<close>

inductive provider_reach :: "('n, 'r, 't, 's) provider_lib \<Rightarrow> ('n, 'r, 't, 's) rule_provider \<Rightarrow> bool" for lib where
  reach_new: "provider_reach lib (rule_provider_new lib nm b f fetcher inline)"
| reach_init: "provider_reach lib p \<Longrightarrow> provider_initialize lib (provider_parse lib p input) p = Ok p' \<Longrightarrow>
    provider_reach lib p'"
| reach_update: "provider_reach lib p \<Longrightarrow>
    provider_update (bind_result (provider_parse lib p input) (\<lambda>c. Ok (c, same))) p = Ok p' \<Longrightarrow>
    provider_reach lib p'"

section \<open>Concrete crates\<close>

text \<open>Networks as pairs with the usual text form, tables as lists; they show that the laws can hold.\<close>

definition mask_addr :: "nat \<Rightarrow> nat \<Rightarrow> 'a::len word \<Rightarrow> 'a word" where
  "mask_addr w p a = word_of_nat (unat a div 2 ^ (w - p) * 2 ^ (w - p))"

fun pair_trunc :: "ip_addr \<times> nat \<Rightarrow> ip_addr \<times> nat" where
  "pair_trunc (V4 a, p) = (V4 (mask_addr 32 p a), p)"
| "pair_trunc (V6 a, p) = (V6 (mask_addr 128 p a), p)"

definition pair_new :: "ip_addr \<Rightarrow> nat \<Rightarrow> (ip_addr \<times> nat) option" where
  "pair_new a p = (if p \<le> ip_width a then Some (a, p) else None)"

definition pair_parse :: "string \<Rightarrow> (ip_addr \<times> nat) option" where
  "pair_parse s =
    Option.bind (rsplit_once (CHR ''/'') s) (\<lambda>(h, l).
    Option.bind (parse_ip h) (\<lambda>a. Option.bind (parse_digits 256 l) (pair_new a)))"

definition pair_lib :: "(ip_addr \<times> nat, string) net_lib" where
  "pair_lib = \<lparr> net_parse = pair_parse, net_new = pair_new, net_trunc = pair_trunc,
     net_contains = (\<lambda>(a, p) ip. in_prefix a p ip),
     net_show = (\<lambda>(a, p). show_ip a @ ''/'' @ show_dec p),
     regex_new = Inr, regex_is_match = (\<lambda>r s. r = s), regex_show = id \<rparr>"

definition list_tables :: "((u32 \<times> nat) list, (u128 \<times> nat) list) table_lib" where
  "list_tables = \<lparr> t4_new = [], t4_insert = (\<lambda>a p t. (a, p) # t),
     t4_match = (\<lambda>t x. list_ex (\<lambda>(a, p). same_prefix 32 p a x) t),
     t6_new = [], t6_insert = (\<lambda>a p t. (a, p) # t),
     t6_match = (\<lambda>t x. list_ex (\<lambda>(a, p). same_prefix 128 p a x) t) \<rparr>"

definition plain_lib :: "(ip_addr \<times> nat, string, (u32 \<times> nat) list, (u128 \<times> nat) list) provider_lib" where
  "plain_lib = \<lparr> p_net = pair_lib, p_table = list_tables, p_zstd = Some,
     p_yaml = (\<lambda>_. None), p_mmdb = None, p_geodata = None \<rparr>"

definition plain_env :: "(ip_addr \<times> nat, string) match_env" where
  "plain_env = \<lparr> env_lib = pair_lib, find_process = (\<lambda>_ _ _. None), providers = (\<lambda>_ _. Ok False) \<rparr>"

definition plain_session :: session where
  "plain_session = fst (session_default 0 0) \<lparr> destination := Ip (SocketV4 0x0A010203 443) \<rparr>"

lemma list_tables_laws: "table_laws list_tables"
  by (simp add: table_laws_def list_tables_def)

lemma same_prefix_mask:
  assumes "w = LENGTH('a)"
  shows "same_prefix w p (mask_addr w p a) x \<longleftrightarrow> same_prefix w p (a :: 'a::len word) x"
proof -
  have "unat a div 2 ^ (w - p) * 2 ^ (w - p) \<le> unat a" by simp
  then have "unat a div 2 ^ (w - p) * 2 ^ (w - p) < 2 ^ LENGTH('a)"
    using unsigned_less [of a] by (rule le_less_trans)
  then have "unat (mask_addr w p a) = unat a div 2 ^ (w - p) * 2 ^ (w - p)"
    unfolding mask_addr_def unat_of_nat by simp
  then show ?thesis by (simp add: same_prefix_def)
qed

lemma in_prefix_trunc: "in_prefix (fst (pair_trunc (a, p))) (snd (pair_trunc (a, p))) ip = in_prefix a p ip"
  by (cases a; cases ip) (simp_all add: same_prefix_mask)

lemma pair_new_Some: "pair_new a p = Some n \<Longrightarrow> n = (a, p) \<and> p \<le> ip_width a"
  by (auto simp: pair_new_def split: if_splits)

lemma pair_trunc_law: "trunc_law pair_lib"
proof -
  have "case pair_trunc n of (b, q) \<Rightarrow> q \<le> ip_width b \<and> (\<forall>ip. in_prefix (fst n) (snd n) ip = in_prefix b q ip)"
    if "pair_parse s = Some n" for s n
  proof -
    from that obtain a p where "n = (a, p)" "p \<le> ip_width a"
      by (auto simp: pair_parse_def Option.bind_eq_Some_conv dest!: pair_new_Some)
    then show ?thesis using in_prefix_trunc [of a p] by (cases a) auto
  qed
  then show ?thesis by (simp add: trunc_law_def pair_lib_def split_beta)
qed

lemma pair_parse_show:
  assumes "p \<le> ip_width a"
  shows "pair_parse (show_ip a @ CHR ''/'' # show_dec p) = Some (a, p)"
proof -
  have "p < 256" using assms by (cases a) auto
  moreover have "CHR ''/'' \<notin> set (show_dec p)" by (rule show_dec_no_char) (simp add: digit_val_def)
  ultimately show ?thesis
    using assms by (simp add: pair_parse_def rsplit_once_snoc parse_digits_show pair_new_def)
qed

lemma pair_new_law: "new_law pair_lib"
  using pair_parse_show by (auto simp: new_law_def pair_lib_def pair_new_def)

lemma plain_covers: "cidr_covers pair_lib ''10.0.0.0/8'' (V4 0x0A010203)"
  using pair_parse_show [of 8 "V4 0x0A000000"]
  by (simp add: cidr_covers_def pair_lib_def show_ipv4_def be_put_def same_prefix_def)

section \<open>Properties\<close>

text \<open>
  C33. A rule set of networks answers by membership: an inline provider with the IP behaviour, once
  initialized and while no writer holds its lock, says yes for a session exactly if one of its rule
  texts parses to a network that contains the destination address; a destination without an
  address counts as 0.0.0.0.
\<close>

theorem ipcidr_provider:
  assumes "table_laws (p_table lib)" and "trunc_law (p_net lib)"
    and "\<not> prov_fetcher p" and "prov_behavior p = BIpcidr"
  shows "\<exists>p'. provider_initialize lib fetched p = Ok p' \<and>
    provider_search env (p_table lib) False p' sess =
      Ok (\<exists>r \<in> set (unwrap_list (prov_inline p)). cidr_covers (p_net lib) r
        (case socks_ip (destination sess) of Some ip \<Rightarrow> ip | None \<Rightarrow> V4 0))"
  using assms(3, 4) make_ip_cidr_rules_contains [OF assms(1, 2)]
  by (simp add: provider_initialize_def provider_search_def make_rules_def)

theorem ipcidr_provider_witness:
  "\<exists>p'. provider_initialize plain_lib (Err Panic)
       (rule_provider_new plain_lib ''lan'' BIpcidr Yaml False (Some [''10.0.0.0/8''])) = Ok p' \<and>
     provider_search plain_env
       list_tables False p' (plain_session) = Ok True"
  using ipcidr_provider [of plain_lib "rule_provider_new plain_lib ''lan'' BIpcidr Yaml False (Some [''10.0.0.0/8''])"
    "Err Panic" plain_env plain_session]
  by (simp add: plain_lib_def list_tables_laws pair_trunc_law rule_provider_new_def unwrap_list_def
    plain_covers plain_session_def session_default_def)

text \<open>
  C25. A binary rule set of address ranges is read exactly: for a file with the right header, decompressed
  by the zstd parameter, whose ranges do not mix address families and are not the range of all IPv6
  addresses, the parser builds a table that contains precisely the addresses of the ranges, the
  IPv4-mapped ones as IPv4.
\<close>

theorem mrs_ipcidr_exact:
  assumes "table_laws (p_table lib)" and "trunc_law (p_net lib)" and "new_law (p_net lib)"
    and "\<forall>r \<in> set rs. range_ok r" and "length rs < 2 ^ 63" and "count < 2 ^ 63"
    and "p_zstd lib buf = Some (MRS_MAGIC_BYTES @ [BEHAVIOR_IPCIDR] @
      be_put 8 (word_of_nat count :: u64) @ be_put 8 (0 :: u64) @ put_ranges rs @ rest)"
  shows "\<exists>trie. rules_mrs_parse lib buf BIpcidr = Ok (CIpcidr trie) \<and>
    (\<forall>ip. cidr_contains (p_table lib) trie ip \<longleftrightarrow> (\<exists>r \<in> set rs. in_range (normal_range r) ip))"
proof -
  obtain trie where "parse_ipcidr_payload lib (put_ranges rs @ rest) = Ok trie"
    "\<forall>ip. cidr_contains (p_table lib) trie ip \<longleftrightarrow> (\<exists>r \<in> set rs. in_range (normal_range r) ip)"
    using parse_ipcidr_payload_contains [OF assms(1-5)] by blast
  moreover have "read_exact 4 (MRS_MAGIC_BYTES @ s) = Ok (MRS_MAGIC_BYTES, s)" for s
    by (simp add: read_exact_def MRS_MAGIC_BYTES_def)
  moreover note small_u64(2) [OF assms(6)]
  ultimately show ?thesis
    using assms(7) by (simp add: rules_mrs_parse_def from_mrs_byte_def BEHAVIOR_DOMAIN_def BEHAVIOR_IPCIDR_def)
qed

theorem mrs_ipcidr_exact_witness:
  "\<exists>trie. rules_mrs_parse plain_lib (MRS_MAGIC_BYTES @ [BEHAVIOR_IPCIDR] @
      be_put 8 (word_of_nat 1 :: u64) @ be_put 8 (0 :: u64) @ put_ranges [(10, 17)] @ []) BIpcidr =
        Ok (CIpcidr trie) \<and>
    (\<forall>ip. cidr_contains (p_table plain_lib) trie ip \<longleftrightarrow>
      (\<exists>r \<in> set [(10, 17)]. in_range (normal_range r) ip))"
  by (rule mrs_ipcidr_exact [where count = 1 and rest = "[]"])
    (simp_all add: plain_lib_def list_tables_laws pair_trunc_law pair_new_law to_ipv4_mapped_def be_put_def)

text \<open>
  Whatever the fetcher delivers and whenever it does, the content of a provider stays of the kind
  of its behaviour, so a search never takes the branch of another kind.
\<close>

theorem provider_content_kind:
  assumes "provider_reach lib p"
  shows "content_kind (prov_content p) = prov_behavior p"
  using assms
proof induction
  case (reach_new nm b f fetcher inline)
  then show ?case by (cases b) (simp_all add: rule_provider_new_def)
next
  case (reach_init p input p')
  then show ?case
    by (auto simp: provider_initialize_def bind_result_Inr_iff provider_parse_kind make_rules_kind
      split: if_splits sum.splits)
next
  case (reach_update p input same p')
  then show ?case
    by (auto simp: provider_update_def bind_result_Inr_iff provider_parse_kind split: if_splits)
qed

theorem provider_content_kind_witness:
  "content_kind (prov_content (rule_provider_new plain_lib ''ads'' BDomain Text True None)) = BDomain"
  using provider_content_kind [OF reach_new [of plain_lib "''ads''" BDomain Text True None]]
  by (simp add: rule_provider_new_def)

text \<open>
  A binary domain set whose header announces \<open>2 ^ 60\<close> leaves stops the process: the capacity is
  reserved before a single element is read, and the reservation overflows. The limit on lengths that
  the label bytes have does not guard the two word vectors.
\<close>

theorem mrs_domain_capacity_panics:
  "parse_domain_payload ([DOMAIN_SET_VERSION] @ be_put 8 (2 ^ 60 :: u64) @ rest) = Err Panic"
  using read_u64_length_put [of "2 ^ 60" rest]
  by (simp add: parse_domain_payload_def read_u64_vec_def)

end
