(* ===== verification/Router.thy ===== *)
theory Router
  imports Rule_Provider
begin

text \<open>
  Model of the router, \<^verbatim>\<open>app/router/mod.rs\<close>: the registry of rule providers, the construction of
  the matchers from the configured rules and \<^verbatim>\<open>match_route\<close>, which walks through the rules,
  resolves the destination at most once when a rule needs an address, attaches the network name and
  returns the first rule that applies. What the resolver, the databases and the process table answer
  are parameters; the resolver may answer differently on every call.
\<close>

section \<open>Rule providers of the configuration\<close>

datatype rule_provider_def =
    HttpProvider string nat rule_set_behavior string "rule_set_format option" "string list option"
  | FileProvider string "nat option" rule_set_behavior "rule_set_format option" "string list option"
  | InlineProvider string rule_set_behavior "string list"

definition format_or_default :: "rule_set_format option \<Rightarrow> rule_set_format" where
  "format_or_default f = (case f of Some x \<Rightarrow> x | None \<Rightarrow> Yaml)"

text \<open>\<open>uri_ok\<close> is the parser of the \<^verbatim>\<open>http\<close> crate. A remote or file provider has a fetcher.\<close>

definition load_rule_provider ::
  "('n, 'r, 't, 's) provider_lib \<Rightarrow> (string \<Rightarrow> bool) \<Rightarrow> string \<Rightarrow> rule_provider_def \<Rightarrow>
   ('n, 'r, 't, 's) rule_provider result" where
  "load_rule_provider lib uri_ok nm def =
    (case def of
       HttpProvider url interval behavior path fmt inline \<Rightarrow>
         if uri_ok url then Ok (rule_provider_new lib nm behavior (format_or_default fmt) True inline)
         else Err (Exit (''invalid provider url: '' @ url))
     | FileProvider path interval behavior fmt inline \<Rightarrow>
         Ok (rule_provider_new lib nm behavior (format_or_default fmt) True inline)
     | InlineProvider path behavior inline \<Rightarrow>
         Ok (rule_provider_new lib nm behavior Yaml False (Some inline)))"

text \<open>The configured map has unique names; an association list in the order of its iteration.\<close>

fun load_rule_providers ::
  "('n, 'r, 't, 's) provider_lib \<Rightarrow> (string \<Rightarrow> bool) \<Rightarrow> (string \<times> rule_provider_def) list \<Rightarrow>
   (string \<times> ('n, 'r, 't, 's) rule_provider) list result" where
  "load_rule_providers lib uri_ok [] = Ok []"
| "load_rule_providers lib uri_ok ((nm, def) # defs) =
    bind_result (load_rule_provider lib uri_ok nm def) (\<lambda>p.
    bind_result (load_rule_providers lib uri_ok defs) (\<lambda>ps. Ok ((nm, p) # ps)))"

section \<open>The router\<close>

record asn_db =
  db_country :: "ip_addr \<Rightarrow> string option"
  db_asn :: "ip_addr \<Rightarrow> string option"

record ('n, 'r, 't, 's) router =
  r_rules :: "('n, 'r) rule_matcher list"
  r_registry :: "(string \<times> ('n, 'r, 't, 's) rule_provider) list"
  asn_mmdb :: "asn_db option"

definition MATCH :: string where "MATCH = ''MATCH''"

fun map_rules ::
  "('n, 'r, 't, 's) provider_lib \<Rightarrow> string list \<Rightarrow> ('n, 'r) rule_type list \<Rightarrow> ('n, 'r) rule_matcher list result" where
  "map_rules lib names [] = Ok []"
| "map_rules lib names (r # rs) =
    bind_result (map_rule_type (p_net lib) (p_mmdb lib) (p_geodata lib) (Some names) r) (\<lambda>m.
    bind_result (map_rules lib names rs) (\<lambda>ms. Ok (m # ms)))"

definition router_new ::
  "('n, 'r, 't, 's) provider_lib \<Rightarrow> (string \<Rightarrow> bool) \<Rightarrow> ('n, 'r) rule_type list \<Rightarrow>
   (string \<times> rule_provider_def) list \<Rightarrow> asn_db option \<Rightarrow> ('n, 'r, 't, 's) router result" where
  "router_new lib uri_ok rules provs asn_db =
    bind_result (load_rule_providers lib uri_ok provs) (\<lambda>registry.
    bind_result (map_rules lib (map fst registry) rules) (\<lambda>ms.
      Ok \<lparr> r_rules = ms, r_registry = registry, asn_mmdb = asn_db \<rparr>))"

section \<open>match\_route\<close>

text \<open>
  The world during one call: the answer of the resolver to its \<open>n\<close>-th query (an error counts as no
  address), the process table, and whether the lock of a provider is taken at the \<open>n\<close>-th rule.
\<close>

record world =
  w_resolve :: "nat \<Rightarrow> string \<Rightarrow> ip_addr option"
  w_process :: "socket_addr option \<Rightarrow> socket_addr option \<Rightarrow> network \<Rightarrow> string option"
  w_busy :: "nat \<Rightarrow> string \<Rightarrow> bool"

text \<open>The rules inside a rule set hold no rule sets themselves.\<close>

definition inner_env :: "('n, 'r, 't, 's) provider_lib \<Rightarrow> world \<Rightarrow> ('n, 'r) match_env" where
  "inner_env lib w = \<lparr> env_lib = p_net lib, find_process = w_process w, providers = (\<lambda>_ _. Err Panic) \<rparr>"

definition route_env ::
  "('n, 'r, 't, 's) provider_lib \<Rightarrow> ('n, 'r, 't, 's) router \<Rightarrow> world \<Rightarrow> nat \<Rightarrow> ('n, 'r) match_env" where
  "route_env lib rt w i =
    (inner_env lib w) \<lparr> providers := (\<lambda>nm sess.
       case map_of (r_registry rt) nm of
         Some p \<Rightarrow> provider_search (inner_env lib w) (p_table lib) (w_busy w i nm) p sess
       | None \<Rightarrow> Err Panic) \<rparr>"

record route_state =
  rs_sess :: session
  sess_resolved :: bool
  rs_queries :: nat

text \<open>The first statement of the loop body: a query when the rule wants an address.\<close>

definition route_resolve :: "world \<Rightarrow> ('n, 'r) rule_matcher \<Rightarrow> route_state \<Rightarrow> route_state" where
  "route_resolve w r st =
    (case socks_domain (destination (rs_sess st)) of
       None \<Rightarrow> st
     | Some d \<Rightarrow>
         if should_resolve_ip r \<and> \<not> sess_resolved st then
           case w_resolve w (rs_queries st) d of
             Some ip \<Rightarrow> \<lparr> rs_sess = (rs_sess st) \<lparr> resolved_ip := Some ip \<rparr>, sess_resolved = True,
                          rs_queries = rs_queries st + 1 \<rparr>
           | None \<Rightarrow> st \<lparr> rs_queries := rs_queries st + 1 \<rparr>
         else st)"

text \<open>The second: the country of the address, or the name of its network if there is none yet.\<close>

definition route_asn :: "asn_db option \<Rightarrow> session \<Rightarrow> session" where
  "route_asn adb sess =
    (case (session_ip sess, adb) of
       (Some ip, Some db) \<Rightarrow>
         let s = (case db_country db ip of Some c \<Rightarrow> sess \<lparr> asn := Some c \<rparr> | None \<Rightarrow> sess)
         in if asn s = None
            then (case db_asn db ip of Some a \<Rightarrow> s \<lparr> asn := Some a \<rparr> | None \<Rightarrow> s)
            else s
     | _ \<Rightarrow> sess)"

definition route_prepare ::
  "('n, 'r, 't, 's) router \<Rightarrow> world \<Rightarrow> ('n, 'r) rule_matcher \<Rightarrow> route_state \<Rightarrow> route_state" where
  "route_prepare rt w r st =
    (let st = route_resolve w r st in st \<lparr> rs_sess := route_asn (asn_mmdb rt) (rs_sess st) \<rparr>)"

fun match_loop ::
  "('n, 'r, 't, 's) provider_lib \<Rightarrow> ('n, 'r, 't, 's) router \<Rightarrow> world \<Rightarrow> nat \<Rightarrow> ('n, 'r) rule_matcher list \<Rightarrow>
   route_state \<Rightarrow> (string \<times> ('n, 'r) rule_matcher option) result \<times> route_state" where
  "match_loop lib rt w i [] st = (Ok (MATCH, None), st)"
| "match_loop lib rt w i (r # rs) st =
    (let st = route_prepare rt w r st in
     case matcher_apply (route_env lib rt w i) r (rs_sess st) of
       Inl e \<Rightarrow> (Err e, st)
     | Inr True \<Rightarrow> (Ok (matcher_target r, Some r), st)
     | Inr False \<Rightarrow> match_loop lib rt w (i + 1) rs st)"

definition match_route ::
  "('n, 'r, 't, 's) provider_lib \<Rightarrow> ('n, 'r, 't, 's) router \<Rightarrow> world \<Rightarrow> session \<Rightarrow>
   (string \<times> ('n, 'r) rule_matcher option) result \<times> route_state" where
  "match_route lib rt w sess =
    match_loop lib rt w 0 (r_rules rt) \<lparr> rs_sess = sess, sess_resolved = False, rs_queries = 0 \<rparr>"

section \<open>The network name does not influence matching\<close>

lemma any_apply_asn: "providers_blind env \<Longrightarrow> any_apply env ms (sess \<lparr> asn := a \<rparr>) = any_apply env ms sess"
  by (induction ms) (simp_all add: matcher_apply_asn cong: if_cong)

lemma provider_search_asn:
  "providers_blind env \<Longrightarrow> provider_search env tbl b p (sess \<lparr> asn := a \<rparr>) = provider_search env tbl b p sess"
  by (simp add: provider_search_def any_apply_asn cong: rule_content.case_cong)

lemma inner_env_blind: "providers_blind (inner_env lib w)"
  by (simp add: providers_blind_def inner_env_def)

lemma route_env_blind: "providers_blind (route_env lib rt w i)"
  by (simp add: providers_blind_def route_env_def provider_search_asn [OF inner_env_blind] split: option.split)

lemma route_asn_frame: "\<exists>a. route_asn adb sess = sess \<lparr> asn := a \<rparr>"
proof -
  have "\<exists>a. sess = sess \<lparr> asn := a \<rparr>" by (rule exI [of _ "asn sess"]) simp
  moreover have "\<exists>a. sess \<lparr> asn := x \<rparr> = sess \<lparr> asn := a \<rparr>" for x by blast
  ultimately show ?thesis unfolding route_asn_def Let_def by (simp split: option.split)
qed

lemma route_asn_None [simp]: "route_asn None sess = sess"
  by (simp add: route_asn_def split: option.split)

lemma apply_route_asn:
  "matcher_apply (route_env lib rt w i) r (route_asn adb sess) = matcher_apply (route_env lib rt w i) r sess"
  using route_asn_frame [of adb sess] by (auto simp: matcher_apply_asn [OF route_env_blind])

section \<open>What each rule sees\<close>

text \<open>
  The first query that brings an address among the first \<open>m\<close> ones, the number of rules that want an
  address among the first \<open>i\<close> ones, and the session that results from them.
\<close>

primrec find_answer :: "world \<Rightarrow> string \<Rightarrow> nat \<Rightarrow> nat option" where
  "find_answer w d 0 = None"
| "find_answer w d (Suc m) =
    (case find_answer w d m of Some j \<Rightarrow> Some j | None \<Rightarrow> if w_resolve w m d = None then None else Some m)"

definition asks :: "('n, 'r) rule_matcher list \<Rightarrow> nat \<Rightarrow> nat" where
  "asks rules i = length (filter should_resolve_ip (take i rules))"

definition route_view :: "world \<Rightarrow> session \<Rightarrow> ('n, 'r) rule_matcher list \<Rightarrow> nat \<Rightarrow> session" where
  "route_view w sess rules i =
    (case socks_domain (destination sess) of
       None \<Rightarrow> sess
     | Some d \<Rightarrow>
         (case find_answer w d (asks rules i) of
            Some j \<Rightarrow> sess \<lparr> resolved_ip := w_resolve w j d \<rparr>
          | None \<Rightarrow> sess))"

definition route_inv :: "world \<Rightarrow> session \<Rightarrow> ('n, 'r) rule_matcher list \<Rightarrow> nat \<Rightarrow> route_state \<Rightarrow> bool" where
  "route_inv w sess rules i st \<longleftrightarrow>
    (\<exists>a. rs_sess st = (route_view w sess rules i) \<lparr> asn := a \<rparr>) \<and>
    (case socks_domain (destination sess) of
       None \<Rightarrow> \<not> sess_resolved st \<and> rs_queries st = 0
     | Some d \<Rightarrow>
         (case find_answer w d (asks rules i) of
            Some j \<Rightarrow> sess_resolved st \<and> rs_queries st = j + 1
          | None \<Rightarrow> \<not> sess_resolved st \<and> rs_queries st = asks rules i))"

lemma asks_Suc: "i < length rules \<Longrightarrow> asks rules (Suc i) = asks rules i + (if should_resolve_ip (rules ! i) then 1 else 0)"
  by (simp add: asks_def take_Suc_conv_app_nth)

lemma find_answer_less: "find_answer w d m = Some j \<Longrightarrow> j < m \<and> w_resolve w j d \<noteq> None"
  by (induction m) (auto split: option.splits if_splits)

lemma route_view_destination [simp]: "destination (route_view w sess rules i) = destination sess"
  by (simp add: route_view_def split: option.split)

lemma route_view_frame: "\<exists>ip. route_view w sess rules i = sess \<lparr> resolved_ip := ip \<rparr>"
proof -
  have "\<exists>ip. sess = sess \<lparr> resolved_ip := ip \<rparr>" by (rule exI [of _ "resolved_ip sess"]) simp
  moreover have "\<exists>ip. sess \<lparr> resolved_ip := x \<rparr> = sess \<lparr> resolved_ip := ip \<rparr>" for x by blast
  ultimately show ?thesis unfolding route_view_def by (simp split: option.split)
qed

lemma route_inv_start: "route_inv w sess rules 0 \<lparr> rs_sess = sess, sess_resolved = False, rs_queries = 0 \<rparr>"
  by (auto simp: route_inv_def route_view_def asks_def split: option.split intro: exI [of _ "asn sess"])

lemma route_inv_resolve:
  assumes "route_inv w sess rules i st" and "i < length rules"
  shows "route_inv w sess rules (Suc i) (route_resolve w (rules ! i) st)"
proof (cases "socks_domain (destination sess)")
  case None
  with assms show ?thesis by (auto simp: route_inv_def route_resolve_def route_view_def)
next
  case (Some d)
  obtain a where a: "rs_sess st = (route_view w sess rules i) \<lparr> asn := a \<rparr>"
    using assms(1) by (auto simp: route_inv_def)
  have d: "socks_domain (destination (rs_sess st)) = Some d" using Some by (simp add: a)
  have inv: "case find_answer w d (asks rules i) of
      Some j \<Rightarrow> sess_resolved st \<and> rs_queries st = j + 1
    | None \<Rightarrow> \<not> sess_resolved st \<and> rs_queries st = asks rules i"
    using assms(1) Some by (simp add: route_inv_def)
  show ?thesis
  proof (cases "should_resolve_ip (rules ! i) \<and> find_answer w d (asks rules i) = None")
    case True
    with inv have "\<not> sess_resolved st" "rs_queries st = asks rules i" by simp_all
    with True a Some asks_Suc [OF assms(2)] d show ?thesis
      by (cases "w_resolve w (asks rules i) d") (auto simp: route_inv_def route_view_def route_resolve_def intro!: exI [of _ a])
  next
    case False
    then have same: "route_resolve w (rules ! i) st = st"
      using inv by (auto simp: route_resolve_def d)
    have "find_answer w d (asks rules (Suc i)) = find_answer w d (asks rules i)"
      "find_answer w d (asks rules i) = None \<Longrightarrow> asks rules (Suc i) = asks rules i"
      using False asks_Suc [OF assms(2)] by auto
    with same inv a Some show ?thesis by (auto simp: route_inv_def route_view_def split: option.split)
  qed
qed

lemma route_inv_prepare:
  assumes "route_inv w sess rules i st" and "i < length rules"
  shows "route_inv w sess rules (Suc i) (route_prepare rt w (rules ! i) st)"
proof -
  let ?st = "route_resolve w (rules ! i) st"
  have inv: "route_inv w sess rules (Suc i) ?st" using assms by (rule route_inv_resolve)
  obtain b where "route_asn (asn_mmdb rt) (rs_sess ?st) = (rs_sess ?st) \<lparr> asn := b \<rparr>"
    using route_asn_frame by blast
  with inv show ?thesis by (auto simp: route_inv_def route_prepare_def Let_def split: option.splits)
qed

text \<open>What a rule answers is what it answers on the session it sees.\<close>

abbreviation rule_answer ::
  "('n, 'r, 't, 's) provider_lib \<Rightarrow> ('n, 'r, 't, 's) router \<Rightarrow> world \<Rightarrow> session \<Rightarrow> nat \<Rightarrow> bool result" where
  "rule_answer lib rt w sess i \<equiv>
    matcher_apply (route_env lib rt w i) (r_rules rt ! i) (route_view w sess (r_rules rt) (Suc i))"

lemma apply_route_inv:
  assumes "route_inv w sess (r_rules rt) (Suc i) st"
  shows "matcher_apply (route_env lib rt w i) (r_rules rt ! i) (rs_sess st) = rule_answer lib rt w sess i"
  using assms by (auto simp: route_inv_def matcher_apply_asn [OF route_env_blind])

lemma match_loop_spec:
  assumes "route_inv w sess (r_rules rt) i st" and "i \<le> length (r_rules rt)"
  shows "\<exists>k. i \<le> k \<and> k \<le> length (r_rules rt) \<and> (\<forall>j. i \<le> j \<and> j < k \<longrightarrow> rule_answer lib rt w sess j = Ok False) \<and>
    route_inv w sess (r_rules rt) (min (Suc k) (length (r_rules rt))) (snd (match_loop lib rt w i (drop i (r_rules rt)) st)) \<and>
    (if k = length (r_rules rt) then fst (match_loop lib rt w i (drop i (r_rules rt)) st) = Ok (MATCH, None)
     else rule_answer lib rt w sess k \<noteq> Ok False \<and>
       fst (match_loop lib rt w i (drop i (r_rules rt)) st) =
         bind_result (rule_answer lib rt w sess k) (\<lambda>_. Ok (matcher_target (r_rules rt ! k), Some (r_rules rt ! k))))"
  using assms
proof (induction "length (r_rules rt) - i" arbitrary: i st)
  case 0
  then show ?case by (intro exI [of _ i]) auto
next
  case (Suc n)
  let ?rs = "r_rules rt" and ?ans = "rule_answer lib rt w sess i"
  define st' where "st' = route_prepare rt w (?rs ! i) st"
  have i: "i < length ?rs" using Suc by simp
  then have d: "drop i ?rs = ?rs ! i # drop (Suc i) ?rs" by (simp add: Cons_nth_drop_Suc)
  have inv: "route_inv w sess ?rs (Suc i) st'"
    unfolding st'_def using Suc.prems(1) i by (rule route_inv_prepare)
  note ans = apply_route_inv [OF inv, of lib]
  show ?case
  proof (cases "?ans = Ok False")
    case True
    have step: "match_loop lib rt w i (drop i ?rs) st = match_loop lib rt w (Suc i) (drop (Suc i) ?rs) st'"
      using True ans by (simp add: d st'_def)
    have "n = length ?rs - Suc i" "Suc i \<le> length ?rs" using Suc i by simp_all
    from Suc.hyps(1) [OF this(1) inv this(2)] obtain k where "Suc i \<le> k"
      and k: "k \<le> length ?rs" "\<forall>j. Suc i \<le> j \<and> j < k \<longrightarrow> rule_answer lib rt w sess j = Ok False"
      "route_inv w sess ?rs (min (Suc k) (length ?rs)) (snd (match_loop lib rt w i (drop i ?rs) st))"
      "if k = length ?rs then fst (match_loop lib rt w i (drop i ?rs) st) = Ok (MATCH, None)
       else rule_answer lib rt w sess k \<noteq> Ok False \<and> fst (match_loop lib rt w i (drop i ?rs) st) =
         bind_result (rule_answer lib rt w sess k) (\<lambda>_. Ok (matcher_target (?rs ! k), Some (?rs ! k)))"
      unfolding step by blast
    moreover have "\<forall>j. i \<le> j \<and> j < k \<longrightarrow> rule_answer lib rt w sess j = Ok False"
      using k(2) True by (metis Suc_leI le_neq_implies_less)
    ultimately show ?thesis by (intro exI [of _ k]) simp
  next
    case False
    have "match_loop lib rt w i (drop i ?rs) st =
        (bind_result ?ans (\<lambda>_. Ok (matcher_target (?rs ! i), Some (?rs ! i))), st')"
      using False ans by (auto simp: d st'_def [symmetric] bind_result_def Let_def split: sum.splits bool.splits)
    with False i inv show ?thesis by (intro exI [of _ i]) (auto simp: min_def)
  qed
qed

lemma match_route_spec:
  "\<exists>k. k \<le> length (r_rules rt) \<and> (\<forall>j < k. rule_answer lib rt w sess j = Ok False) \<and>
    route_inv w sess (r_rules rt) (min (Suc k) (length (r_rules rt))) (snd (match_route lib rt w sess)) \<and>
    (if k = length (r_rules rt) then fst (match_route lib rt w sess) = Ok (MATCH, None)
     else rule_answer lib rt w sess k \<noteq> Ok False \<and>
       fst (match_route lib rt w sess) =
         bind_result (rule_answer lib rt w sess k) (\<lambda>_. Ok (matcher_target (r_rules rt ! k), Some (r_rules rt ! k))))"
  using match_loop_spec [OF route_inv_start le0, where w = w and sess = sess and rt = rt and lib = lib]
  by (simp only: match_route_def drop_0 le0 simp_thms)

lemma match_route_frame: "\<exists>ip a. rs_sess (snd (match_route lib rt w sess)) = sess \<lparr> resolved_ip := ip, asn := a \<rparr>"
proof -
  obtain i where inv: "route_inv w sess (r_rules rt) i (snd (match_route lib rt w sess))"
    using match_route_spec [of rt lib w sess] by blast
  obtain ip where "route_view w sess (r_rules rt) i = sess \<lparr> resolved_ip := ip \<rparr>"
    using route_view_frame by blast
  with inv show ?thesis unfolding route_inv_def by metis
qed

lemma asks_le: "asks rules i \<le> length (filter should_resolve_ip rules)"
proof -
  have "filter should_resolve_ip rules =
      filter should_resolve_ip (take i rules) @ filter should_resolve_ip (drop i rules)"
    by (simp flip: filter_append)
  then show ?thesis by (simp add: asks_def)
qed

lemma find_answer_first: "find_answer w d m = Some j \<Longrightarrow> n < j \<Longrightarrow> w_resolve w n d = None"
proof (induction m)
  case (Suc m)
  have none: "find_answer w d m = None \<Longrightarrow> n < m \<Longrightarrow> w_resolve w n d = None" for m
    by (induction m) (auto simp: less_Suc_eq split: option.splits if_splits)
  from Suc none [of m] show ?case by (auto split: option.splits if_splits)
qed simp

lemma find_answer_None: "find_answer w d m = None \<Longrightarrow> n < m \<Longrightarrow> w_resolve w n d = None"
  by (induction m) (auto simp: less_Suc_eq split: option.splits if_splits)

text \<open>The loop reads of the router only the registry and the network database.\<close>

lemma match_loop_router:
  assumes "r_registry rt = r_registry rt'" and "asn_mmdb rt = asn_mmdb rt'"
  shows "match_loop lib rt w i rs st = match_loop lib rt' w i rs st"
  by (induction rs arbitrary: i st)
    (simp_all add: Let_def route_prepare_def route_env_def assms split: sum.split bool.split)

lemma match_loop_final:
  "match_loop lib rt w i (rs @ MFinal t # rs') st = match_loop lib rt w i (rs @ [MFinal t]) st \<and>
   (\<forall>x. fst (match_loop lib rt w i (rs @ [MFinal t]) st) \<noteq> Ok (x, None))"
  by (induction rs arbitrary: i st) (auto simp: Let_def split: sum.split bool.split)

section \<open>Properties\<close>

text \<open>
  C1. Routing is first match: every rule before the one chosen answers no on the session it sees, which
  is the given session with the first address the resolver has delivered to the rules up to there
  that want one; the rule chosen is the first that answers yes, an abort in a rule ends the search
  with it, and only when all rules answer no the result is MATCH without a rule. The network name
  attached on the way has no influence.
\<close>

theorem match_route_first_match:
  "\<exists>k \<le> length (r_rules rt).
    (\<forall>j < k. matcher_apply (route_env lib rt w j) (r_rules rt ! j) (route_view w sess (r_rules rt) (Suc j)) = Ok False) \<and>
    (if k = length (r_rules rt) then fst (match_route lib rt w sess) = Ok (MATCH, None)
     else
       let r = r_rules rt ! k; ans = matcher_apply (route_env lib rt w k) r (route_view w sess (r_rules rt) (Suc k))
       in ans \<noteq> Ok False \<and> fst (match_route lib rt w sess) = bind_result ans (\<lambda>_. Ok (matcher_target r, Some r)))"
  using match_route_spec [of rt lib w sess] unfolding Let_def by blast

definition plain_world :: world where
  "plain_world = \<lparr> w_resolve = (\<lambda>n d. if n = 1 then Some (V4 0x0203) else None),
     w_process = (\<lambda>_ _ _. None), w_busy = (\<lambda>_ _. False) \<rparr>"

definition plain_router :: "(ip_addr \<times> nat, string, (u32 \<times> nat) list, (u128 \<times> nat) list) router" where
  "plain_router = \<lparr> r_rules = [MIpCidr (V4 0x0300, 24) ''a'' False False, MDomain ''x.org'' ''b'',
      MIpCidr (V4 0x0200, 24) ''c'' False False, MFinal ''d''],
     r_registry = [], asn_mmdb = None \<rparr>"

definition plain_domain :: session where
  "plain_domain = plain_session \<lparr> destination := Domain ''x.com'' 80 \<rparr>"

theorem match_route_first_match_witness:
  "(\<exists>k \<le> length (r_rules plain_router).
    (\<forall>j < k. matcher_apply (route_env plain_lib plain_router plain_world j) (r_rules plain_router ! j)
      (route_view plain_world plain_domain (r_rules plain_router) (Suc j)) = Ok False) \<and>
    (if k = length (r_rules plain_router)
     then fst (match_route plain_lib plain_router plain_world plain_domain) = Ok (MATCH, None)
     else
       let r = r_rules plain_router ! k;
           ans = matcher_apply (route_env plain_lib plain_router plain_world k) r
             (route_view plain_world plain_domain (r_rules plain_router) (Suc k))
       in ans \<noteq> Ok False \<and> fst (match_route plain_lib plain_router plain_world plain_domain) =
         bind_result ans (\<lambda>_. Ok (matcher_target r, Some r)))) \<and>
   map_sum id fst (fst (match_route plain_lib plain_router plain_world plain_domain)) = Ok ''c''"
  by (rule conjI, rule match_route_first_match)
    (simp add: match_route_def plain_router_def plain_domain_def plain_session_def session_default_def
      plain_world_def plain_lib_def pair_lib_def route_prepare_def route_resolve_def Let_def
      route_env_def inner_env_def session_ip_def same_prefix_def parse_ip_none digit_val_def)

text \<open>
  C32. Routing disturbs the session and the resolver little: it changes nothing of the session but the
  resolved address and the network name, asks the resolver at most once per rule that wants an
  address and never after an answer, and does not ask at all for an address destination.
\<close>

theorem match_route_queries:
  assumes "snd (match_route lib rt w sess) = st"
  shows "(\<exists>ip a. rs_sess st = sess \<lparr> resolved_ip := ip, asn := a \<rparr>) \<and>
    rs_queries st \<le> length (filter should_resolve_ip (r_rules rt)) \<and>
    (socks_domain (destination sess) = None \<longrightarrow> rs_queries st = 0) \<and>
    (\<forall>d n. socks_domain (destination sess) = Some d \<and> n + 1 < rs_queries st \<longrightarrow> w_resolve w n d = None)"
proof -
  obtain i where inv: "route_inv w sess (r_rules rt) i st"
    using match_route_spec [of rt lib w sess] assms by blast
  have "\<exists>ip a. rs_sess st = sess \<lparr> resolved_ip := ip, asn := a \<rparr>"
    using match_route_frame [of lib rt w sess] by (simp add: assms)
  moreover have "rs_queries st \<le> length (filter should_resolve_ip (r_rules rt))"
    using inv asks_le [of "r_rules rt" i]
    by (auto simp: route_inv_def split: option.splits dest!: find_answer_less)
  moreover have "\<forall>d n. socks_domain (destination sess) = Some d \<and> n + 1 < rs_queries st \<longrightarrow> w_resolve w n d = None"
    using inv by (auto simp: route_inv_def split: option.splits dest: find_answer_first find_answer_None [OF _ Suc_lessD])
  ultimately show ?thesis using inv by (auto simp: route_inv_def)
qed

theorem match_route_queries_witness:
  "rs_queries (snd (match_route plain_lib plain_router plain_world plain_domain)) \<le> 2"
  using match_route_queries [OF refl, of plain_lib plain_router plain_world plain_domain]
  by (simp add: plain_router_def)

text \<open>
  A catch-all rule closes the rule list: whatever follows it is irrelevant to the result and to the
  session, and the result always names a rule unless a rule aborts.
\<close>

theorem match_route_final:
  assumes "r_rules rt = rs @ MFinal t # rs'"
  shows "match_route lib rt w sess = match_route lib (rt \<lparr> r_rules := rs @ [MFinal t] \<rparr>) w sess \<and>
    (\<forall>x. fst (match_route lib rt w sess) \<noteq> Ok (x, None))"
  using match_loop_final [of lib rt w 0 rs t rs']
  by (simp add: match_route_def assms match_loop_router [of "rt \<lparr> r_rules := rs @ [MFinal t] \<rparr>" rt])

theorem match_route_final_witness:
  "\<forall>x. fst (match_route plain_lib plain_router plain_world plain_domain) \<noteq> Ok (x, None)"
  using match_route_final [of plain_router "butlast (r_rules plain_router)" "''d''" "[]"]
  by (simp add: plain_router_def)

end
