(* ===== verification/Dns_Client.thy ===== *)
theory Dns_Client
  imports Proxy_Manager Trie Rule_Config
begin

text \<open>
  DNS messages, name servers and their clients: \<^verbatim>\<open>app/dns/config.rs\<close>, \<^verbatim>\<open>helper.rs\<close> and
  \<^verbatim>\<open>dns_client.rs\<close>.

  A message is a record of the parts of the \<^verbatim>\<open>hickory\<close> message that the code reads or writes; a
  domain name of that crate is a type \<open>'n\<close> with the conversions the code calls. URL parsing, the
  network interfaces, the connections of a client and the random identifier are arguments.
\<close>

section \<open>Messages\<close>

datatype record_type = RtA | RtAAAA | RtTXT | RtOther u16

datatype rdata = RDataA u32 | RDataAAAA u128 | RDataOther record_type bytes

fun rdata_type :: "rdata \<Rightarrow> record_type" where
  "rdata_type (RDataA _) = RtA"
| "rdata_type (RDataAAAA _) = RtAAAA"
| "rdata_type (RDataOther t _) = t"

record 'n dns_record =
  rec_name :: 'n
  rec_ttl :: u32
  rec_data :: rdata

record 'n dns_query =
  q_name :: 'n
  q_type :: record_type
  q_class :: u16

definition class_IN :: u16 where "class_IN = 1"

datatype edns_code = CodePadding | CodeSubnet | CodeOther u16

datatype edns_option = OptPadding | OptSubnet ip_addr u8 u8 | OptOther u16 bytes

fun option_code :: "edns_option \<Rightarrow> edns_code" where
  "option_code OptPadding = CodePadding"
| "option_code (OptSubnet _ _ _) = CodeSubnet"
| "option_code (OptOther c _) = CodeOther c"

text \<open>The options of an EDNS record, one per code.\<close>

definition opt_remove :: "edns_code \<Rightarrow> edns_option list \<Rightarrow> edns_option list" where
  "opt_remove c os = filter (\<lambda>x. option_code x \<noteq> c) os"

definition opt_insert :: "edns_option \<Rightarrow> edns_option list \<Rightarrow> edns_option list" where
  "opt_insert x os = opt_remove (option_code x) os @ [x]"

definition opt_has :: "edns_code \<Rightarrow> edns_option list \<Rightarrow> bool" where
  "opt_has c os = list_ex (\<lambda>x. option_code x = c) os"

record 'n dns_message =
  dm_id :: u16
  dm_op_code :: u8
  dm_response :: bool
  dm_queries :: "'n dns_query list"
  dm_answers :: "'n dns_record list"
  dm_recursion_available :: bool
  dm_authoritative :: bool
  dm_recursion_desired :: bool
  dm_checking_disabled :: bool
  dm_edns :: "edns_option list option"
  dm_response_code :: u16
  dm_answer_count :: u16

definition message_new :: "'n dns_message" where
  "message_new =
    \<lparr>dm_id = 0, dm_op_code = 0, dm_response = False, dm_queries = [], dm_answers = [],
     dm_recursion_available = False, dm_authoritative = False, dm_recursion_desired = False,
     dm_checking_disabled = False, dm_edns = None, dm_response_code = 0, dm_answer_count = 0\<rparr>"

definition dm_query :: "'n dns_message \<Rightarrow> 'n dns_query option" where
  "dm_query m = (case dm_queries m of [] \<Rightarrow> None | q # _ \<Rightarrow> Some q)"

definition build_dns_response_message :: "'n dns_message \<Rightarrow> bool \<Rightarrow> bool \<Rightarrow> 'n dns_message" where
  "build_dns_response_message req ra aa =
    message_new\<lparr>dm_id := dm_id req, dm_op_code := dm_op_code req, dm_response := True,
      dm_queries := dm_queries req, dm_recursion_available := ra, dm_authoritative := aa,
      dm_recursion_desired := dm_recursion_desired req,
      dm_checking_disabled := dm_checking_disabled req,
      dm_edns := map_option (opt_remove CodePadding) (dm_edns req)\<rparr>"

section \<open>Name servers\<close>

datatype dns_net_mode = NetUdp | NetTcp | NetDoT | NetDoH | NetDhcp

fun net_mode_to_string :: "dns_net_mode \<Rightarrow> string" where
  "net_mode_to_string NetUdp = ''UDP''"
| "net_mode_to_string NetTcp = ''TCP''"
| "net_mode_to_string NetDoT = ''DoT''"
| "net_mode_to_string NetDoH = ''DoH''"
| "net_mode_to_string NetDhcp = ''DHCP''"

definition net_mode_from_str :: "string \<Rightarrow> dns_net_mode result" where
  "net_mode_from_str s =
    (if s = ''UDP'' then Ok NetUdp
     else if s = ''TCP'' then Ok NetTcp
     else if s = ''DoH'' then Ok NetDoH
     else if s = ''DoT'' then Ok NetDoT
     else if s = ''DHCP'' then Ok NetDhcp
     else Err (Other ''unsupported protocol''))"

record name_server =
  ns_net :: dns_net_mode
  ns_address :: string
  ns_interface :: "outbound_interface option"
  ns_proxy :: "string option"

text \<open>The parts of a parsed URL, and what the parser of name servers asks of its surroundings.\<close>

record url =
  url_scheme :: string
  url_host :: "string option"
  url_port :: "u16 option"
  url_fragment :: "string option"

record url_env =
  url_parse :: "string \<Rightarrow> url option"
  auto_interface :: "outbound_interface option"
  interface_by_name :: "string \<Rightarrow> outbound_interface option"

text \<open>\<^verbatim>\<open>:\d+$\<close>.\<close>

definition has_port_suffix :: "string \<Rightarrow> bool" where
  "has_port_suffix host =
    (case rsplit_once CHR '':'' host of
       None \<Rightarrow> False
     | Some (_, p) \<Rightarrow> p \<noteq> [] \<and> list_all (\<lambda>c. digit_val 10 c \<noteq> None) p)"

definition host_with_default_port :: "string \<Rightarrow> string \<Rightarrow> string result" where
  "host_with_default_port host prt =
    (if has_port_suffix host then Ok host else Ok (host @ '':'' @ prt))"

text \<open>\<^verbatim>\<open>trim_start_matches\<close> of a string: remove it from the front as often as it is there.\<close>

function trim_start_str :: "string \<Rightarrow> string \<Rightarrow> string" where
  "trim_start_str p s =
    (if p \<noteq> [] \<and> prefix p s then trim_start_str p (drop (length p) s) else s)"
  by pat_completeness auto
termination
  by (relation "measure (\<lambda>(p, s). length s)") (auto simp: prefix_def)

fun outbound_proxy_pairs :: "string list \<Rightarrow> string option" where
  "outbound_proxy_pairs [] = None"
| "outbound_proxy_pairs (p # ps) =
    (if prefix ''proxy='' p then Some (trim_start_str ''proxy='' p)
     else if CHR ''='' \<notin> set p then Some p
     else outbound_proxy_pairs ps)"

definition parse_outbound_proxy :: "url \<Rightarrow> string option" where
  "parse_outbound_proxy u =
    Option.bind (url_fragment u) (\<lambda>frag. outbound_proxy_pairs (str_split CHR ''&'' frag))"

fun outbound_interface_pairs :: "string list \<Rightarrow> string option" where
  "outbound_interface_pairs [] = None"
| "outbound_interface_pairs (p # ps) =
    (if prefix ''interface='' p then Some (trim_start_str ''interface='' p)
     else outbound_interface_pairs ps)"

definition parse_outbound_interface :: "url \<Rightarrow> string option" where
  "parse_outbound_interface u =
    Option.bind (url_fragment u) (\<lambda>frag. outbound_interface_pairs (str_split CHR ''&'' frag))"

text \<open>The scheme gives the transport and the port; \<open>None\<close> for DHCP, which has no port.\<close>

definition scheme_net :: "string \<Rightarrow> (string \<times> string option) option" where
  "scheme_net s =
    (if s = ''udp'' then Some (''UDP'', Some ''53'')
     else if s = ''tcp'' then Some (''TCP'', Some ''53'')
     else if s = ''tls'' then Some (''DoT'', Some ''853'')
     else if s = ''https'' then Some (''DoH'', Some ''443'')
     else if s = ''dhcp'' then Some (''DHCP'', None)
     else None)"

definition with_scheme :: "string \<Rightarrow> string" where
  "with_scheme server = (if sublist ''://'' server then server else ''udp://'' @ server)"

definition resolve_interface ::
  "url_env \<Rightarrow> nat \<Rightarrow> string option \<Rightarrow> outbound_interface option result" where
  "resolve_interface env i name0 =
    (case name0 of
       None \<Rightarrow> Ok None
     | Some n \<Rightarrow>
         if n = ''auto'' then
           (case auto_interface env of
              Some f \<Rightarrow> Ok (Some f)
            | None \<Rightarrow> Err (InvalidConfig ''DNS nameserver [auto] no outbound interface found''))
         else
           (case interface_by_name env n of
              Some f \<Rightarrow> Ok (Some f)
            | None \<Rightarrow> Err (InvalidConfig
                (''DNS nameserver ['' @ show_dec i @ ''] invalid interface: '' @ n))))"

definition parse_one_nameserver :: "url_env \<Rightarrow> nat \<Rightarrow> string \<Rightarrow> name_server result" where
  "parse_one_nameserver env i server0 =
    (let server = with_scheme server0 in
     case url_parse env server of
       None \<Rightarrow> Err (InvalidConfig (''invalid dns server: '' @ server))
     | Some u \<Rightarrow>
         (case url_host u of
            None \<Rightarrow> Err Panic
          | Some host \<Rightarrow>
              (case scheme_net (url_scheme u) of
                 None \<Rightarrow> Err (InvalidConfig (''DNS nameserver ['' @ show_dec i @
                   ''] unsupported scheme: '' @ url_scheme u))
               | Some (net, prt) \<Rightarrow>
                   bind_result (case prt of Some p \<Rightarrow> host_with_default_port host p | None \<Rightarrow> Ok host)
                     (\<lambda>addr. bind_result (net_mode_from_str net)
                     (\<lambda>net. bind_result (resolve_interface env i (parse_outbound_interface u))
                     (\<lambda>ifc. Ok \<lparr>ns_net = net, ns_address = addr, ns_interface = ifc,
                       ns_proxy = parse_outbound_proxy u\<rparr>))))))"

fun parse_nameservers :: "url_env \<Rightarrow> nat \<Rightarrow> string list \<Rightarrow> name_server list result" where
  "parse_nameservers env i [] = Ok []"
| "parse_nameservers env i (s # ss) =
    bind_result (parse_one_nameserver env i s) (\<lambda>n.
    bind_result (parse_nameservers env (i + 1) ss) (\<lambda>ns. Ok (n # ns)))"

definition parse_nameserver :: "url_env \<Rightarrow> string list \<Rightarrow> name_server list result" where
  "parse_nameserver env servers = parse_nameservers env 0 servers"

text \<open>The policy in the order in which the hash map is walked.\<close>

fun parse_nameserver_policy ::
  "url_env \<Rightarrow> (string \<times> string) list \<Rightarrow> (string \<times> name_server) list result" where
  "parse_nameserver_policy env [] = Ok []"
| "parse_nameserver_policy env ((dmn, server) # rest) =
    bind_result (parse_nameserver env [server]) (\<lambda>ns.
      if valid_and_split_domain dmn = None
      then Err (InvalidConfig (''DNS ResolverRule invalid domain: '' @ dmn))
      else (case ns of
              [] \<Rightarrow> Err Panic
            | n # _ \<Rightarrow> bind_result (parse_nameserver_policy env rest) (\<lambda>ps. Ok ((dmn, n) # ps))))"

fun parse_fallback_ip_cidr :: "('n, 'r) net_lib \<Rightarrow> string list \<Rightarrow> 'n list result" where
  "parse_fallback_ip_cidr lib [] = Ok []"
| "parse_fallback_ip_cidr lib (s # ss) =
    (case net_parse lib s of
       None \<Rightarrow> Err (InvalidConfig [])
     | Some n \<Rightarrow> bind_result (parse_fallback_ip_cidr lib ss) (\<lambda>ns. Ok (n # ns)))"

fun insert_hosts :: "(string \<times> string) list \<Rightarrow> ip_addr node \<Rightarrow> ip_addr node result" where
  "insert_hosts [] t = Ok t"
| "insert_hosts ((host, ip) # hs) t =
    (case parse_ip ip of
       None \<Rightarrow> Err (InvalidInput ''invalid IP address syntax'')
     | Some a \<Rightarrow> insert_hosts hs (fst (trie_insert host a t)))"

definition localhost_tree :: "ip_addr node" where
  "localhost_tree = fst (trie_insert ''localhost'' (V4 0x7F000001) node_new)"

definition parse_hosts :: "(string \<times> string) list \<Rightarrow> ip_addr node result" where
  "parse_hosts hosts = insert_hosts hosts localhost_tree"

section \<open>The DNS section of the configuration\<close>

record 'n fallback_filter =
  ff_geo_ip :: bool
  ff_geo_ip_code :: string
  ff_geo_ip_cache_expiration :: "u64 option"
  ff_match_noproxy :: bool
  ff_ip_cidr :: "'n list option"
  ff_domain :: "string list"

text \<open>
  The filter as it stands in the file. \<open>upper\<close> is \<^verbatim>\<open>to_uppercase\<close>, the Unicode case mapping. A
  prefix that does not parse drops the whole list.
\<close>

record def_fallback_filter =
  dff_geo_ip :: bool
  dff_geo_ip_code :: string
  dff_geo_ip_cache_expiration :: "u64 option"
  dff_match_noproxy :: bool
  dff_ip_cidr :: "string list"
  dff_domain :: "string list"

definition fallback_filter_from ::
  "('n, 'r) net_lib \<Rightarrow> (string \<Rightarrow> string) \<Rightarrow> def_fallback_filter \<Rightarrow> 'n fallback_filter" where
  "fallback_filter_from lib upper c =
    \<lparr>ff_geo_ip = dff_geo_ip c, ff_geo_ip_code = upper (dff_geo_ip_code c),
     ff_geo_ip_cache_expiration = dff_geo_ip_cache_expiration c,
     ff_match_noproxy = dff_match_noproxy c,
     ff_ip_cidr = (case parse_fallback_ip_cidr lib (dff_ip_cidr c) of Inr ns \<Rightarrow> Some ns | Inl _ \<Rightarrow> None),
     ff_domain = dff_domain c\<rparr>"

record 'n edns_client_subnet =
  ecs_ipv4 :: "'n option"
  ecs_ipv6 :: "'n option"

definition parse_subnet ::
  "(string \<Rightarrow> 'n option) \<Rightarrow> string \<Rightarrow> string option \<Rightarrow> 'n option result" where
  "parse_subnet prs fam v =
    (case v of
       None \<Rightarrow> Ok None
     | Some t \<Rightarrow> (case prs t of
                    Some n \<Rightarrow> Ok (Some n)
                  | None \<Rightarrow> Err (InvalidConfig
                      (''invalid edns-client-subnet '' @ fam @ '' network: '' @ t))))"

definition parse_edns_client_subnet ::
  "(string \<Rightarrow> 'n option) \<Rightarrow> (string \<Rightarrow> 'n option) \<Rightarrow> string option \<times> string option \<Rightarrow>
   'n edns_client_subnet result" where
  "parse_edns_client_subnet parse4 parse6 ecs =
    bind_result (parse_subnet parse4 ''ipv4'' (fst ecs)) (\<lambda>v4.
    bind_result (parse_subnet parse6 ''ipv6'' (snd ecs)) (\<lambda>v6.
      if v4 = None \<and> v6 = None
      then Err (InvalidConfig ''edns-client-subnet requires at least one of ipv4/ipv6'')
      else Ok \<lparr>ecs_ipv4 = v4, ecs_ipv6 = v6\<rparr>))"

datatype dns_mode = ModeNormal | ModeFakeIp | ModeRedirHost

text \<open>
  The listener: one UDP address, or a map from protocols to values of type \<open>'v\<close>, YAML values. What
  the deserializer reads from them, a string or the configuration of one of the encrypted
  listeners, are arguments.
\<close>

datatype 'v dns_listen = ListenUdp string | ListenMultiple "(string \<times> 'v) list"

record ('h, 't, 'q) dns_listen_addr =
  la_udp :: "socket_addr option"
  la_tcp :: "socket_addr option"
  la_doh :: "'h option"
  la_dot :: "'t option"
  la_doh3 :: "'q option"

record ('v, 'h, 't, 'q) listen_lib =
  ll_str :: "'v \<Rightarrow> string option"
  ll_doh :: "'v \<Rightarrow> 'h option"
  ll_dot :: "'v \<Rightarrow> 't option"
  ll_doh3 :: "'v \<Rightarrow> 'q option"

definition listen_empty :: "('h, 't, 'q) dns_listen_addr" where
  "listen_empty = \<lparr>la_udp = None, la_tcp = None, la_doh = None, la_dot = None, la_doh3 = None\<rparr>"

definition listen_socket :: "('v \<Rightarrow> string option) \<Rightarrow> string \<Rightarrow> 'v \<Rightarrow> socket_addr result" where
  "listen_socket as_str proto v =
    (case as_str v of
       None \<Rightarrow> Err (InvalidConfig (''invalid '' @ proto @ '' dns listen address - must be string''))
     | Some s \<Rightarrow> (case parse_socket_addr s of
                    None \<Rightarrow> Err (InvalidConfig ''invalid dns listen address'')
                  | Some a \<Rightarrow> Ok a))"

definition of_opt :: "string \<Rightarrow> 'a option \<Rightarrow> 'a result" where
  "of_opt msg x = (case x of Some a \<Rightarrow> Ok a | None \<Rightarrow> Err (InvalidConfig msg))"

fun listen_entries ::
  "('v, 'h, 't, 'q) listen_lib \<Rightarrow> (string \<times> 'v) list \<Rightarrow> ('h, 't, 'q) dns_listen_addr \<Rightarrow>
   ('h, 't, 'q) dns_listen_addr result" where
  "listen_entries lib [] a = Ok a"
| "listen_entries lib ((k, v) # kvs) a =
    bind_result
      (if k = ''udp'' then
         bind_result (listen_socket (ll_str lib) ''udp'' v) (\<lambda>x. Ok (a\<lparr>la_udp := Some x\<rparr>))
       else if k = ''tcp'' then
         bind_result (listen_socket (ll_str lib) ''tcp'' v) (\<lambda>x. Ok (a\<lparr>la_tcp := Some x\<rparr>))
       else if k = ''doh'' then
         bind_result (of_opt ''invalid doh dns listen config'' (ll_doh lib v)) (\<lambda>x. Ok (a\<lparr>la_doh := Some x\<rparr>))
       else if k = ''dot'' then
         bind_result (of_opt ''invalid dot dns listen config'' (ll_dot lib v)) (\<lambda>x. Ok (a\<lparr>la_dot := Some x\<rparr>))
       else if k = ''doh3'' then
         bind_result (of_opt ''invalid doh3 dns listen config'' (ll_doh3 lib v)) (\<lambda>x. Ok (a\<lparr>la_doh3 := Some x\<rparr>))
       else Err (InvalidConfig (''invalid dns listen address: '' @ k)))
      (listen_entries lib kvs)"

definition parse_listen ::
  "('v, 'h, 't, 'q) listen_lib \<Rightarrow> 'v dns_listen option \<Rightarrow> ('h, 't, 'q) dns_listen_addr result" where
  "parse_listen lib l =
    (case l of
       None \<Rightarrow> Ok listen_empty
     | Some (ListenUdp u) \<Rightarrow>
         (case parse_socket_addr u of
            None \<Rightarrow> Err (InvalidConfig (''invalid dns udp listen address: '' @ u))
          | Some a \<Rightarrow> Ok (listen_empty\<lparr>la_udp := Some a\<rparr>))
     | Some (ListenMultiple kvs) \<Rightarrow> listen_entries lib kvs listen_empty)"

record 'v def_dns =
  dd_enable :: bool
  dd_ipv6 :: bool
  dd_global_ipv6 :: bool
  dd_nameserver :: "string list"
  dd_fallback :: "string list"
  dd_fallback_filter :: def_fallback_filter
  dd_nameserver_policy :: "(string \<times> string) list"
  dd_default_nameserver :: "string list"
  dd_edns_client_subnet :: "(string option \<times> string option) option"
  dd_listen :: "'v dns_listen option"
  dd_enhanced_mode :: dns_mode
  dd_fake_ip_range :: string
  dd_fake_ip_filter :: "string list"
  dd_user_hosts :: bool
  dd_hosts :: "(string \<times> string) list"
  dd_store_fake_ip :: bool
  dd_store_smart_stats :: bool
  dd_routing_mark :: "u32 option"

record ('n, 'h, 't, 'q) dns_cfg =
  dc_enable :: bool
  dc_ipv6 :: bool
  dc_nameserver :: "name_server list"
  dc_fallback :: "name_server list"
  dc_fallback_filter :: "'n fallback_filter"
  dc_listen :: "('h, 't, 'q) dns_listen_addr"
  dc_enhance_mode :: dns_mode
  dc_default_nameserver :: "name_server list"
  dc_fake_ip_range :: 'n
  dc_fake_ip_filter :: "string list"
  dc_store_fake_ip :: bool
  dc_store_smart_stats :: bool
  dc_hosts :: "ip_addr node option"
  dc_nameserver_policy :: "(string \<times> name_server) list"
  dc_edns_client_subnet :: "'n edns_client_subnet option"
  dc_fw_mark :: "u32 option"

fun check_default_servers :: "name_server list \<Rightarrow> unit result" where
  "check_default_servers [] = Ok ()"
| "check_default_servers (n # ns) =
    (if parse_socket_addr (ns_address n) = None
     then Err (InvalidConfig ''default dns must be ip address'')
     else check_default_servers ns)"

definition parse_ecs_option ::
  "(string \<Rightarrow> 'n option) \<Rightarrow> (string \<Rightarrow> 'n option) \<Rightarrow> (string option \<times> string option) option \<Rightarrow>
   'n edns_client_subnet option result" where
  "parse_ecs_option parse4 parse6 e =
    (case e of
       None \<Rightarrow> Ok None
     | Some v \<Rightarrow> bind_result (parse_edns_client_subnet parse4 parse6 v) (\<lambda>x. Ok (Some x)))"

definition hosts_of :: "'v def_dns \<Rightarrow> ip_addr node option" where
  "hosts_of c =
    (if dd_user_hosts c \<and> dd_hosts c \<noteq> []
     then (case parse_hosts (dd_hosts c) of Inr t \<Rightarrow> Some t | Inl _ \<Rightarrow> None)
     else Some localhost_tree)"

definition dns_config_try_from ::
  "url_env \<Rightarrow> ('n, 'r) net_lib \<Rightarrow> (string \<Rightarrow> string) \<Rightarrow> (string \<Rightarrow> 'n option) \<Rightarrow> (string \<Rightarrow> 'n option) \<Rightarrow>
   ('v, 'h, 't, 'q) listen_lib \<Rightarrow> 'v def_dns \<Rightarrow> ('n, 'h, 't, 'q) dns_cfg result" where
  "dns_config_try_from env lib upper parse4 parse6 llib c =
    (if dd_enable c \<and> dd_nameserver c = []
     then Err (InvalidConfig ''dns enabled, no nameserver specified'')
     else bind_result (parse_nameserver env (dd_nameserver c)) (\<lambda>nameservers.
     bind_result (parse_nameserver env (dd_fallback c)) (\<lambda>fallback.
     bind_result (parse_nameserver_policy env (dd_nameserver_policy c)) (\<lambda>policy.
     if dd_default_nameserver c = [] then Err (InvalidConfig ''default nameserver empty'')
     else bind_result (parse_nameserver env (dd_default_nameserver c)) (\<lambda>default.
     bind_result (check_default_servers default) (\<lambda>_.
     bind_result (parse_ecs_option parse4 parse6 (dd_edns_client_subnet c)) (\<lambda>ecs.
     bind_result (parse_listen llib (dd_listen c)) (\<lambda>listen.
     bind_result (of_opt ''invalid fake ip range'' (net_parse lib (dd_fake_ip_range c))) (\<lambda>fake_range.
       Ok \<lparr>dc_enable = dd_enable c, dc_ipv6 = (dd_global_ipv6 c \<and> dd_ipv6 c),
           dc_nameserver = nameservers, dc_fallback = fallback,
           dc_fallback_filter = fallback_filter_from lib upper (dd_fallback_filter c),
           dc_listen = listen, dc_enhance_mode = dd_enhanced_mode c,
           dc_default_nameserver = default, dc_fake_ip_range = fake_range,
           dc_fake_ip_filter = dd_fake_ip_filter c, dc_store_fake_ip = dd_store_fake_ip c,
           dc_store_smart_stats = dd_store_smart_stats c, dc_hosts = hosts_of c,
           dc_nameserver_policy = policy, dc_edns_client_subnet = ecs,
           dc_fw_mark = dd_routing_mark c\<rparr>)))))))))"

section \<open>Clients\<close>

datatype 'h dns_config =
    CfgUdp socket_addr "outbound_interface option" 'h "u32 option"
  | CfgTcp socket_addr "outbound_interface option" 'h "u32 option"
  | CfgTls socket_addr string "outbound_interface option" 'h "u32 option"
  | CfgHttps socket_addr string "outbound_interface option" 'h "u32 option"

record ('h, 'n) client_opts =
  co_host :: string
  co_port :: u16
  co_net :: dns_net_mode
  co_iface :: "outbound_interface option"
  co_proxy :: 'h
  co_ecs :: "'n edns_client_subnet option"
  co_fw_mark :: "u32 option"

record ('h, 'n) dns_client_rec =
  cl_cfg :: "'h dns_config"
  cl_proxy :: 'h
  cl_host :: string
  cl_port :: u16
  cl_net :: dns_net_mode
  cl_iface :: "outbound_interface option"
  cl_ecs :: "'n edns_client_subnet option"

datatype ('h, 'n) dns_client = DnsClient "('h, 'n) dns_client_rec" | DhcpClient string "u32 option"

text \<open>\<open>r\<close> is the resolver for the name of the server, if there is one.\<close>

definition server_ip :: "(string \<Rightarrow> ip_addr option result) option \<Rightarrow> string \<Rightarrow> ip_addr result" where
  "server_ip r host =
    (case r of
       Some res \<Rightarrow>
         (case res host of
            Inl Panic \<Rightarrow> Err Panic
          | Inl _ \<Rightarrow> Err (Other ''resolve hostname failure'')
          | Inr None \<Rightarrow> Err (InvalidConfig (''can't resolve default DNS: '' @ host))
          | Inr (Some ip) \<Rightarrow> Ok ip)
     | None \<Rightarrow>
         (case parse_ip host of
            Some ip \<Rightarrow> Ok ip
          | None \<Rightarrow> Err (Other (''resolve DNS hostname error: '' @ host))))"

definition client_rec :: "('h, 'n) client_opts \<Rightarrow> 'h dns_config \<Rightarrow> ('h, 'n) dns_client" where
  "client_rec opts cfg =
    DnsClient \<lparr>cl_cfg = cfg, cl_proxy = co_proxy opts, cl_host = co_host opts, cl_port = co_port opts,
      cl_net = co_net opts, cl_iface = co_iface opts, cl_ecs = co_ecs opts\<rparr>"

definition new_client ::
  "(string \<Rightarrow> ip_addr option result) option \<Rightarrow> ('h, 'n) client_opts \<Rightarrow> ('h, 'n) dns_client result" where
  "new_client r opts =
    (case co_net opts of
       NetDhcp \<Rightarrow> Ok (DhcpClient (co_host opts) (co_fw_mark opts))
     | other \<Rightarrow>
         bind_result (server_ip r (co_host opts)) (\<lambda>ip.
           let addr = socket_new ip (co_port opts) in
           case other of
             NetUdp \<Rightarrow> Ok (client_rec opts (CfgUdp addr (co_iface opts) (co_proxy opts) (co_fw_mark opts)))
           | NetTcp \<Rightarrow> Ok (client_rec opts (CfgTcp addr (co_iface opts) (co_proxy opts) (co_fw_mark opts)))
           | NetDoT \<Rightarrow> Ok (client_rec opts
               (CfgTls addr (co_host opts) (co_iface opts) (co_proxy opts) (co_fw_mark opts)))
           | NetDoH \<Rightarrow> Ok (client_rec opts
               (CfgHttps addr (co_host opts) (co_iface opts) (co_proxy opts) (co_fw_mark opts)))
           | NetDhcp \<Rightarrow> Err Panic))"

text \<open>\<^verbatim>\<open>make_clients\<close>: host and port of the address, then the client; one that fails is left out.\<close>

definition strip_suffix :: "string \<Rightarrow> string \<Rightarrow> string option" where
  "strip_suffix p s = (if suffix p s then Some (take (length s - length p) s) else None)"

definition split_address :: "name_server \<Rightarrow> (string \<times> string) result" where
  "split_address s =
    (if ns_net s = NetDhcp then Ok (ns_address s, ''0'')
     else let prt = last (str_split CHR '':'' (ns_address s))
          in case strip_suffix ('':'' @ prt) (ns_address s) of
               None \<Rightarrow> Err (Exit (''invalid address: '' @ ns_address s))
             | Some host \<Rightarrow> Ok (host, prt))"

definition server_proxy :: "(string \<rightharpoonup> 'h) \<Rightarrow> 'h \<Rightarrow> name_server \<Rightarrow> 'h" where
  "server_proxy outbounds direct s =
    (case outbounds (case ns_proxy s of Some p \<Rightarrow> p | None \<Rightarrow> PROXY_DIRECT) of
       Some h \<Rightarrow> h | None \<Rightarrow> direct)"

fun make_clients ::
  "(string \<rightharpoonup> 'h) \<Rightarrow> 'h \<Rightarrow> outbound_interface option \<Rightarrow> (string \<Rightarrow> ip_addr option result) option \<Rightarrow>
   'n edns_client_subnet option \<Rightarrow> u32 option \<Rightarrow> name_server list \<Rightarrow> ('h, 'n) dns_client list result" where
  "make_clients outbounds direct default_if r ecs fw_mark [] = Ok []"
| "make_clients outbounds direct default_if r ecs fw_mark (s # ss) =
    bind_result (split_address s) (\<lambda>(host, prt).
      case parse_u16 prt of
        None \<Rightarrow> Err (Exit (''invalid port: '' @ prt))
      | Some p \<Rightarrow>
          let opts = \<lparr>co_host = host, co_port = p, co_net = ns_net s,
                co_iface = (case ns_interface s of Some f \<Rightarrow> Some f | None \<Rightarrow> default_if),
                co_proxy = server_proxy outbounds direct s, co_ecs = ecs, co_fw_mark = fw_mark\<rparr>;
              rest = make_clients outbounds direct default_if r ecs fw_mark ss
          in case new_client r opts of
               Inr c \<Rightarrow> bind_result rest (\<lambda>cs. Ok (c # cs))
             | Inl Panic \<Rightarrow> Err Panic
             | Inl _ \<Rightarrow> rest)"

subsection \<open>Exchange of a message\<close>

text \<open>\<open>net_of\<close>: network address and prefix length of a subnet.\<close>

definition ecs_candidate ::
  "('n \<Rightarrow> ip_addr \<times> u8) \<Rightarrow> bool \<Rightarrow> 'n edns_client_subnet \<Rightarrow> (ip_addr \<times> u8) option" where
  "ecs_candidate net_of prefer_ipv6 ecs =
    (let v4 = map_option net_of (ecs_ipv4 ecs); v6 = map_option net_of (ecs_ipv6 ecs)
     in if prefer_ipv6 then (case v6 of Some x \<Rightarrow> Some x | None \<Rightarrow> v4)
        else (case v4 of Some x \<Rightarrow> Some x | None \<Rightarrow> v6))"

definition apply_edns_client_subnet ::
  "('n \<Rightarrow> ip_addr \<times> u8) \<Rightarrow> 'n edns_client_subnet option \<Rightarrow> 'm dns_message \<Rightarrow> 'm dns_message" where
  "apply_edns_client_subnet net_of ecs0 m =
    (case ecs0 of
       None \<Rightarrow> m
     | Some ecs \<Rightarrow>
         if ecs_ipv4 ecs = None \<and> ecs_ipv6 ecs = None then m
         else if (case dm_edns m of Some os \<Rightarrow> opt_has CodeSubnet os | None \<Rightarrow> False) then m
         else case ecs_candidate net_of (map_option q_type (dm_query m) = Some RtAAAA) ecs of
                None \<Rightarrow> m
              | Some (addr, p) \<Rightarrow>
                  m\<lparr>dm_edns := Some (opt_insert (OptSubnet addr p p) (opt_remove CodeSubnet
                      (case dm_edns m of Some os \<Rightarrow> os | None \<Rightarrow> [])))\<rparr>)"

text \<open>
  The connection of a client: the sender \<open>'s\<close> and the background task \<open>'b\<close>. Building a connection,
  whether a task has ended, sending and the random identifier are arguments.
\<close>

record ('s, 'b) client_inner =
  in_c :: "'s option"
  in_bg :: "'b option"

record ('h, 's, 'b, 'm) client_env =
  ce_build :: "'h dns_config \<Rightarrow> ('s \<times> 'b) result"
  ce_finished :: "'b \<Rightarrow> bool"
  ce_send :: "'s \<Rightarrow> 'm dns_message \<Rightarrow> 'm dns_message result"
  ce_random_id :: u16

definition client_init ::
  "('h, 's, 'b, 'm) client_env \<Rightarrow> 'h dns_config \<Rightarrow> ('s, 'b) client_inner \<Rightarrow>
   unit result \<times> ('s, 'b) client_inner" where
  "client_init env cfg inner =
    (let build = (case ce_build env cfg of
                    Inl e \<Rightarrow> (Err e, inner)
                  | Inr (c, bg) \<Rightarrow> (Ok (), inner\<lparr>in_c := Some c, in_bg := Some bg\<rparr>))
     in if in_c inner = None \<or> (case in_bg inner of None \<Rightarrow> True | Some bg \<Rightarrow> ce_finished env bg)
        then (case in_bg inner of
                Some bg \<Rightarrow> if ce_finished env bg then build else (Ok (), inner)
              | None \<Rightarrow> build)
        else (Ok (), inner))"

definition client_exchange ::
  "('h, 's, 'b, 'm) client_env \<Rightarrow> ('n \<Rightarrow> ip_addr \<times> u8) \<Rightarrow> ('h, 'n) dns_client_rec \<Rightarrow> 'm dns_message \<Rightarrow>
   ('s, 'b) client_inner \<Rightarrow> 'm dns_message result \<times> ('s, 'b) client_inner" where
  "client_exchange env net_of cl msg inner0 =
    (case client_init env (cl_cfg cl) inner0 of
       (Inl e, inner) \<Rightarrow> (Err e, inner)
     | (Inr _, inner) \<Rightarrow>
         let out = apply_edns_client_subnet net_of (cl_ecs cl) msg;
             req = (if dm_id out = 0 then out\<lparr>dm_id := ce_random_id env\<rparr> else out)
         in (case in_c inner of
               None \<Rightarrow> Err Panic
             | Some c \<Rightarrow> (case ce_send env c req of Inl e \<Rightarrow> Err (Other ''dns error'') | Inr m \<Rightarrow> Ok m),
             inner))"

section \<open>Facts\<close>

definition default_port :: "dns_net_mode \<Rightarrow> u16" where
  "default_port net =
    (case net of NetUdp \<Rightarrow> 53 | NetTcp \<Rightarrow> 53 | NetDoT \<Rightarrow> 853 | NetDoH \<Rightarrow> 443 | NetDhcp \<Rightarrow> 0)"

text \<open>What the URL crate documents of \<^verbatim>\<open>host_str\<close>: the port is not part of it.\<close>

definition host_law :: "url_env \<Rightarrow> bool" where
  "host_law env \<longleftrightarrow> (\<forall>s u h. url_parse env s = Some u \<and> url_host u = Some h \<longrightarrow> \<not> has_port_suffix h)"

lemma net_mode_round_trip: "net_mode_from_str (net_mode_to_string m) = Ok m"
  by (cases m) (simp_all add: net_mode_from_str_def)

lemma strip_suffix_append: "strip_suffix p (s @ p) = Some s"
  by (simp add: strip_suffix_def suffixI)

lemma split_address_port:
  assumes "ns_address n = h @ '':'' @ p" "CHR '':'' \<notin> set p" "ns_net n \<noteq> NetDhcp"
  shows "split_address n = Ok (h, p)"
proof -
  have "last (str_split CHR '':'' (ns_address n)) = p"
    using assms(2) by (simp add: assms(1) str_split_append str_split_no_sep)
  moreover have "strip_suffix ('':'' @ p) (ns_address n) = Some h"
    unfolding assms(1) by (rule strip_suffix_append)
  ultimately show ?thesis using assms(3) by (simp add: split_address_def Let_def)
qed

lemma parse_u16_ports [simp]:
  "parse_u16 ''53'' = Some 53" "parse_u16 ''853'' = Some 853" "parse_u16 ''443'' = Some 443"
  "parse_u16 ''0'' = Some 0"
  by (simp_all add: parse_u16_def parse_uint_def parse_digits_def digit_val_def digits_val_def)

lemma scheme_net_cases:
  assumes "scheme_net s = Some (net, prt)" "net_mode_from_str net = Ok m"
  shows "m = NetDhcp \<and> prt = None \<or>
    m \<noteq> NetDhcp \<and> (\<exists>p. prt = Some p \<and> CHR '':'' \<notin> set p \<and> parse_u16 p = Some (default_port m))"
  using assms
  by (auto simp: scheme_net_def net_mode_from_str_def default_port_def split: if_splits)

lemma parse_one_split:
  assumes "parse_one_nameserver env i server = Ok n" "host_law env"
  shows "\<exists>h p. split_address n = Ok (h, p) \<and> parse_u16 p = Some (default_port (ns_net n))"
proof -
  obtain u h net prt addr m ifc where u: "url_parse env (with_scheme server) = Some u"
    "url_host u = Some h" "scheme_net (url_scheme u) = Some (net, prt)"
    "(case prt of Some p \<Rightarrow> host_with_default_port h p | None \<Rightarrow> Ok h) = Ok addr"
    "net_mode_from_str net = Ok m"
    "n = \<lparr>ns_net = m, ns_address = addr, ns_interface = ifc, ns_proxy = parse_outbound_proxy u\<rparr>"
    using assms(1)
    by (auto simp: parse_one_nameserver_def Let_def bind_result_Inr_iff split: option.splits prod.splits)
  have "\<not> has_port_suffix h" using assms(2) u(1,2) unfolding host_law_def by blast
  from scheme_net_cases [OF u(3,5)] show ?thesis
  proof (elim disjE conjE exE)
    assume "m = NetDhcp" "prt = None"
    then show ?thesis using u(6) by (simp add: split_address_def default_port_def)
  next
    fix p assume p: "m \<noteq> NetDhcp" "prt = Some p" "CHR '':'' \<notin> set p" "parse_u16 p = Some (default_port m)"
    then have "addr = h @ '':'' @ p"
      using u(4) \<open>\<not> has_port_suffix h\<close> by (simp add: host_with_default_port_def)
    then show ?thesis using p u(6) split_address_port [of n h p] by simp
  qed
qed

lemma parse_nameservers_split:
  assumes "parse_nameservers env i servers = Ok ns" "host_law env"
  shows "\<forall>n\<in>set ns. \<exists>h p. split_address n = Ok (h, p) \<and> parse_u16 p = Some (default_port (ns_net n))"
  using assms(1)
proof (induction servers arbitrary: i ns)
  case (Cons s ss)
  then obtain n ms where "parse_one_nameserver env i s = Ok n"
    "parse_nameservers env (i + 1) ss = Ok ms" "ns = n # ms"
    by (auto simp: bind_result_Inr_iff)
  then show ?case using Cons.IH parse_one_split [OF _ assms(2)] by simp
qed simp

lemma server_ip_Exit: "server_ip r h = Err e \<Longrightarrow> (\<forall>f. r = Some f \<longrightarrow> f h \<noteq> Err Panic) \<Longrightarrow> e \<noteq> Panic"
  by (auto simp: server_ip_def split: option.splits sum.splits error.splits)

lemma new_client_port:
  assumes "new_client r opts = Ok (DnsClient c)"
  shows "cl_port c = co_port opts \<and> cl_net c = co_net opts"
  using assms
  by (auto simp: new_client_def client_rec_def bind_result_Inr_iff Let_def split: dns_net_mode.splits)

lemma new_client_Panic:
  assumes "new_client r opts = Err e" "\<forall>f h. r = Some f \<longrightarrow> f h \<noteq> Err Panic"
  shows "e \<noteq> Panic"
proof (cases "server_ip r (co_host opts)")
  case (Inl e')
  then have "e' \<noteq> Panic" using server_ip_Exit assms(2) by metis
  with Inl assms(1) show ?thesis by (cases "co_net opts") (simp_all add: new_client_def)
next
  case (Inr ip)
  with assms(1) show ?thesis by (cases "co_net opts") (simp_all add: new_client_def Let_def)
qed

lemma make_clients_ports:
  assumes "\<forall>n\<in>set ns. \<exists>h p. split_address n = Ok (h, p) \<and> parse_u16 p = Some (default_port (ns_net n))"
    and r: "\<forall>f h. r = Some f \<longrightarrow> f h \<noteq> Err Panic"
  shows "\<exists>cs. make_clients outbounds direct default_if r ecs fw_mark ns = Ok cs \<and>
    length cs \<le> length ns \<and> (\<forall>c. DnsClient c \<in> set cs \<longrightarrow> cl_port c = default_port (cl_net c))"
  using assms(1)
proof (induction ns)
  case (Cons n ns)
  then obtain cs where cs: "make_clients outbounds direct default_if r ecs fw_mark ns = Ok cs"
    "length cs \<le> length ns" "\<forall>c. DnsClient c \<in> set cs \<longrightarrow> cl_port c = default_port (cl_net c)"
    by auto
  obtain h p where hp: "split_address n = Ok (h, p)" "parse_u16 p = Some (default_port (ns_net n))"
    using Cons.prems by auto
  define opts where "opts = \<lparr>co_host = h, co_port = default_port (ns_net n), co_net = ns_net n,
    co_iface = (case ns_interface n of Some f \<Rightarrow> Some f | None \<Rightarrow> default_if),
    co_proxy = server_proxy outbounds direct n, co_ecs = ecs, co_fw_mark = fw_mark\<rparr>"
  show ?case
  proof (cases "new_client r opts")
    case (Inl e)
    then have "e \<noteq> Panic" using new_client_Panic r by metis
    then have "make_clients outbounds direct default_if r ecs fw_mark (n # ns) = Ok cs"
      using hp cs(1) Inl by (cases e) (simp_all add: opts_def [symmetric])
    then show ?thesis using cs by auto
  next
    case (Inr c)
    then have "make_clients outbounds direct default_if r ecs fw_mark (n # ns) = Ok (c # cs)"
      using hp cs(1) by (simp add: opts_def [symmetric])
    moreover have "cl_port d = default_port (cl_net d)" if "c = DnsClient d" for d
      using new_client_port [of r opts d] Inr that by (simp add: opts_def)
    ultimately show ?thesis using cs by auto
  qed
qed simp

text \<open>The connection of a client is there exactly when its background task is.\<close>

definition inner_ok :: "('s, 'b) client_inner \<Rightarrow> bool" where
  "inner_ok i \<longleftrightarrow> (in_c i = None \<longleftrightarrow> in_bg i = None)"

lemma client_init_ok:
  assumes "inner_ok inner" "client_init env cfg inner = (r, inner')"
  shows "inner_ok inner' \<and> (r = Ok () \<longrightarrow> in_c inner' \<noteq> None)"
  using assms
  by (auto simp: client_init_def inner_ok_def Let_def split: option.splits sum.splits if_splits)

section \<open>Properties\<close>

text \<open>
  Name servers of the configuration are usable: when the list parses (and the URL parser keeps
  its promise on host names and the resolver does not panic), building the clients never exits the
  program, leaves out only clients that fail to initialize, and every client that is built uses the
  default port of its protocol. The port in the URL of a name server is not looked at.
\<close>

theorem nameserver_clients:
  assumes "parse_nameserver env servers = Ok ns" "host_law env"
    "\<forall>f h. r = Some f \<longrightarrow> f h \<noteq> Err Panic"
  shows "\<exists>cs. make_clients outbounds direct default_if r ecs fw_mark ns = Ok cs \<and>
    length cs \<le> length ns \<and> (\<forall>c. DnsClient c \<in> set cs \<longrightarrow> cl_port c = default_port (cl_net c))"
  by (rule make_clients_ports
      [OF parse_nameservers_split [OF assms(1) [unfolded parse_nameserver_def] assms(2)] assms(3)])

text \<open>A name server at a port of its own.\<close>

definition plain_url_env :: url_env where
  "plain_url_env =
    \<lparr>url_parse = (\<lambda>s. if s = ''udp://1.1.1.1:5353''
        then Some \<lparr>url_scheme = ''udp'', url_host = Some ''1.1.1.1'', url_port = Some 5353, url_fragment = None\<rparr>
        else None),
     auto_interface = None, interface_by_name = (\<lambda>_. None)\<rparr>"

lemma plain_nameserver:
  "parse_nameserver plain_url_env [''1.1.1.1:5353''] =
    Ok [\<lparr>ns_net = NetUdp, ns_address = ''1.1.1.1:53'', ns_interface = None, ns_proxy = None\<rparr>]"
  by (simp add: parse_nameserver_def parse_one_nameserver_def plain_url_env_def with_scheme_def
      scheme_net_def host_with_default_port_def has_port_suffix_def rsplit_once_def
      net_mode_from_str_def resolve_interface_def parse_outbound_interface_def
      parse_outbound_proxy_def sublist_code Let_def)

theorem nameserver_clients_witness:
  "\<exists>cs. make_clients (\<lambda>_. None) () None None (None :: unit edns_client_subnet option) None
      [\<lparr>ns_net = NetUdp, ns_address = ''1.1.1.1:53'', ns_interface = None, ns_proxy = None\<rparr>] = Ok cs \<and>
    length cs \<le> 1 \<and> (\<forall>c. DnsClient c \<in> set cs \<longrightarrow> cl_port c = default_port (cl_net c))"
proof -
  have "host_law plain_url_env"
    by (auto simp: host_law_def plain_url_env_def has_port_suffix_def rsplit_once_def Let_def split: if_splits)
  from nameserver_clients [OF plain_nameserver this, of None] show ?thesis
    by (simp del: make_clients.simps)
qed

end
