(* ===== verification/Fake_Dns.thy ===== *)
theory Fake_Dns
  imports Rule_Provider
begin

text \<open>
  Model of the fake address pool, \<^verbatim>\<open>app/dns/fakeip/*\<close>, and of the cache file it is kept in,
  \<^verbatim>\<open>app/profile/mod.rs\<close>. A pool hands out the addresses of a subnet to host names in turn and
  remembers both directions in a store; the store is an interface (\<^verbatim>\<open>trait Store\<close>), here a record
  of operations, with the file store and the in-memory store as its two implementations. The
  LRU cache of the latter is third-party and a parameter.
\<close>

section \<open>The cache file\<close>

record geoip_entry =
  ge_code :: string
  ge_expires_at :: u64

record 'st cache_file =
  c_selected :: "string \<rightharpoonup> string"
  c_ip_to_host :: "string \<rightharpoonup> string"
  c_host_to_ip :: "string \<rightharpoonup> string"
  c_smart_stats :: "string \<rightharpoonup> 'st"
  c_domain_geoip :: "string \<rightharpoonup> geoip_entry"
  store_selected :: bool

text \<open>\<open>parsed\<close> is the parsed file, if it could be read and parsed.\<close>

definition cache_file_new :: "'st cache_file option \<Rightarrow> bool \<Rightarrow> 'st cache_file" where
  "cache_file_new parsed sel =
    (case parsed of
       Some db \<Rightarrow> db \<lparr> store_selected := sel \<rparr>
     | None \<Rightarrow> \<lparr> c_selected = Map.empty, c_ip_to_host = Map.empty, c_host_to_ip = Map.empty,
         c_smart_stats = Map.empty, c_domain_geoip = Map.empty, store_selected = sel \<rparr>)"

definition set_selected :: "string \<Rightarrow> string \<Rightarrow> 'st cache_file \<Rightarrow> 'st cache_file" where
  "set_selected grp server c =
    (if store_selected c then c \<lparr> c_selected := (c_selected c)(grp \<mapsto> server) \<rparr> else c)"

definition get_selected :: "string \<Rightarrow> 'st cache_file \<Rightarrow> string option" where
  "get_selected grp c = (if store_selected c then c_selected c grp else None)"

definition get_selected_map :: "'st cache_file \<Rightarrow> string \<rightharpoonup> string" where
  "get_selected_map c = (if store_selected c then c_selected c else Map.empty)"

definition set_ip_to_host :: "string \<Rightarrow> string \<Rightarrow> 'st cache_file \<Rightarrow> 'st cache_file" where
  "set_ip_to_host ip host c = c \<lparr> c_ip_to_host := (c_ip_to_host c)(ip \<mapsto> host) \<rparr>"

definition set_host_to_ip :: "string \<Rightarrow> string \<Rightarrow> 'st cache_file \<Rightarrow> 'st cache_file" where
  "set_host_to_ip host ip c = c \<lparr> c_host_to_ip := (c_host_to_ip c)(host \<mapsto> ip) \<rparr>"

definition get_fake_ip :: "string \<Rightarrow> 'st cache_file \<Rightarrow> string option" where
  "get_fake_ip ip_or_host c =
    (case c_ip_to_host c ip_or_host of Some x \<Rightarrow> Some x | None \<Rightarrow> c_host_to_ip c ip_or_host)"

definition delete_fake_ip_pair :: "string \<Rightarrow> string \<Rightarrow> 'st cache_file \<Rightarrow> 'st cache_file" where
  "delete_fake_ip_pair ip host c =
    c \<lparr> c_ip_to_host := (c_ip_to_host c)(ip := None), c_host_to_ip := (c_host_to_ip c)(host := None) \<rparr>"

definition set_smart_stats :: "string \<Rightarrow> 'st \<Rightarrow> 'st cache_file \<Rightarrow> 'st cache_file" where
  "set_smart_stats grp st c = c \<lparr> c_smart_stats := (c_smart_stats c)(grp \<mapsto> st) \<rparr>"

definition get_smart_stats :: "string \<Rightarrow> 'st cache_file \<Rightarrow> 'st option" where
  "get_smart_stats grp c = c_smart_stats c grp"

definition get_domain_geoip :: "string \<Rightarrow> 'st cache_file \<Rightarrow> geoip_entry option" where
  "get_domain_geoip d c = (if store_selected c then c_domain_geoip c d else None)"

definition set_domain_geoip :: "string \<Rightarrow> geoip_entry \<Rightarrow> 'st cache_file \<Rightarrow> 'st cache_file" where
  "set_domain_geoip d e c =
    (if store_selected c then c \<lparr> c_domain_geoip := (c_domain_geoip c)(d \<mapsto> e) \<rparr> else c)"

section \<open>Stores\<close>

record 's store_ops =
  get_by_host :: "string \<Rightarrow> 's \<Rightarrow> ip_addr option \<times> 's"
  pub_by_host :: "string \<Rightarrow> ip_addr \<Rightarrow> 's \<Rightarrow> 's"
  get_by_ip :: "ip_addr \<Rightarrow> 's \<Rightarrow> string option \<times> 's"
  put_by_ip :: "ip_addr \<Rightarrow> string \<Rightarrow> 's \<Rightarrow> 's"
  del_by_ip :: "ip_addr \<Rightarrow> 's \<Rightarrow> 's"
  exist :: "ip_addr \<Rightarrow> 's \<Rightarrow> bool \<times> 's"

definition file_get_by_host :: "string \<Rightarrow> 'st cache_file \<Rightarrow> ip_addr option \<times> 'st cache_file" where
  "file_get_by_host host c = (Option.bind (get_fake_ip host c) parse_ip, c)"

definition file_pub_by_host :: "string \<Rightarrow> ip_addr \<Rightarrow> 'st cache_file \<Rightarrow> 'st cache_file" where
  "file_pub_by_host host ip c = set_host_to_ip host (show_ip ip) c"

definition file_get_by_ip :: "ip_addr \<Rightarrow> 'st cache_file \<Rightarrow> string option \<times> 'st cache_file" where
  "file_get_by_ip ip c = (get_fake_ip (show_ip ip) c, c)"

definition file_put_by_ip :: "ip_addr \<Rightarrow> string \<Rightarrow> 'st cache_file \<Rightarrow> 'st cache_file" where
  "file_put_by_ip ip host c = set_ip_to_host (show_ip ip) host c"

definition file_del_by_ip :: "ip_addr \<Rightarrow> 'st cache_file \<Rightarrow> 'st cache_file" where
  "file_del_by_ip ip c =
    (let host = (case fst (file_get_by_ip ip c) of Some h \<Rightarrow> h | None \<Rightarrow> [])
     in delete_fake_ip_pair (show_ip ip) host c)"

definition file_exist :: "ip_addr \<Rightarrow> 'st cache_file \<Rightarrow> bool \<times> 'st cache_file" where
  "file_exist ip c = (get_fake_ip (show_ip ip) c \<noteq> None, c)"

definition file_store :: "'st cache_file store_ops" where
  "file_store = \<lparr> get_by_host = file_get_by_host, pub_by_host = file_pub_by_host,
     get_by_ip = file_get_by_ip, put_by_ip = file_put_by_ip, del_by_ip = file_del_by_ip, exist = file_exist \<rparr>"

text \<open>The LRU cache: looking an entry up may reorder it, inserting may evict another one.\<close>

record ('i, 'h) lru_lib =
  itoh_get :: "ip_addr \<Rightarrow> 'i \<Rightarrow> string option \<times> 'i"
  itoh_insert :: "ip_addr \<Rightarrow> string \<Rightarrow> 'i \<Rightarrow> 'i"
  itoh_remove :: "ip_addr \<Rightarrow> 'i \<Rightarrow> string option \<times> 'i"
  itoh_contains :: "ip_addr \<Rightarrow> 'i \<Rightarrow> bool"
  htoi_get :: "string \<Rightarrow> 'h \<Rightarrow> ip_addr option \<times> 'h"
  htoi_insert :: "string \<Rightarrow> ip_addr \<Rightarrow> 'h \<Rightarrow> 'h"
  htoi_remove :: "string \<Rightarrow> 'h \<Rightarrow> ip_addr option \<times> 'h"

definition mem_get_by_host :: "('i, 'h) lru_lib \<Rightarrow> string \<Rightarrow> 'i \<times> 'h \<Rightarrow> ip_addr option \<times> ('i \<times> 'h)" where
  "mem_get_by_host lru host s =
    (case s of (itoh, htoi) \<Rightarrow>
       (case htoi_get lru host htoi of
          (Some ip, htoi) \<Rightarrow> (Some ip, (snd (itoh_get lru ip itoh), htoi))
        | (None, htoi) \<Rightarrow> (None, (itoh, htoi))))"

definition mem_get_by_ip :: "('i, 'h) lru_lib \<Rightarrow> ip_addr \<Rightarrow> 'i \<times> 'h \<Rightarrow> string option \<times> ('i \<times> 'h)" where
  "mem_get_by_ip lru ip s =
    (case s of (itoh, htoi) \<Rightarrow>
       (case itoh_get lru ip itoh of
          (Some h, itoh) \<Rightarrow> (Some h, (itoh, snd (htoi_get lru h htoi)))
        | (None, itoh) \<Rightarrow> (None, (itoh, htoi))))"

definition mem_del_by_ip :: "('i, 'h) lru_lib \<Rightarrow> ip_addr \<Rightarrow> 'i \<times> 'h \<Rightarrow> 'i \<times> 'h" where
  "mem_del_by_ip lru ip s =
    (case s of (itoh, htoi) \<Rightarrow>
       (case itoh_remove lru ip itoh of
          (Some h, itoh) \<Rightarrow> (itoh, snd (htoi_remove lru h htoi))
        | (None, itoh) \<Rightarrow> (itoh, htoi)))"

definition mem_store :: "('i, 'h) lru_lib \<Rightarrow> ('i \<times> 'h) store_ops" where
  "mem_store lru = \<lparr> get_by_host = mem_get_by_host lru,
     pub_by_host = (\<lambda>host ip (itoh, htoi). (itoh, htoi_insert lru host ip htoi)),
     get_by_ip = mem_get_by_ip lru,
     put_by_ip = (\<lambda>ip host (itoh, htoi). (itoh_insert lru ip host itoh, htoi)),
     del_by_ip = mem_del_by_ip lru,
     exist = (\<lambda>ip s. (itoh_contains lru ip (fst s), s)) \<rparr>"

section \<open>The pool\<close>

record ('n, 's) fake_dns =
  fd_max :: u32
  fd_min :: u32
  gateway :: u32
  offset :: u32
  skipped_hostnames :: "bool node option"
  fd_ipnet :: 'n
  store :: 's

text \<open>The shift count wraps at 32 and the subtraction of 2 wraps below zero.\<close>

definition fake_dns_new ::
  "('n, 'r) net_lib \<Rightarrow> 'n \<Rightarrow> bool node option \<Rightarrow> 's \<Rightarrow> ('n, 's) fake_dns result" where
  "fake_dns_new lib net skipped st =
    (case net_trunc lib net of
       (V4 ip, prefix_len) \<Rightarrow>
         let min = ip + 2;
             total = push_bit ((32 - prefix_len) mod 32) 1 - 2;
             max = min + total - 1
         in Ok \<lparr> fd_max = max, fd_min = min, gateway = min - 1, offset = 0, skipped_hostnames = skipped,
                 fd_ipnet = net, store = st \<rparr>
     | (V6 _, _) \<Rightarrow> Err Panic)"

text \<open>One turn of the loop of \<^verbatim>\<open>get\<close>: the pool it ends with, or the pool it goes on with.\<close>

definition pool_ip :: "('n, 's) fake_dns \<Rightarrow> ip_addr" where
  "pool_ip fd = V4 (fd_min fd + offset fd - 1)"

definition get_step ::
  "'s store_ops \<Rightarrow> u32 \<Rightarrow> ('n, 's) fake_dns \<Rightarrow> ('n, 's) fake_dns result + ('n, 's) fake_dns" where
  "get_step ops current fd =
    (if fd_max fd - fd_min fd = 0 then Inl (Err Panic)
     else
       let fd = fd \<lparr> offset := (offset fd + 1) mod (fd_max fd - fd_min fd) \<rparr> in
       if offset fd = current then
         let fd = fd \<lparr> offset := (offset fd + 1) mod (fd_max fd - fd_min fd) \<rparr>
         in Inl (Ok (fd \<lparr> store := del_by_ip ops (pool_ip fd) (store fd) \<rparr>))
       else
         case exist ops (pool_ip fd) (store fd) of (e, st) \<Rightarrow>
           let fd = fd \<lparr> store := st \<rparr> in if e then Inr fd else Inl (Ok fd))"

partial_function (option) get_loop ::
  "'s store_ops \<Rightarrow> u32 \<Rightarrow> ('n, 's) fake_dns \<Rightarrow> ('n, 's) fake_dns result option" where
  "get_loop ops current fd = (case get_step ops current fd of Inl r \<Rightarrow> Some r | Inr fd' \<Rightarrow> get_loop ops current fd')"

definition fake_get ::
  "'s store_ops \<Rightarrow> string \<Rightarrow> ('n, 's) fake_dns \<Rightarrow> (ip_addr \<times> ('n, 's) fake_dns) result option" where
  "fake_get ops host fd =
    map_option (\<lambda>r. bind_result r (\<lambda>fd.
      Ok (pool_ip fd, fd \<lparr> store := put_by_ip ops (pool_ip fd) host (store fd) \<rparr>)))
      (get_loop ops (offset fd) fd)"

definition fake_lookup ::
  "'s store_ops \<Rightarrow> string \<Rightarrow> ('n, 's) fake_dns \<Rightarrow> (ip_addr \<times> ('n, 's) fake_dns) result option" where
  "fake_lookup ops host fd =
    (case get_by_host ops host (store fd) of
       (Some ip, st) \<Rightarrow> Some (Ok (ip, fd \<lparr> store := st \<rparr>))
     | (None, st) \<Rightarrow>
         map_option (\<lambda>r. bind_result r (\<lambda>(ip, fd).
           Ok (ip, fd \<lparr> store := pub_by_host ops host ip (store fd) \<rparr>)))
           (fake_get ops host (fd \<lparr> store := st \<rparr>)))"

definition reverse_lookup ::
  "'s store_ops \<Rightarrow> ip_addr \<Rightarrow> ('n, 's) fake_dns \<Rightarrow> string option \<times> ('n, 's) fake_dns" where
  "reverse_lookup ops ip fd =
    (if \<not> is_ipv4 ip then (None, fd)
     else case get_by_ip ops ip (store fd) of (h, st) \<Rightarrow> (h, fd \<lparr> store := st \<rparr>))"

definition should_skip :: "string \<Rightarrow> ('n, 's) fake_dns \<Rightarrow> bool" where
  "should_skip d fd =
    (case skipped_hostnames fd of None \<Rightarrow> False | Some host \<Rightarrow> trie_search host d \<noteq> None)"

definition fake_exist :: "'s store_ops \<Rightarrow> ip_addr \<Rightarrow> ('n, 's) fake_dns \<Rightarrow> bool \<times> ('n, 's) fake_dns" where
  "fake_exist ops ip fd =
    (if \<not> is_ipv4 ip then (False, fd)
     else case exist ops ip (store fd) of (e, st) \<Rightarrow> (e, fd \<lparr> store := st \<rparr>))"

definition is_fake_ip :: "('n, 'r) net_lib \<Rightarrow> ip_addr \<Rightarrow> ('n, 's) fake_dns \<Rightarrow> bool" where
  "is_fake_ip lib ip fd = (if \<not> is_ipv4 ip then False else net_contains lib (fd_ipnet fd) ip)"

section \<open>The contract of a store\<close>

text \<open>Host names that are not address literals and not empty.\<close>

definition host_ok :: "string \<Rightarrow> bool" where
  "host_ok h \<longleftrightarrow> h \<noteq> [] \<and> parse_ip h = None"

text \<open>A pool in order: its offset is in range, the two directions agree, all addresses are of the pool.\<close>

definition pool_size :: "('n, 's) fake_dns \<Rightarrow> u32" where
  "pool_size fd = fd_max fd - fd_min fd"

definition pool_addr :: "('n, 's) fake_dns \<Rightarrow> ip_addr \<Rightarrow> bool" where
  "pool_addr fd ip \<longleftrightarrow> (\<exists>k < unat (pool_size fd). ip = V4 (gateway fd + word_of_nat k))"

definition pool_inv ::
  "('s \<Rightarrow> string \<Rightarrow> ip_addr option) \<Rightarrow> ('s \<Rightarrow> ip_addr \<Rightarrow> string option) \<Rightarrow> ('s \<Rightarrow> bool) \<Rightarrow> ('n, 's) fake_dns \<Rightarrow> bool" where
  "pool_inv h2i i2h st_ok fd \<longleftrightarrow>
    st_ok (store fd) \<and> offset fd < pool_size fd \<and> gateway fd = fd_min fd - 1 \<and>
    (\<forall>h ip. h2i (store fd) h = Some ip \<longleftrightarrow> i2h (store fd) ip = Some h) \<and>
    (\<forall>h ip. i2h (store fd) ip = Some h \<longrightarrow> host_ok h \<and> pool_addr fd ip)"

definition loop_post ::
  "('s \<Rightarrow> string \<Rightarrow> ip_addr option) \<Rightarrow> ('s \<Rightarrow> ip_addr \<Rightarrow> string option) \<Rightarrow> ('s \<Rightarrow> bool) \<Rightarrow>
   ('n, 's) fake_dns \<Rightarrow> ('n, 's) fake_dns \<Rightarrow> bool" where
  "loop_post h2i i2h st_ok fd fd' \<longleftrightarrow>
    pool_inv h2i i2h st_ok fd' \<and> (\<exists>x st. fd' = fd \<lparr> offset := x, store := st \<rparr>) \<and>
    i2h (store fd') (pool_ip fd') = None \<and> (\<forall>h. h2i (store fd') h = h2i (store fd) h \<or> h2i (store fd') h = None)"

lemma pool_frame [simp]:
  "pool_size (fd \<lparr> offset := x \<rparr>) = pool_size fd" "pool_size (fd \<lparr> store := st \<rparr>) = pool_size fd"
  "pool_addr (fd \<lparr> offset := x \<rparr>) = pool_addr fd" "pool_addr (fd \<lparr> store := st \<rparr>) = pool_addr fd"
  "pool_ip (fd \<lparr> store := st \<rparr>) = pool_ip fd"
  by (simp_all add: pool_size_def pool_addr_def pool_ip_def fun_eq_iff)

lemma offset_frame: "\<exists>y st. fd \<lparr> offset := x \<rparr> = fd \<lparr> offset := y, store := st \<rparr>"
  by (rule exI [of _ x], rule exI [of _ "store fd"]) simp

lemma pool_ip_addr: "offset fd < pool_size fd \<Longrightarrow> gateway fd = fd_min fd - 1 \<Longrightarrow> pool_addr fd (pool_ip fd)"
  unfolding pool_addr_def pool_ip_def
  by (rule exI [of _ "unat (offset fd)"]) (simp add: word_less_nat_alt algebra_simps)

text \<open>One step of the offset, around the pool.\<close>

lemma next_offset:
  fixes w n :: u32
  assumes "w < n"
  shows "(w + 1) mod n < n" and "unat ((w + 1) mod n) = (unat w + 1) mod unat n"
proof -
  have "0 < n" using assms by (metis word_not_simps(1) word_coorder.not_eq_extremum)
  then show "(w + 1) mod n < n" by (simp add: word_mod_less_divisor)
  have "unat n < 2 ^ 32" using unsigned_less [of n] by simp
  then have "unat w + 1 < 2 ^ 32" using assms unfolding word_less_nat_alt by simp
  then have "unat (w + 1) = unat w + 1" by (simp add: unat_word_ariths)
  then show "unat ((w + 1) mod n) = (unat w + 1) mod unat n" by (simp add: unat_mod)
qed

locale fakeip_store =
  fixes ops :: "'s store_ops" and h2i :: "'s \<Rightarrow> string \<Rightarrow> ip_addr option"
    and i2h :: "'s \<Rightarrow> ip_addr \<Rightarrow> string option" and st_ok :: "'s \<Rightarrow> bool"
  assumes get_by_host_law: "st_ok s \<Longrightarrow> host_ok h \<Longrightarrow> get_by_host ops h s = (h2i s h, s)"
    and pub_by_host_law: "st_ok s \<Longrightarrow> host_ok h \<Longrightarrow> st_ok (pub_by_host ops h ip s) \<and>
      h2i (pub_by_host ops h ip s) = (h2i s)(h \<mapsto> ip) \<and> i2h (pub_by_host ops h ip s) = i2h s"
    and get_by_ip_law: "st_ok s \<Longrightarrow> get_by_ip ops ip s = (i2h s ip, s)"
    and put_by_ip_law: "st_ok s \<Longrightarrow> host_ok h \<Longrightarrow> st_ok (put_by_ip ops ip h s) \<and>
      i2h (put_by_ip ops ip h s) = (i2h s)(ip \<mapsto> h) \<and> h2i (put_by_ip ops ip h s) = h2i s"
    and del_by_ip_law: "st_ok s \<Longrightarrow> st_ok (del_by_ip ops ip s) \<and>
      i2h (del_by_ip ops ip s) = (i2h s)(ip := None) \<and>
      h2i (del_by_ip ops ip s) = (case i2h s ip of Some h \<Rightarrow> (h2i s)(h := None) | None \<Rightarrow> h2i s)"
    and exist_law: "st_ok s \<Longrightarrow> exist ops ip s = (i2h s ip \<noteq> None, s)"
begin

lemma inv_del:
  assumes "pool_inv h2i i2h st_ok fd"
  shows "pool_inv h2i i2h st_ok (fd \<lparr> store := del_by_ip ops ip (store fd) \<rparr>)"
proof -
  have ok: "st_ok (store fd)" and bij: "\<And>h ip. h2i (store fd) h = Some ip \<longleftrightarrow> i2h (store fd) ip = Some h"
    using assms by (simp_all add: pool_inv_def)
  note del = del_by_ip_law [OF ok, of ip]
  show ?thesis
  proof (cases "i2h (store fd) ip")
    case None
    then have "(i2h (store fd))(ip := None) = i2h (store fd)" by (simp add: fun_upd_idem)
    with None del assms show ?thesis by (simp add: pool_inv_def)
  next
    case (Some h)
    have "((h2i (store fd))(h := None)) h' = Some ip' \<longleftrightarrow> ((i2h (store fd))(ip := None)) ip' = Some h'" for h' ip'
      using bij [of h' ip'] bij [of h ip] Some by (metis fun_upd_apply option.distinct(1) option.inject)
    moreover have "((i2h (store fd))(ip := None)) ip' = Some h' \<Longrightarrow> i2h (store fd) ip' = Some h'" for h' ip'
      by (metis fun_upd_apply option.distinct(1))
    ultimately show ?thesis using Some del assms unfolding pool_inv_def by simp
  qed
qed

lemma inv_offset: "pool_inv h2i i2h st_ok fd \<Longrightarrow> x < pool_size fd \<Longrightarrow> pool_inv h2i i2h st_ok (fd \<lparr> offset := x \<rparr>)"
  by (auto simp: pool_inv_def)

lemma inv_insert:
  assumes "pool_inv h2i i2h st_ok fd" and "host_ok h" and "pool_addr fd ip"
    and "h2i (store fd) h = None" and "i2h (store fd) ip = None"
    and "st_ok st" and "h2i st = (h2i (store fd))(h \<mapsto> ip)" and "i2h st = (i2h (store fd))(ip \<mapsto> h)"
  shows "pool_inv h2i i2h st_ok (fd \<lparr> store := st \<rparr>)"
proof -
  have bij: "\<And>h ip. h2i (store fd) h = Some ip \<longleftrightarrow> i2h (store fd) ip = Some h"
    using assms(1) by (simp add: pool_inv_def)
  have "h2i st h' = Some ip' \<longleftrightarrow> i2h st ip' = Some h'" for h' ip'
    unfolding assms(7, 8) using bij [of h' ip'] bij [of h ip'] bij [of h' ip] assms(4, 5)
    by (metis fun_upd_apply option.distinct(1) option.inject)
  moreover have "i2h st ip' = Some h' \<Longrightarrow> host_ok h' \<and> pool_addr fd ip'" for h' ip'
    using assms(1, 2, 3, 8) by (auto simp: pool_inv_def split: if_splits)
  ultimately show ?thesis using assms(1, 6) unfolding pool_inv_def by simp
qed

lemma inv_facts:
  assumes "pool_inv h2i i2h st_ok fd"
  shows "offset fd < pool_size fd" and "st_ok (store fd)" and "fd_max fd - fd_min fd \<noteq> 0"
  using assms by (auto simp: pool_inv_def pool_size_def)

lemma get_loop_wrap:
  assumes "pool_inv h2i i2h st_ok fd" and "(offset fd + 1) mod pool_size fd = current"
  shows "\<exists>fd'. get_loop ops current fd = Some (Ok fd') \<and> loop_post h2i i2h st_ok fd fd'"
proof -
  note facts = inv_facts [OF assms(1)]
  let ?x = "(current + 1) mod pool_size fd"
  let ?fd = "fd \<lparr> offset := ?x \<rparr>"
  let ?st = "del_by_ip ops (pool_ip ?fd) (store fd)"
  have cur: "current < pool_size fd" using next_offset(1) [OF facts(1)] assms(2) by simp
  have "pool_inv h2i i2h st_ok ?fd" using assms(1) next_offset(1) [OF cur] by (rule inv_offset)
  from inv_del [OF this, of "pool_ip ?fd"] have "pool_inv h2i i2h st_ok (fd \<lparr> offset := ?x, store := ?st \<rparr>)" by simp
  then have "loop_post h2i i2h st_ok fd (fd \<lparr> offset := ?x, store := ?st \<rparr>)"
    using del_by_ip_law [OF facts(2), of "pool_ip ?fd"] by (auto simp: loop_post_def pool_ip_def split: option.splits)
  moreover have "get_loop ops current fd = Some (Ok (fd \<lparr> offset := ?x, store := ?st \<rparr>))"
    using facts(3) assms(2) by (subst get_loop.simps) (simp add: get_step_def Let_def pool_size_def)
  ultimately show ?thesis by blast
qed

lemma get_loop_free:
  assumes "pool_inv h2i i2h st_ok fd" and "(offset fd + 1) mod pool_size fd \<noteq> current"
    and "i2h (store fd) (pool_ip (fd \<lparr> offset := (offset fd + 1) mod pool_size fd \<rparr>)) = None"
  shows "\<exists>fd'. get_loop ops current fd = Some (Ok fd') \<and> loop_post h2i i2h st_ok fd fd'"
proof -
  note facts = inv_facts [OF assms(1)]
  let ?fd = "fd \<lparr> offset := (offset fd + 1) mod pool_size fd \<rparr>"
  have "pool_inv h2i i2h st_ok ?fd" using assms(1) next_offset(1) [OF facts(1)] by (rule inv_offset)
  then have "loop_post h2i i2h st_ok fd ?fd"
    using assms(3) offset_frame [where fd = fd] by (simp add: loop_post_def)
  moreover have "get_loop ops current fd = Some (Ok ?fd)"
    using facts assms(2, 3) exist_law [OF facts(2)]
    by (subst get_loop.simps) (simp add: get_step_def Let_def pool_size_def)
  ultimately show ?thesis by blast
qed

text \<open>The loop ends at a free address of the pool; at most one pair is dropped.\<close>

lemma get_loop_ends:
  assumes "pool_inv h2i i2h st_ok fd"
    and "(unat (offset fd) + Suc j) mod unat (pool_size fd) = unat current"
  shows "\<exists>fd'. get_loop ops current fd = Some (Ok fd') \<and> loop_post h2i i2h st_ok fd fd'"
  using assms
proof (induction j arbitrary: fd)
  case (0 fd)
  have "unat ((offset fd + 1) mod pool_size fd) = unat current"
    using 0(2) next_offset(2) [OF inv_facts(1) [OF 0(1)]] by simp
  then show ?case by (intro get_loop_wrap 0(1)) (simp add: word_unat_eq_iff)
next
  case (Suc j fd)
  note facts = inv_facts [OF Suc.prems(1)]
  let ?fd = "fd \<lparr> offset := (offset fd + 1) mod pool_size fd \<rparr>"
  show ?case
  proof (cases "(offset fd + 1) mod pool_size fd = current \<or> i2h (store fd) (pool_ip ?fd) = None")
    case True
    then show ?thesis using get_loop_wrap get_loop_free Suc.prems(1) by blast
  next
    case False
    have inv: "pool_inv h2i i2h st_ok ?fd" using Suc.prems(1) next_offset(1) [OF facts(1)] by (rule inv_offset)
    have "(unat (offset ?fd) + Suc j) mod unat (pool_size ?fd) = unat current"
      using Suc.prems(2) mod_add_left_eq [of "unat (offset fd) + 1" "unat (pool_size fd)" "Suc j"]
      by (simp add: next_offset(2) [OF facts(1)])
    from Suc.IH [OF inv this] obtain fd' where
      fd': "get_loop ops current ?fd = Some (Ok fd')" "loop_post h2i i2h st_ok ?fd fd'" by blast
    have "get_loop ops current fd = get_loop ops current ?fd"
      using facts False exist_law [OF facts(2)]
      by (subst get_loop.simps) (simp add: get_step_def Let_def pool_size_def)
    moreover have "loop_post h2i i2h st_ok fd fd'" using fd'(2) by (auto simp: loop_post_def)
    ultimately show ?thesis using fd'(1) by simp
  qed
qed

lemma lookup_known:
  assumes "pool_inv h2i i2h st_ok fd" and "host_ok h" and "h2i (store fd) h = Some ip"
  shows "fake_lookup ops h fd = Some (Ok (ip, fd))"
  using get_by_host_law [OF inv_facts(2) [OF assms(1)] assms(2)] assms(3) by (simp add: fake_lookup_def)

lemma lookup_new:
  assumes "pool_inv h2i i2h st_ok fd" and "host_ok h" and "h2i (store fd) h = None"
  shows "\<exists>ip fd'. fake_lookup ops h fd = Some (Ok (ip, fd')) \<and> pool_inv h2i i2h st_ok fd' \<and>
    h2i (store fd') h = Some ip \<and> (\<exists>x st. fd' = fd \<lparr> offset := x, store := st \<rparr>)"
proof -
  note facts = inv_facts [OF assms(1)]
  have "0 < unat (pool_size fd)" using facts(1) unfolding word_less_nat_alt by linarith
  then have "(unat (offset fd) + Suc (unat (pool_size fd) - 1)) mod unat (pool_size fd) = unat (offset fd)"
    using facts(1) by (simp add: word_less_nat_alt)
  from get_loop_ends [OF assms(1) this] obtain fd1 where
    loop: "get_loop ops (offset fd) fd = Some (Ok fd1)" and post: "loop_post h2i i2h st_ok fd fd1" by blast
  let ?ip = "pool_ip fd1"
  let ?st = "pub_by_host ops h ?ip (put_by_ip ops ?ip h (store fd1))"
  have inv1: "pool_inv h2i i2h st_ok fd1" and free: "i2h (store fd1) ?ip = None"
    and new: "h2i (store fd1) h = None" and frame: "\<exists>x st. fd1 = fd \<lparr> offset := x, store := st \<rparr>"
    using post assms(3) by (auto simp: loop_post_def) (metis option.distinct(1))+
  note ok1 = inv_facts [OF inv1]
  note put = put_by_ip_law [OF ok1(2) assms(2), of ?ip]
  then have pub: "st_ok ?st" "h2i ?st = (h2i (store fd1))(h \<mapsto> ?ip)" "i2h ?st = (i2h (store fd1))(?ip \<mapsto> h)"
    using pub_by_host_law [OF _ assms(2)] by auto
  have "pool_addr fd1 ?ip" using inv1 by (intro pool_ip_addr) (simp_all add: pool_inv_def)
  then have "pool_inv h2i i2h st_ok (fd1 \<lparr> store := ?st \<rparr>)"
    using inv_insert [OF inv1 assms(2)] new free pub by blast
  moreover have "fake_lookup ops h fd = Some (Ok (?ip, fd1 \<lparr> store := ?st \<rparr>))"
    using get_by_host_law [OF facts(2) assms(2)] assms(3) loop by (simp add: fake_lookup_def fake_get_def)
  ultimately show ?thesis using pub(2) frame by fastforce
qed

lemma lookup_spec:
  assumes "pool_inv h2i i2h st_ok fd" and "host_ok h"
  shows "\<exists>ip fd'. fake_lookup ops h fd = Some (Ok (ip, fd')) \<and> pool_inv h2i i2h st_ok fd' \<and>
    h2i (store fd') h = Some ip \<and> (\<exists>x st. fd' = fd \<lparr> offset := x, store := st \<rparr>)"
proof (cases "h2i (store fd) h")
  case None
  then show ?thesis using lookup_new [OF assms] by blast
next
  case (Some ip)
  moreover have "fd = fd \<lparr> offset := offset fd, store := store fd \<rparr>" by simp
  ultimately show ?thesis using lookup_known [OF assms Some] assms(1) by blast
qed

text \<open>The answer is looked up back, and again to the same address.\<close>

lemma lookup_reverse:
  assumes "pool_inv h2i i2h st_ok fd" and "host_ok h"
  obtains ip fd' where "fake_lookup ops h fd = Some (Ok (ip, fd'))" and "pool_inv h2i i2h st_ok fd'"
    and "reverse_lookup ops ip fd' = (Some h, fd')" and "fake_lookup ops h fd' = Some (Ok (ip, fd'))"
    and "pool_addr fd ip"
proof -
  from lookup_spec [OF assms] obtain ip fd' x st where
    l: "fake_lookup ops h fd = Some (Ok (ip, fd'))" "pool_inv h2i i2h st_ok fd'" "h2i (store fd') h = Some ip"
    and f: "fd' = fd \<lparr> offset := x, store := st \<rparr>" by blast
  have "i2h (store fd') ip = Some h" "pool_addr fd' ip" using l by (auto simp: pool_inv_def)
  moreover have "is_ipv4 ip" using \<open>pool_addr fd' ip\<close> by (auto simp: pool_addr_def)
  ultimately show ?thesis
    using that l lookup_known [OF l(2) assms(2) l(3)] get_by_ip_law [OF inv_facts(2) [OF l(2)], of ip]
    by (simp add: reverse_lookup_def f)
qed

end

section \<open>The file store keeps the contract\<close>

definition file_h2i :: "'st cache_file \<Rightarrow> string \<Rightarrow> ip_addr option" where
  "file_h2i c h = (if host_ok h then Option.bind (c_host_to_ip c h) parse_ip else None)"

definition file_i2h :: "'st cache_file \<Rightarrow> ip_addr \<Rightarrow> string option" where
  "file_i2h c ip = c_ip_to_host c (show_ip ip)"

definition file_ok :: "'st cache_file \<Rightarrow> bool" where
  "file_ok c \<longleftrightarrow> (\<forall>h. host_ok h \<longrightarrow> c_ip_to_host c h = None) \<and> (\<forall>ip. c_host_to_ip c (show_ip ip) = None) \<and>
    (\<forall>ip h. c_ip_to_host c (show_ip ip) = Some h \<longrightarrow> host_ok h)"

lemma show_ip_not_host [simp]: "\<not> host_ok (show_ip ip)" "host_ok h \<Longrightarrow> h \<noteq> show_ip ip" "host_ok h \<Longrightarrow> show_ip ip \<noteq> h"
  by (auto simp: host_ok_def)

lemma host_ok_Nil [simp]: "\<not> host_ok []"
  by (simp add: host_ok_def)

lemmas file_defs = file_store_def file_get_by_host_def file_pub_by_host_def file_get_by_ip_def
  file_put_by_ip_def file_del_by_ip_def file_exist_def get_fake_ip_def set_host_to_ip_def
  set_ip_to_host_def delete_fake_ip_pair_def file_h2i_def file_i2h_def file_ok_def

lemma file_del_laws:
  assumes "file_ok c"
  shows "file_ok (file_del_by_ip ip c)" and "file_i2h (file_del_by_ip ip c) = (file_i2h c)(ip := None)"
    and "file_h2i (file_del_by_ip ip c) = (case file_i2h c ip of Some h \<Rightarrow> (file_h2i c)(h := None) | None \<Rightarrow> file_h2i c)"
proof -
  show "file_ok (file_del_by_ip ip c)"
    using assms by (auto simp: file_defs Let_def show_ip_inj)
  show "file_i2h (file_del_by_ip ip c) = (file_i2h c)(ip := None)"
    by (rule ext) (simp add: file_defs Let_def show_ip_inj)
  show "file_h2i (file_del_by_ip ip c) = (case file_i2h c ip of Some h \<Rightarrow> (file_h2i c)(h := None) | None \<Rightarrow> file_h2i c)"
    using assms by (auto simp: file_defs Let_def fun_eq_iff split: option.split)
qed

interpretation file_pool: fakeip_store file_store file_h2i file_i2h file_ok
proof
  fix c :: "'a cache_file" and h :: string and ip :: ip_addr
  assume c: "file_ok c"
  show "get_by_ip file_store ip c = (file_i2h c ip, c)"
    using c by (simp add: file_defs split: option.split)
  show "exist file_store ip c = (file_i2h c ip \<noteq> None, c)"
    using c by (simp add: file_defs split: option.split)
  show "file_ok (del_by_ip file_store ip c) \<and> file_i2h (del_by_ip file_store ip c) = (file_i2h c)(ip := None) \<and>
      file_h2i (del_by_ip file_store ip c) = (case file_i2h c ip of Some h \<Rightarrow> (file_h2i c)(h := None) | None \<Rightarrow> file_h2i c)"
    using file_del_laws [OF c] by (simp add: file_store_def)
  assume h: "host_ok h"
  show "get_by_host file_store h c = (file_h2i c h, c)"
    using c h by (simp add: file_defs)
  show "file_ok (pub_by_host file_store h ip c) \<and> file_h2i (pub_by_host file_store h ip c) = (file_h2i c)(h \<mapsto> ip) \<and>
      file_i2h (pub_by_host file_store h ip c) = file_i2h c"
    using c h by (auto simp: file_defs fun_eq_iff)
  show "file_ok (put_by_ip file_store ip h c) \<and> file_i2h (put_by_ip file_store ip h c) = (file_i2h c)(ip \<mapsto> h) \<and>
      file_h2i (put_by_ip file_store ip h c) = file_h2i c"
    using c h by (auto simp: file_defs fun_eq_iff show_ip_inj)
qed

section \<open>Pools over an IPv4 subnet\<close>

text \<open>A subnet of at least four and at most \<open>2 ^ 31\<close> addresses, truncated to its network address.\<close>

definition pool_net :: "('n, 'r) net_lib \<Rightarrow> 'n \<Rightarrow> bool" where
  "pool_net lib net = (case net_trunc lib net of
     (V4 ip, p) \<Rightarrow> 1 \<le> p \<and> p \<le> 30 \<and> 2 ^ (32 - p) dvd unat ip \<and>
       (\<forall>x. net_contains lib net (V4 x) = same_prefix 32 p ip x)
   | (V6 _, _) \<Rightarrow> False)"

inductive pool_reach ::
  "('n, 'r) net_lib \<Rightarrow> 'n \<Rightarrow> ('n, 'st cache_file) fake_dns \<Rightarrow> bool" for lib net where
  pool_new: "fake_dns_new lib net skipped (cache_file_new None sel) = Ok fd \<Longrightarrow> pool_reach lib net fd"
| pool_lookup: "pool_reach lib net fd \<Longrightarrow> host_ok h \<Longrightarrow> fake_lookup file_store h fd = Some (Ok (ip, fd')) \<Longrightarrow>
    pool_reach lib net fd'"

lemma word_pow: "k < 32 \<Longrightarrow> unat (push_bit k 1 :: u32) = 2 ^ k"
proof -
  assume "k < 32"
  then have "(2 :: nat) ^ k < 2 ^ 32" by (rule power_strict_increasing) simp
  moreover have "(push_bit k 1 :: u32) = word_of_nat (2 ^ k)" by simp
  ultimately show ?thesis by (simp only: unat_of_nat) simp
qed

lemma pool_size_new:
  assumes "fake_dns_new lib net skipped st = Ok fd" and "net_trunc lib net = (V4 ip, p)" and "1 \<le> p" and "p \<le> 30"
  shows "unat (pool_size fd) = 2 ^ (32 - p) - 3" and "offset fd = 0" and "gateway fd = ip + 1"
    and "fd_min fd = ip + 2" and "store fd = st" and "fd_ipnet fd = net"
proof -
  show "offset fd = 0" "gateway fd = ip + 1" "fd_min fd = ip + 2" "store fd = st" "fd_ipnet fd = net"
    using assms(1, 2) by (auto simp: fake_dns_new_def Let_def)
  have k: "32 - p < 32" using assms(3) by simp
  have ge: "(4 :: nat) \<le> 2 ^ (32 - p)" using assms(4) power_increasing [of 2 "32 - p" "2 :: nat"] by simp
  have "pool_size fd = push_bit (32 - p) 1 - 3"
    using assms(1, 2) k by (auto simp: fake_dns_new_def Let_def pool_size_def)
  moreover have "3 \<le> (push_bit (32 - p) 1 :: u32)"
    unfolding word_le_nat_alt word_pow [OF k] using ge by simp
  ultimately show "unat (pool_size fd) = 2 ^ (32 - p) - 3"
    using word_pow [OF k] by (simp add: unat_sub)
qed

lemma pool_reach_inv:
  assumes "pool_reach lib net fd" and "net_trunc lib net = (V4 ip, p)" and "1 \<le> p" and "p \<le> 30"
  shows "pool_inv file_h2i file_i2h file_ok fd \<and> unat (pool_size fd) = 2 ^ (32 - p) - 3 \<and>
    gateway fd = ip + 1 \<and> fd_ipnet fd = net"
  using assms(1)
proof induction
  case (pool_new skipped sel fd)
  note new = pool_size_new [OF pool_new assms(2-4)]
  have ge: "(4 :: nat) \<le> 2 ^ (32 - p)" using assms(4) power_increasing [of 2 "32 - p" "2 :: nat"] by simp
  then have "offset fd < pool_size fd" unfolding word_less_nat_alt new(1, 2) by simp
  then show ?case using new by (simp add: pool_inv_def file_defs cache_file_new_def)
next
  case (pool_lookup fd h ip' fd')
  then have inv: "pool_inv file_h2i file_i2h file_ok fd" by simp
  obtain ip1 fd1 where "fake_lookup file_store h fd = Some (Ok (ip1, fd1))"
    and inv1: "pool_inv file_h2i file_i2h file_ok fd1" and "\<exists>x st. fd1 = fd \<lparr> offset := x, store := st \<rparr>"
    using file_pool.lookup_spec [OF inv pool_lookup(2)] by blast
  with pool_lookup show ?case by auto
qed

lemma pool_net_trunc:
  assumes "pool_net lib net"
  obtains ip p where "net_trunc lib net = (V4 ip, p)" and "1 \<le> p" and "p \<le> 30" and "2 ^ (32 - p) dvd unat ip"
    and "\<And>x. net_contains lib net (V4 x) = same_prefix 32 p ip x"
  using assms unfolding pool_net_def by (auto split: prod.splits ip_addr.splits)

lemma pool_addr_in_net:
  assumes "pool_addr fd (V4 a)" and "unat (pool_size fd) = 2 ^ (32 - p) - 3" and "gateway fd = ip + 1"
    and "2 ^ (32 - p) dvd unat ip" and "p \<le> 30"
  shows "same_prefix 32 p ip a"
proof -
  let ?B = "2 ^ (32 - p) :: nat"
  obtain k where k: "k < ?B - 3" "a = ip + 1 + word_of_nat k" using assms(1-3) by (auto simp: pool_addr_def)
  obtain q where q: "unat ip = ?B * q" using assms(4) by (rule dvdE)
  have "unat ip < 2 ^ 32" using unsigned_less [of ip] by simp
  also have "(2 :: nat) ^ 32 = ?B * 2 ^ p" using assms(5) by (simp flip: power_add)
  finally have "q < 2 ^ p" unfolding q by simp
  then have "?B * (q + 1) \<le> ?B * 2 ^ p" by (intro mult_le_mono2) simp
  also have "?B * 2 ^ p = 2 ^ 32" using assms(5) by (simp flip: power_add)
  finally have top: "unat ip + ?B \<le> 2 ^ 32" by (simp add: q algebra_simps)
  have "a = word_of_nat (unat ip + 1 + k)" by (simp add: k(2))
  then have "unat a = (unat ip + 1 + k) mod 2 ^ 32" by (simp only: unat_of_nat) simp
  also have "\<dots> = ?B * q + (1 + k)" using top k(1) q by simp
  finally have "unat a div ?B = q" using k(1) by (intro div_nat_eqI) simp_all
  then show ?thesis by (simp add: same_prefix_def q)
qed

text \<open>What a lookup in a reachable pool gives: an address of the subnet that leads back to the name.\<close>

lemma reach_lookup:
  assumes "pool_reach lib net fd" and "pool_net lib net" and "host_ok h"
  obtains a fd' where "fake_lookup file_store h fd = Some (Ok (V4 a, fd'))"
    and "reverse_lookup file_store (V4 a) fd' = (Some h, fd')"
    and "fake_lookup file_store h fd' = Some (Ok (V4 a, fd'))"
    and "is_fake_ip lib (V4 a) fd'" and "pool_reach lib net fd'"
    and "skipped_hostnames fd' = skipped_hostnames fd"
proof -
  obtain n p where net: "net_trunc lib net = (V4 n, p)" "1 \<le> p" "p \<le> 30" "2 ^ (32 - p) dvd unat n"
    "\<forall>x. net_contains lib net (V4 x) = same_prefix 32 p n x"
    using assms(2) by (rule pool_net_trunc) blast
  note inv = pool_reach_inv [OF assms(1) net(1-3)]
  obtain ip fd' where l: "fake_lookup file_store h fd = Some (Ok (ip, fd'))" "pool_addr fd ip"
    "reverse_lookup file_store ip fd' = (Some h, fd')" "fake_lookup file_store h fd' = Some (Ok (ip, fd'))"
    using inv file_pool.lookup_reverse [OF _ assms(3)] by metis
  then obtain a where a: "ip = V4 a" by (auto simp: pool_addr_def)
  have r: "pool_reach lib net fd'" using pool_lookup [OF assms(1, 3) l(1)] .
  then have "fd_ipnet fd' = net" using pool_reach_inv [OF _ net(1-3)] by blast
  then have "is_fake_ip lib (V4 a) fd'"
    using net(5) pool_addr_in_net [OF l(2) [unfolded a]] inv net(3, 4) by (simp add: is_fake_ip_def)
  moreover have "skipped_hostnames fd' = skipped_hostnames fd"
    using file_pool.lookup_spec [OF _ assms(3)] inv l(1) by fastforce
  ultimately show thesis using that l r by (simp add: a)
qed

section \<open>Properties\<close>

text \<open>
  C8. A fake address leads back: in every state a pool over the file store can get into by lookups of
  host names that are not address literals, a lookup ends with an address, looking that address up
  gives the host name, and looking the host name up again gives the same address and changes nothing.
\<close>

theorem fake_round_trip:
  assumes "pool_reach lib net fd" and "pool_net lib net" and "host_ok h"
  shows "\<exists>ip fd'. fake_lookup file_store h fd = Some (Ok (ip, fd')) \<and>
    reverse_lookup file_store ip fd' = (Some h, fd') \<and> fake_lookup file_store h fd' = Some (Ok (ip, fd'))"
  using reach_lookup [OF assms] by metis

text \<open>The pool of the tests of the source, \<^verbatim>\<open>192.168.0.0/29\<close>.\<close>

definition plain_pool :: "(ip_addr \<times> nat, unit cache_file) fake_dns" where
  "plain_pool = \<lparr> fd_max = 0xC0A80007, fd_min = 0xC0A80002, gateway = 0xC0A80001, offset = 0,
     skipped_hostnames = None, fd_ipnet = (V4 0xC0A80000, 29), store = cache_file_new None False \<rparr>"

lemma plain_pool_reach: "pool_reach pair_lib (V4 0xC0A80000, 29) plain_pool"
  by (rule pool_new [of _ _ None False])
    (simp add: fake_dns_new_def plain_pool_def pair_lib_def mask_addr_def)

lemma plain_pool_net: "pool_net pair_lib (V4 0xC0A80000, 29)"
  by (simp add: pool_net_def pair_lib_def mask_addr_def same_prefix_def)

lemma plain_host: "host_ok ''x.com''"
  by (simp add: host_ok_def parse_ip_none digit_val_def)

theorem fake_round_trip_witness:
  "\<exists>ip fd'. fake_lookup file_store ''x.com'' plain_pool = Some (Ok (ip, fd')) \<and>
    reverse_lookup file_store ip fd' = (Some ''x.com'', fd') \<and>
    fake_lookup file_store ''x.com'' fd' = Some (Ok (ip, fd'))"
  by (rule fake_round_trip [OF plain_pool_reach plain_pool_net plain_host])

text \<open>
  Every address a pool hands out lies in its subnet, so it is recognized as a fake address.
\<close>

theorem fake_lookup_in_net:
  assumes "pool_reach lib net fd" and "pool_net lib net" and "host_ok h"
    and "fake_lookup file_store h fd = Some (Ok (ip, fd'))"
  shows "is_fake_ip lib ip fd'"
  using reach_lookup [OF assms(1-3)] assms(4) by (metis Inr_inject option.inject prod.inject)

theorem fake_lookup_in_net_witness:
  "\<exists>ip fd'. fake_lookup file_store ''x.com'' plain_pool = Some (Ok (ip, fd')) \<and> is_fake_ip pair_lib ip fd'"
proof -
  have "pool_inv file_h2i file_i2h file_ok plain_pool"
    using pool_reach_inv [OF plain_pool_reach] by (simp add: pair_lib_def)
  then obtain ip fd' where "fake_lookup file_store ''x.com'' plain_pool = Some (Ok (ip, fd'))"
    using file_pool.lookup_spec [OF _ plain_host] by blast
  then show ?thesis using fake_lookup_in_net [OF plain_pool_reach plain_pool_net plain_host] by blast
qed

text \<open>
  C23. No two host names share a fake address: in every reachable state different names that have an
  address in the store have different ones.
\<close>

theorem fake_distinct:
  assumes "pool_reach lib net fd" and "pool_net lib net" and "host_ok h" and "host_ok h'"
    and "fst (file_get_by_host h (store fd)) = Some ip" and "fst (file_get_by_host h' (store fd)) = Some ip"
  shows "h = h'"
proof -
  obtain n p where "net_trunc lib net = (V4 n, p)" "1 \<le> p" "p \<le> 30"
    using assms(2) by (rule pool_net_trunc)
  then have inv: "pool_inv file_h2i file_i2h file_ok fd" using pool_reach_inv [OF assms(1)] by blast
  have "file_h2i (store fd) h = Some ip" "file_h2i (store fd) h' = Some ip"
    using assms(3-6) file_pool.get_by_host_law [OF file_pool.inv_facts(2) [OF inv]] by (simp_all add: file_store_def)
  then show ?thesis using inv by (simp add: pool_inv_def)
qed

theorem fake_distinct_witness:
  "\<exists>fd ip. pool_reach pair_lib (V4 0xC0A80000, 29) (fd :: (ip_addr \<times> nat, unit cache_file) fake_dns) \<and>
    fst (file_get_by_host ''x.com'' (store fd)) = Some ip \<and>
    (\<forall>h. host_ok h \<and> fst (file_get_by_host h (store fd)) = Some ip \<longrightarrow> ''x.com'' = h)"
proof -
  have "pool_inv file_h2i file_i2h file_ok plain_pool"
    using pool_reach_inv [OF plain_pool_reach] by (simp add: pair_lib_def)
  then obtain ip fd where l: "fake_lookup file_store ''x.com'' plain_pool = Some (Ok (ip, fd))"
    "pool_inv file_h2i file_i2h file_ok fd" "file_h2i (store fd) ''x.com'' = Some ip"
    using file_pool.lookup_spec [OF _ plain_host] by blast
  have r: "pool_reach pair_lib (V4 0xC0A80000, 29) fd" using plain_pool_reach plain_host l(1) by (rule pool_lookup)
  have g: "fst (file_get_by_host ''x.com'' (store fd)) = Some ip"
    using file_pool.get_by_host_law [OF file_pool.inv_facts(2) [OF l(2)] plain_host] l(3) by (simp add: file_store_def)
  show ?thesis using fake_distinct [OF r plain_pool_net plain_host _ g] r g by blast
qed

text \<open>
  The pool hands out the gateway: once the offset has come to the last address of the pool, the
  next new name gets the address of offset zero, which is the gateway address of the pool.
\<close>

theorem fake_get_gateway:
  assumes "offset fd + 1 = pool_size fd" and "1 < pool_size fd" and "gateway fd = fd_min fd - 1"
    and "\<not> fst (file_exist (V4 (gateway fd)) (store fd))"
  shows "map_option (map_sum id fst) (fake_get file_store h fd) = Some (Ok (V4 (gateway fd)))"
proof -
  have "pool_size fd \<noteq> 0" "0 \<noteq> offset fd" using assms(1, 2) by auto
  then show ?thesis
    using assms by (simp add: fake_get_def get_loop.simps [of _ _ fd] get_step_def Let_def pool_size_def pool_ip_def
      file_store_def file_exist_def)
qed

theorem fake_get_gateway_witness:
  "map_option (map_sum id fst) (fake_get file_store ''x.com'' (plain_pool \<lparr> offset := 4 \<rparr>)) = Some (Ok (V4 0xC0A80001))"
  using fake_get_gateway [of "plain_pool \<lparr> offset := 4 \<rparr>" "''x.com''"]
  by (simp add: plain_pool_def pool_size_def file_exist_def get_fake_ip_def cache_file_new_def)

end
