(* ===== verification/Dns_Resolver.thy ===== *)
theory Dns_Resolver
  imports Dns_Client Fake_Dns
begin

text \<open>
  The resolver of \<^verbatim>\<open>app/dns/resolver/enhanced.rs\<close>, the filters of \<^verbatim>\<open>filters.rs\<close> and the
  handler of the DNS server, \<^verbatim>\<open>server/handler.rs\<close>.

  The resolver is a record; its locks guard the parts that an operation returns changed: the
  record cache, the fake address pool, the reverse lookup cache and the cache file. The pool over
  the file store shares that file, but uses other tables of it than the resolver does, so the two
  are kept apart. A client is a handle of type \<open>'k\<close>; the answer of each client to a message, with
  the time it takes, the caches of third-party crates, the clock and the random choice are
  arguments. Of two futures that run at the same time one is run first, which one is an argument.
\<close>

section \<open>Filters\<close>

type_synonym mmdb = "ip_addr \<Rightarrow> string option"

datatype 'n ip_filter = GeoIPFilter string "mmdb option" | IPNetFilter 'n

fun ip_filter_apply :: "('n, 'x) net_lib \<Rightarrow> 'n ip_filter \<Rightarrow> ip_addr \<Rightarrow> bool" where
  "ip_filter_apply lib (GeoIPFilter code db) ip =
    (\<not> (case db of None \<Rightarrow> False | Some lookup_country \<Rightarrow> lookup_country ip = Some code))"
| "ip_filter_apply lib (IPNetFilter net) ip = net_contains lib net ip"

type_synonym domain_filter = "string option node"

definition domain_filter_new :: "string list \<Rightarrow> domain_filter" where
  "domain_filter_new ds = fold (\<lambda>d t. fst (trie_insert d None t)) ds node_new"

definition domain_filter_apply :: "domain_filter \<Rightarrow> string \<Rightarrow> bool" where
  "domain_filter_apply f d \<longleftrightarrow> trie_search f d \<noteq> None"

section \<open>The resolver\<close>

record ('k, 'n, 'l, 'r, 's, 'st) resolver =
  er_ipv6 :: bool
  er_hosts :: "ip_addr node option"
  er_main :: "'k list"
  er_fallback :: "'k list option"
  er_domain_filters :: "domain_filter list option"
  er_ip_filters :: "'n ip_filter list option"
  er_lru :: "'l option"
  er_policy :: "'k list node option"
  er_fake :: "('n, 's) fake_dns option"
  er_reverse :: "'r option"
  er_store :: "'st cache_file option"
  er_geo_expiration :: "u64 option"
  er_geo_code :: "string option"
  er_mmdb :: "mmdb option"
  er_match_noproxy :: bool

text \<open>Names of the DNS crate: parse, make absolute, print in ASCII and in Unicode.\<close>

record 'm name_lib =
  nl_from_str :: "string \<Rightarrow> 'm option"
  nl_append_root :: "'m \<Rightarrow> 'm option"
  nl_ascii :: "'m \<Rightarrow> string"
  nl_utf8 :: "'m \<Rightarrow> string"

record ('k, 'm, 'n, 'x, 'l, 'r, 's) resolver_env =
  re_exchange :: "'k \<Rightarrow> 'm dns_message \<Rightarrow> (nat \<times> 'm dns_message result) option"
  re_names :: "'m name_lib"
  re_nets :: "('n, 'x) net_lib"
  re_lru_get :: "'l \<Rightarrow> 'm dns_query \<Rightarrow> 'm dns_record list result option"
  re_lru_insert :: "'m dns_query \<Rightarrow> 'm dns_record list \<Rightarrow> 'l \<Rightarrow> 'l"
  re_rev_insert :: "ip_addr \<Rightarrow> string \<Rightarrow> 'r \<Rightarrow> 'r"
  re_rev_peek :: "'r \<Rightarrow> ip_addr \<Rightarrow> string option"
  re_store_ops :: "'s store_ops"
  re_now_secs :: u64
  re_choose :: "ip_addr list \<Rightarrow> nat"
  re_v6_first :: bool

subsection \<open>Exchange with several clients\<close>

text \<open>
  \<^verbatim>\<open>select_ok\<close> gives the first answer that succeeds, the last error when all fail, and panics on
  no future at all; the timeout is ten seconds. Times are nanoseconds.
\<close>

fun first_ok :: "(nat \<times> 'a result) list \<Rightarrow> (nat \<times> 'a) option" where
  "first_ok [] = None"
| "first_ok ((t, r) # rs) =
    (case (r, first_ok rs) of
       (Inr x, Some (t', y)) \<Rightarrow> Some (if t' < t then (t', y) else (t, x))
     | (Inr x, None) \<Rightarrow> Some (t, x)
     | (Inl _, y) \<Rightarrow> y)"

fun last_err :: "(nat \<times> 'a result) list \<Rightarrow> (nat \<times> error) option" where
  "last_err [] = None"
| "last_err ((t, r) # rs) =
    (case (r, last_err rs) of
       (Inl e, Some (t', e')) \<Rightarrow> Some (if t' < t then (t, e) else (t', e'))
     | (Inl e, None) \<Rightarrow> Some (t, e)
     | (Inr _, y) \<Rightarrow> y)"

definition dns_timeout :: nat where "dns_timeout = 10 * 10 ^ 9"

definition batch_exchange ::
  "('k, 'm, 'n, 'x, 'l, 'r, 's) resolver_env \<Rightarrow> 'k list \<Rightarrow> 'm dns_message \<Rightarrow> 'm dns_message result" where
  "batch_exchange env clients message =
    (let outs = map (\<lambda>c. re_exchange env c message) clients;
         in_time = concat (map (\<lambda>x. case x of Some (t, r) \<Rightarrow> if t < dns_timeout then [(t, r)] else [] | None \<Rightarrow> []) outs)
     in if clients = [] then Err Panic
        else case first_ok in_time of
               Some (_, r) \<Rightarrow> Ok r
             | None \<Rightarrow>
                 if length in_time = length clients
                 then (case last_err in_time of Some (_, e) \<Rightarrow> Err e | None \<Rightarrow> Err Panic)
                 else Err (Other ''DNS query timeout''))"

subsection \<open>Helpers\<close>

definition is_ip_request :: "'m dns_query \<Rightarrow> bool" where
  "is_ip_request q \<longleftrightarrow> q_class q = class_IN \<and> (q_type q = RtA \<or> q_type q = RtAAAA)"

definition domain_name_of_message :: "'m name_lib \<Rightarrow> 'm dns_message \<Rightarrow> string option" where
  "domain_name_of_message nl m =
    map_option (\<lambda>q. trim_end_matches CHR ''.'' (nl_ascii nl (q_name q))) (dm_query m)"

text \<open>An answer that claims to be an address but holds other data is a panic.\<close>

fun ip_list_of_records :: "'m dns_record list \<Rightarrow> ip_addr list result" where
  "ip_list_of_records [] = Ok []"
| "ip_list_of_records (r # rs) =
    (if rdata_type (rec_data r) = RtA \<or> rdata_type (rec_data r) = RtAAAA
     then bind_result
            (case rec_data r of
               RDataA v4 \<Rightarrow> Ok (V4 v4)
             | RDataAAAA v6 \<Rightarrow> Ok (V6 v6)
             | RDataOther _ _ \<Rightarrow> Err Panic)
            (\<lambda>ip. bind_result (ip_list_of_records rs) (\<lambda>ips. Ok (ip # ips)))
     else ip_list_of_records rs)"

definition ip_list_of_message :: "'m dns_message \<Rightarrow> ip_addr list result" where
  "ip_list_of_message m = ip_list_of_records (dm_answers m)"

definition save_reverse_lookup ::
  "('k, 'm, 'n, 'x, 'l, 'r, 's) resolver_env \<Rightarrow> ip_addr \<Rightarrow> string \<Rightarrow> ('k, 'n, 'l, 'r, 's, 'st) resolver \<Rightarrow>
   ('k, 'n, 'l, 'r, 's, 'st) resolver" where
  "save_reverse_lookup env ip d er =
    (case er_reverse er of
       Some c \<Rightarrow> er\<lparr>er_reverse := Some (re_rev_insert env ip d c)\<rparr>
     | None \<Rightarrow> er)"

definition match_policy ::
  "'m name_lib \<Rightarrow> ('k, 'n, 'l, 'r, 's, 'st) resolver \<Rightarrow> 'm dns_message \<Rightarrow> 'k list result option" where
  "match_policy nl er m =
    (case (er_fallback er, er_domain_filters er, er_policy er, domain_name_of_message nl m) of
       (Some _, Some _, Some policy, Some d) \<Rightarrow>
         map_option (\<lambda>n. case get_data n of Some cs \<Rightarrow> Ok cs | None \<Rightarrow> Err Panic) (trie_search policy d)
     | _ \<Rightarrow> None)"

definition should_only_query_fallback ::
  "'m name_lib \<Rightarrow> ('k, 'n, 'l, 'r, 's, 'st) resolver \<Rightarrow> 'm dns_message \<Rightarrow> bool" where
  "should_only_query_fallback nl er m =
    (case (er_fallback er, er_domain_filters er, domain_name_of_message nl m) of
       (Some _, Some fs, Some d) \<Rightarrow> list_ex (\<lambda>f. domain_filter_apply f d) fs
     | _ \<Rightarrow> False)"

definition should_ip_fallback ::
  "('n, 'x) net_lib \<Rightarrow> ('k, 'n, 'l, 'r, 's, 'st) resolver \<Rightarrow> ip_addr \<Rightarrow> bool" where
  "should_ip_fallback lib er ip =
    (case er_ip_filters er of Some fs \<Rightarrow> list_ex (\<lambda>f. ip_filter_apply lib f ip) fs | None \<Rightarrow> False)"

definition update_geoip_cache ::
  "u64 \<Rightarrow> string \<Rightarrow> ip_addr \<Rightarrow> ('k, 'n, 'l, 'r, 's, 'st) resolver \<Rightarrow> ('k, 'n, 'l, 'r, 's, 'st) resolver" where
  "update_geoip_cache now d ip er =
    (case (er_store er, er_mmdb er) of
       (Some st, Some db) \<Rightarrow>
         (case db ip of
            Some code \<Rightarrow>
              er\<lparr>er_store := Some (set_domain_geoip d
                 \<lparr>ge_code = code,
                  ge_expires_at = now + (case er_geo_expiration er of Some x \<Rightarrow> x | None \<Rightarrow> 24 * 3600)\<rparr> st)\<rparr>
          | None \<Rightarrow> er)
     | _ \<Rightarrow> er)"

subsection \<open>Address queries\<close>

definition ip_rdata :: "ip_addr \<Rightarrow> rdata" where
  "ip_rdata ip = (case ip of V4 a \<Rightarrow> RDataA a | V6 a \<Rightarrow> RDataAAAA a)"

text \<open>The reply with a fake address; \<open>None\<close> from the pool is a search that does not end.\<close>

definition fake_reply ::
  "('k, 'm, 'n, 'x, 'l, 'r, 's) resolver_env \<Rightarrow> 'm dns_message \<Rightarrow> string \<Rightarrow> ('n, 's) fake_dns \<Rightarrow>
   ('k, 'n, 'l, 'r, 's, 'st) resolver \<Rightarrow> 'm dns_message result \<times> ('k, 'n, 'l, 'r, 's, 'st) resolver" where
  "fake_reply env message d fd er =
    (case fake_lookup (re_store_ops env) d fd of
       None \<Rightarrow> (Err Diverges, er)
     | Some (Inl e) \<Rightarrow> (Err e, er)
     | Some (Inr (ip, fd')) \<Rightarrow>
         (let er' = er\<lparr>er_fake := Some fd'\<rparr>;
              reply = build_dns_response_message message True False
          in case Option.bind (nl_from_str (re_names env) d) (nl_append_root (re_names env)) of
               None \<Rightarrow> (Err Panic, er')
             | Some n \<Rightarrow>
                 (Ok (reply\<lparr>dm_answers := dm_answers reply @
                    [\<lparr>rec_name = n, rec_ttl = 10, rec_data = ip_rdata ip\<rparr>]\<rparr>), er')))"

text \<open>
  The geo cache says of a name: nothing (\<open>None\<close>), ask the fallback (\<open>Some True\<close>), or trust the
  main servers (\<open>Some False\<close>).
\<close>

definition geo_verdict ::
  "u64 \<Rightarrow> 'm name_lib \<Rightarrow> ('k, 'n, 'l, 'r, 's, 'st) resolver \<Rightarrow> 'm dns_message \<Rightarrow> (string \<times> bool) option" where
  "geo_verdict now nl er m =
    (case (er_store er, er_geo_code er, domain_name_of_message nl m) of
       (Some st, Some code, Some d) \<Rightarrow>
         (case get_domain_geoip d st of
            Some e \<Rightarrow> if ge_expires_at e > now then Some (d, ge_code e \<noteq> code) else None
          | None \<Rightarrow> None)
     | _ \<Rightarrow> None)"

definition main_then_fallback ::
  "('k, 'm, 'n, 'x, 'l, 'r, 's) resolver_env \<Rightarrow> bool \<Rightarrow> 'k list \<Rightarrow> 'm dns_message \<Rightarrow>
   ('k, 'n, 'l, 'r, 's, 'st) resolver \<Rightarrow> 'm dns_message result \<times> ('k, 'n, 'l, 'r, 's, 'st) resolver" where
  "main_then_fallback env skip_ip_check fallback message er =
    (let fallback_query = (\<lambda>er. (batch_exchange env fallback message, er)) in
     case batch_exchange env (er_main er) message of
       Inl Panic \<Rightarrow> (Err Panic, er)
     | Inl _ \<Rightarrow> fallback_query er
     | Inr main_result \<Rightarrow>
         (case ip_list_of_message main_result of
            Inl e \<Rightarrow> (Err e, er)
          | Inr [] \<Rightarrow> fallback_query er
          | Inr (ip # _) \<Rightarrow>
              let er = (case (skip_ip_check, domain_name_of_message (re_names env) message) of
                          (False, Some d) \<Rightarrow> update_geoip_cache (re_now_secs env) d ip er
                        | _ \<Rightarrow> er)
              in if skip_ip_check \<or> \<not> should_ip_fallback (re_nets env) er ip then (Ok main_result, er)
                 else if er_match_noproxy er then
                   (case er_fake er of
                      Some fd \<Rightarrow>
                        fake_reply env message
                          (case domain_name_of_message (re_names env) message of Some d \<Rightarrow> d | None \<Rightarrow> []) fd er
                    | None \<Rightarrow> fallback_query er)
                 else fallback_query er))"

definition ip_exchange ::
  "('k, 'm, 'n, 'x, 'l, 'r, 's) resolver_env \<Rightarrow> 'm dns_message \<Rightarrow> ('k, 'n, 'l, 'r, 's, 'st) resolver \<Rightarrow>
   'm dns_message result \<times> ('k, 'n, 'l, 'r, 's, 'st) resolver" where
  "ip_exchange env message er =
    (case match_policy (re_names env) er message of
       Some matched \<Rightarrow> (bind_result matched (\<lambda>cs. batch_exchange env cs message), er)
     | None \<Rightarrow>
         if should_only_query_fallback (re_names env) er message then
           (case er_fallback er of
              Some fb \<Rightarrow> (batch_exchange env fb message, er)
            | None \<Rightarrow> (Err Panic, er))
         else
           (let main = (\<lambda>skip_ip_check.
              case er_fallback er of
                None \<Rightarrow> (batch_exchange env (er_main er) message, er)
              | Some fb \<Rightarrow> main_then_fallback env skip_ip_check fb message er)
            in case geo_verdict (re_now_secs env) (re_names env) er message of
                 Some (d, True) \<Rightarrow>
                   (case (er_match_noproxy er, er_fake er) of
                      (True, Some fd) \<Rightarrow> fake_reply env message d fd er
                    | _ \<Rightarrow> (case er_fallback er of
                              Some fb \<Rightarrow> (batch_exchange env fb message, er)
                            | None \<Rightarrow> (Err Panic, er)))
               | Some (_, False) \<Rightarrow> main True
               | None \<Rightarrow> main False))"

subsection \<open>Messages in general\<close>

definition is_acme :: "'m name_lib \<Rightarrow> 'm dns_query \<Rightarrow> bool" where
  "is_acme nl q \<longleftrightarrow> q_type q = RtTXT \<and> prefix ''_acme-challenge.'' (nl_ascii nl (q_name q))"

definition exchange_no_cache ::
  "('k, 'm, 'n, 'x, 'l, 'r, 's) resolver_env \<Rightarrow> 'm dns_query \<Rightarrow> 'm dns_message \<Rightarrow> ('k, 'n, 'l, 'r, 's, 'st) resolver \<Rightarrow>
   'm dns_message result \<times> ('k, 'n, 'l, 'r, 's, 'st) resolver" where
  "exchange_no_cache env q message er =
    (let (rv, er) =
       (if is_ip_request q then ip_exchange env message er
        else case match_policy (re_names env) er message of
               Some matched \<Rightarrow> (bind_result matched (\<lambda>cs. batch_exchange env cs message), er)
             | None \<Rightarrow> (batch_exchange env (er_main er) message, er))
     in case (rv, er_lru er) of
          (Inr msg, Some lru) \<Rightarrow>
            if \<not> is_acme (re_names env) q
            then (rv, er\<lparr>er_lru := Some (re_lru_insert env q (dm_answers msg) lru)\<rparr>)
            else (rv, er)
        | _ \<Rightarrow> (rv, er))"

definition cached_reply ::
  "('k, 'm, 'n, 'x, 'l, 'r, 's) resolver_env \<Rightarrow> 'm dns_query \<Rightarrow> 'm dns_message \<Rightarrow> ('k, 'n, 'l, 'r, 's, 'st) resolver \<Rightarrow> 'm dns_message option" where
  "cached_reply env q message er =
    (case er_lru er of
       None \<Rightarrow> None
     | Some lru \<Rightarrow>
         (case re_lru_get env lru q of
            Some (Inr records) \<Rightarrow>
              if dm_recursion_desired message then None
              else let reply = build_dns_response_message message True False
                   in Some (reply\<lparr>dm_answers := dm_answers reply @ records\<rparr>)
          | _ \<Rightarrow> None))"

definition strip_padding :: "'m dns_message \<Rightarrow> 'm dns_message" where
  "strip_padding m = m\<lparr>dm_edns := map_option (opt_remove CodePadding) (dm_edns m)\<rparr>"

definition exchange_message ::
  "('k, 'm, 'n, 'x, 'l, 'r, 's) resolver_env \<Rightarrow> 'm dns_message \<Rightarrow> ('k, 'n, 'l, 'r, 's, 'st) resolver \<Rightarrow>
   'm dns_message result \<times> ('k, 'n, 'l, 'r, 's, 'st) resolver" where
  "exchange_message env message er =
    (case dm_query message of
       None \<Rightarrow> (Err (Other ''invalid query''), er)
     | Some q \<Rightarrow>
         (case cached_reply env q message er of
            Some reply \<Rightarrow> (Ok reply, er)
          | None \<Rightarrow> apfst (map_sum id strip_padding) (exchange_no_cache env q message er)))"

fun save_all ::
  "('k, 'm, 'n, 'x, 'l, 'r, 's) resolver_env \<Rightarrow> ip_addr list \<Rightarrow> string \<Rightarrow> ('k, 'n, 'l, 'r, 's, 'st) resolver \<Rightarrow> ('k, 'n, 'l, 'r, 's, 'st) resolver" where
  "save_all env [] d er = er"
| "save_all env (ip # ips) d er = save_all env ips d (save_reverse_lookup env ip d er)"

text \<open>The method of the trait: exchange, then remember the host name of every address.\<close>

definition resolver_exchange ::
  "('k, 'm, 'n, 'x, 'l, 'r, 's) resolver_env \<Rightarrow> 'm dns_message \<Rightarrow> ('k, 'n, 'l, 'r, 's, 'st) resolver \<Rightarrow>
   'm dns_message result \<times> ('k, 'n, 'l, 'r, 's, 'st) resolver" where
  "resolver_exchange env message er =
    (case exchange_message env message er of
       (Inl e, er) \<Rightarrow> (Err e, er)
     | (Inr rv, er) \<Rightarrow>
         (case dm_query message of
            None \<Rightarrow> (Err Panic, er)
          | Some q \<Rightarrow>
              (case ip_list_of_message rv of
                 Inl e \<Rightarrow> (Err e, er)
               | Inr ips \<Rightarrow>
                   (Ok rv, save_all env ips (trim_end_matches CHR ''.'' (nl_utf8 (re_names env) (q_name q))) er))))"

subsection \<open>Resolving names\<close>

definition lookup_ip ::
  "('k, 'm, 'n, 'x, 'l, 'r, 's) resolver_env \<Rightarrow> string \<Rightarrow> record_type \<Rightarrow> ('k, 'n, 'l, 'r, 's, 'st) resolver \<Rightarrow>
   ip_addr list result \<times> ('k, 'n, 'l, 'r, 's, 'st) resolver" where
  "lookup_ip env host rt er =
    (case nl_from_str (re_names env) host of
       None \<Rightarrow> (Err (Other (''invalid domain: '' @ host)), er)
     | Some n0 \<Rightarrow>
         (case nl_append_root (re_names env) n0 of
            None \<Rightarrow> (Err (Other ''name too long''), er)
          | Some n \<Rightarrow>
              let m = message_new\<lparr>dm_queries := [\<lparr>q_name = n, q_type = rt, q_class = class_IN\<rparr>],
                        dm_recursion_desired := True\<rparr>
              in case exchange_message env m er of
                   (Inl e, er) \<Rightarrow> (Err e, er)
                 | (Inr result, er) \<Rightarrow>
                     (case ip_list_of_message result of
                        Inl e \<Rightarrow> (Err e, er)
                      | Inr [] \<Rightarrow> (Err (Other (''no record for hostname: '' @ host)), er)
                      | Inr ips \<Rightarrow> (Ok ips, er))))"

definition fake_ip_enabled :: "('k, 'n, 'l, 'r, 's, 'st) resolver \<Rightarrow> bool" where
  "fake_ip_enabled er \<longleftrightarrow> er_fake er \<noteq> None"

definition hosts_search :: "('k, 'n, 'l, 'r, 's, 'st) resolver \<Rightarrow> string \<Rightarrow> ip_addr node option" where
  "hosts_search er host = Option.bind (er_hosts er) (\<lambda>t. trie_search t host)"

definition choose_from :: "('k, 'm, 'n, 'x, 'l, 'r, 's) resolver_env \<Rightarrow> ip_addr list \<Rightarrow> ip_addr" where
  "choose_from env ips = ips ! (re_choose env ips mod length ips)"

definition as_v4 :: "ip_addr \<Rightarrow> u32 option result" where
  "as_v4 ip = (case ip of V4 a \<Rightarrow> Ok (Some a) | V6 _ \<Rightarrow> Err Panic)"

definition as_v6 :: "ip_addr \<Rightarrow> u128 option result" where
  "as_v6 ip = (case ip of V6 a \<Rightarrow> Ok (Some a) | V4 _ \<Rightarrow> Err Panic)"

definition resolve_v4_lookup ::
  "('k, 'm, 'n, 'x, 'l, 'r, 's) resolver_env \<Rightarrow> string \<Rightarrow> ('k, 'n, 'l, 'r, 's, 'st) resolver \<Rightarrow> u32 option result \<times> ('k, 'n, 'l, 'r, 's, 'st) resolver" where
  "resolve_v4_lookup env host er =
    apfst (\<lambda>r. bind_result r (\<lambda>ips. as_v4 (choose_from env ips))) (lookup_ip env host RtA er)"

definition resolve_v4 ::
  "('k, 'm, 'n, 'x, 'l, 'r, 's) resolver_env \<Rightarrow> string \<Rightarrow> bool \<Rightarrow> ('k, 'n, 'l, 'r, 's, 'st) resolver \<Rightarrow>
   u32 option result \<times> ('k, 'n, 'l, 'r, 's, 'st) resolver" where
  "resolve_v4 env host enhanced er =
    (case (if enhanced then hosts_search er host else None) of
       Some v \<Rightarrow> (case get_data v of None \<Rightarrow> Ok None | Some ip \<Rightarrow> as_v4 ip, er)
     | None \<Rightarrow>
         (case parse_ipv4 host of
            Some ip \<Rightarrow> (Ok (Some ip), er)
          | None \<Rightarrow>
              (case (if enhanced then er_fake er else None) of
                 Some fd \<Rightarrow>
                   if \<not> should_skip host fd then
                     (case fake_lookup (re_store_ops env) host fd of
                        None \<Rightarrow> (Err Diverges, er)
                      | Some (Inl e) \<Rightarrow> (Err e, er)
                      | Some (Inr (ip, fd')) \<Rightarrow> (as_v4 ip, er\<lparr>er_fake := Some fd'\<rparr>))
                   else resolve_v4_lookup env host er
               | None \<Rightarrow> resolve_v4_lookup env host er)))"

definition resolve_v6 ::
  "('k, 'm, 'n, 'x, 'l, 'r, 's) resolver_env \<Rightarrow> string \<Rightarrow> bool \<Rightarrow> ('k, 'n, 'l, 'r, 's, 'st) resolver \<Rightarrow>
   u128 option result \<times> ('k, 'n, 'l, 'r, 's, 'st) resolver" where
  "resolve_v6 env host enhanced er =
    (if \<not> er_ipv6 er then (Err (Other ''ipv6 disabled''), er)
     else case (if enhanced then hosts_search er host else None) of
       Some v \<Rightarrow> (case get_data v of None \<Rightarrow> Ok None | Some ip \<Rightarrow> as_v6 ip, er)
     | None \<Rightarrow>
         (case parse_ipv6 host of
            Some ip \<Rightarrow> (Ok (Some ip), er)
          | None \<Rightarrow>
              apfst (\<lambda>r. bind_result r (\<lambda>ips. as_v6 (choose_from env ips))) (lookup_ip env host RtAAAA er)))"

text \<open>Both families: the first that succeeds, and the other one when that has no address.\<close>

definition resolve_both ::
  "(('k, 'n, 'l, 'r, 's, 'st) resolver \<Rightarrow> ip_addr option result \<times> ('k, 'n, 'l, 'r, 's, 'st) resolver) \<Rightarrow>
   (('k, 'n, 'l, 'r, 's, 'st) resolver \<Rightarrow> ip_addr option result \<times> ('k, 'n, 'l, 'r, 's, 'st) resolver) \<Rightarrow>
   ('k, 'n, 'l, 'r, 's, 'st) resolver \<Rightarrow> ip_addr option result \<times> ('k, 'n, 'l, 'r, 's, 'st) resolver" where
  "resolve_both f g er =
    (case f er of
       (Inl Panic, er) \<Rightarrow> (Err Panic, er)
     | (Inl _, er) \<Rightarrow> g er
     | (Inr (Some ip), er) \<Rightarrow> (Ok (Some ip), er)
     | (Inr None, er) \<Rightarrow> g er)"

definition resolve ::
  "('k, 'm, 'n, 'x, 'l, 'r, 's) resolver_env \<Rightarrow> string \<Rightarrow> bool \<Rightarrow> ('k, 'n, 'l, 'r, 's, 'st) resolver \<Rightarrow>
   ip_addr option result \<times> ('k, 'n, 'l, 'r, 's, 'st) resolver" where
  "resolve env host enhanced er =
    (let v6 = (\<lambda>er. apfst (map_sum id (map_option V6)) (resolve_v6 env host enhanced er));
         v4 = (\<lambda>er. apfst (map_sum id (map_option V4)) (resolve_v4 env host enhanced er))
     in if er_ipv6 er then (if re_v6_first env then resolve_both v6 v4 er else resolve_both v4 v6 er)
        else v4 er)"

definition cached_for :: "('k, 'm, 'n, 'x, 'l, 'r, 's) resolver_env \<Rightarrow> ip_addr \<Rightarrow> ('k, 'n, 'l, 'r, 's, 'st) resolver \<Rightarrow> string option" where
  "cached_for env ip er = Option.bind (er_reverse er) (\<lambda>c. re_rev_peek env c ip)"

definition set_ipv6 :: "bool \<Rightarrow> ('k, 'n, 'l, 'r, 's, 'st) resolver \<Rightarrow> ('k, 'n, 'l, 'r, 's, 'st) resolver" where
  "set_ipv6 enable er = er\<lparr>er_ipv6 := enable\<rparr>"

definition resolver_is_fake_ip :: "('k, 'm, 'n, 'x, 'l, 'r, 's) resolver_env \<Rightarrow> ip_addr \<Rightarrow> ('k, 'n, 'l, 'r, 's, 'st) resolver \<Rightarrow> bool" where
  "resolver_is_fake_ip env ip er =
    (case er_fake er of None \<Rightarrow> False | Some fd \<Rightarrow> is_fake_ip (re_nets env) ip fd)"

definition resolver_reverse_lookup ::
  "('k, 'm, 'n, 'x, 'l, 'r, 's) resolver_env \<Rightarrow> ip_addr \<Rightarrow> ('k, 'n, 'l, 'r, 's, 'st) resolver \<Rightarrow> string option \<times> ('k, 'n, 'l, 'r, 's, 'st) resolver" where
  "resolver_reverse_lookup env ip er =
    (case er_fake er of
       None \<Rightarrow> (None, er)
     | Some fd \<Rightarrow> (case reverse_lookup (re_store_ops env) ip fd of (h, fd') \<Rightarrow> (h, er\<lparr>er_fake := Some fd'\<rparr>)))"

section \<open>The DNS server\<close>

definition DEFAULT_DNS_SERVER_TTL :: u32 where "DEFAULT_DNS_SERVER_TTL = 60"

definition exchange_with_resolver ::
  "('k, 'm, 'n, 'x, 'l, 'r, 's) resolver_env \<Rightarrow> 'm dns_message \<Rightarrow> bool \<Rightarrow> ('k, 'n, 'l, 'r, 's, 'st) resolver \<Rightarrow>
   'm dns_message result \<times> ('k, 'n, 'l, 'r, 's, 'st) resolver" where
  "exchange_with_resolver env req enhanced er =
    (if map_option q_type (dm_query req) = Some RtAAAA \<or> \<not> fake_ip_enabled er
     then resolver_exchange env req er
     else case dm_query req of
       None \<Rightarrow> (Err (Other ''malformed query message''), er)
     | Some q \<Rightarrow>
         (let host = trim_end_matches CHR ''.'' (nl_ascii (re_names env) (q_name q));
              res = build_dns_response_message req False False
          in case resolve_v4 env host enhanced er of
               (Inl e, er) \<Rightarrow> (Err e, er)
             | (Inr None, er) \<Rightarrow> (Ok (res\<lparr>dm_response_code := 3\<rparr>), er)
             | (Inr (Some ip), er) \<Rightarrow>
                 (Ok (res\<lparr>dm_response_code := 0, dm_answer_count := 1,
                    dm_answers := dm_answers res @
                      [\<lparr>rec_name = q_name q, rec_ttl = DEFAULT_DNS_SERVER_TTL, rec_data = RDataA ip\<rparr>]\<rparr>), er)))"

section \<open>Construction\<close>

text \<open>
  What the constructor is given beside the configuration: the outbound handlers and the direct one,
  the default interface, empty caches, the cache file, the store of the fake address pool (over the
  cache file or in memory) and the country database.
\<close>

record ('h, 'l, 'r, 's, 'st) resolver_parts =
  rp_outbounds :: "string \<rightharpoonup> 'h"
  rp_direct :: 'h
  rp_default_if :: "outbound_interface option"
  rp_lru :: 'l
  rp_reverse :: 'r
  rp_cache_file :: "'st cache_file"
  rp_fake_store :: "bool \<Rightarrow> 's"
  rp_mmdb :: "mmdb option"

definition resolver_bare :: "'k list \<Rightarrow> ('k, 'n, 'l, 'r, 's, 'st) resolver" where
  "resolver_bare cs =
    \<lparr>er_ipv6 = False, er_hosts = None, er_main = cs, er_fallback = None, er_domain_filters = None,
     er_ip_filters = None, er_lru = None, er_policy = None, er_fake = None, er_reverse = None,
     er_store = None, er_geo_expiration = None, er_geo_code = None, er_mmdb = None,
     er_match_noproxy = False\<rparr>"

definition build_domain_filters :: "string list \<Rightarrow> domain_filter list option" where
  "build_domain_filters ds = (if ds \<noteq> [] then Some [domain_filter_new ds] else None)"

definition build_ip_filters :: "'n fallback_filter \<Rightarrow> mmdb option \<Rightarrow> 'n ip_filter list option" where
  "build_ip_filters ff db =
    (if ff_ip_cidr ff \<noteq> None \<or> ff_geo_ip ff
     then Some (GeoIPFilter (ff_geo_ip_code ff) db #
       (case ff_ip_cidr ff of Some nets \<Rightarrow> map IPNetFilter nets | None \<Rightarrow> []))
     else None)"

fun build_policy ::
  "(name_server list \<Rightarrow> 'k list result) \<Rightarrow> (string \<times> name_server) list \<Rightarrow> 'k list node \<Rightarrow> 'k list node result" where
  "build_policy mk [] t = Ok t"
| "build_policy mk ((d, ns) # ps) t =
    bind_result (mk [ns]) (\<lambda>cs. build_policy mk ps (fst (trie_insert d cs t)))"

definition build_fake_dns ::
  "('n, 'x) net_lib \<Rightarrow> dns_mode \<Rightarrow> 'n \<Rightarrow> string list \<Rightarrow> 's \<Rightarrow> ('n, 's) fake_dns option result" where
  "build_fake_dns lib mode net skipped st =
    (case mode of
       ModeFakeIp \<Rightarrow>
         (case fake_dns_new lib net
            (if skipped \<noteq> [] then Some (fold (\<lambda>d t. fst (trie_insert d True t)) skipped node_new) else None) st of
            Inr fd \<Rightarrow> Ok (Some fd)
          | Inl _ \<Rightarrow> Err Panic)
     | _ \<Rightarrow> Ok None)"

definition resolver_new ::
  "(('h, 'n) dns_client, 'm, 'n, 'x, 'l, 'r, 's) resolver_env \<Rightarrow> ('h, 'l, 'r, 's, 'st) resolver_parts \<Rightarrow>
   ('n, 'dh, 'dt, 'dq) dns_cfg \<Rightarrow> (('h, 'n) dns_client, 'n, 'l, 'r, 's, 'st) resolver result" where
  "resolver_new env parts cfg =
    (let mk = (\<lambda>r. make_clients (rp_outbounds parts) (rp_direct parts) (rp_default_if parts) r
                     (dc_edns_client_subnet cfg) (dc_fw_mark cfg));
         ff = dc_fallback_filter cfg
     in bind_result (mk None (dc_default_nameserver cfg)) (\<lambda>dcs.
        let default = (resolver_bare dcs :: (('h, 'n) dns_client, 'n, 'l, 'r, 's, 'st) resolver);
            via = Some (\<lambda>host. fst (resolve env host False default))
        in bind_result (mk via (dc_nameserver cfg)) (\<lambda>main.
           bind_result (if dc_fallback cfg \<noteq> []
                        then bind_result (mk via (dc_fallback cfg)) (\<lambda>cs. Ok (Some cs)) else Ok None) (\<lambda>fallback.
           bind_result (if dc_nameserver_policy cfg \<noteq> []
                        then bind_result (build_policy (mk via) (dc_nameserver_policy cfg) node_new)
                               (\<lambda>t. Ok (Some t)) else Ok None) (\<lambda>policy.
           bind_result (build_fake_dns (re_nets env) (dc_enhance_mode cfg) (dc_fake_ip_range cfg)
                          (dc_fake_ip_filter cfg) (rp_fake_store parts (dc_store_fake_ip cfg))) (\<lambda>fake.
             Ok \<lparr>er_ipv6 = dc_ipv6 cfg, er_hosts = dc_hosts cfg, er_main = main,
                 er_fallback = fallback, er_domain_filters = build_domain_filters (ff_domain ff),
                 er_ip_filters = build_ip_filters ff (rp_mmdb parts), er_lru = Some (rp_lru parts),
                 er_policy = policy, er_fake = fake, er_reverse = Some (rp_reverse parts),
                 er_store = Some (rp_cache_file parts),
                 er_geo_expiration = ff_geo_ip_cache_expiration ff,
                 er_geo_code = (if ff_geo_ip ff then Some (ff_geo_ip_code ff) else None),
                 er_mmdb = (if ff_geo_ip ff then rp_mmdb parts else None),
                 er_match_noproxy = ff_match_noproxy ff\<rparr>))))))"

section \<open>Facts\<close>

lemma update_geoip_frame [simp]:
  "er_main (update_geoip_cache now d ip er) = er_main er"
  "er_fallback (update_geoip_cache now d ip er) = er_fallback er"
  "er_ip_filters (update_geoip_cache now d ip er) = er_ip_filters er"
  "er_fake (update_geoip_cache now d ip er) = er_fake er"
  "er_match_noproxy (update_geoip_cache now d ip er) = er_match_noproxy er"
  by (simp_all add: update_geoip_cache_def split: option.split)

lemma should_ip_fallback_frame [simp]:
  "should_ip_fallback lib (update_geoip_cache now d ip er) x = should_ip_fallback lib er x"
  by (simp add: should_ip_fallback_def)

text \<open>A reply that carries an address of the pool.\<close>

definition is_fake_answer ::
  "('k, 'm, 'n, 'x, 'l, 'r, 's) resolver_env \<Rightarrow> ('k, 'n, 'l, 'r, 's, 'st) resolver \<Rightarrow> 'm dns_message \<Rightarrow> bool" where
  "is_fake_answer env er r \<longleftrightarrow>
    (\<exists>fd d ip fd' n. er_fake er = Some fd \<and> er_match_noproxy er \<and>
      fake_lookup (re_store_ops env) d fd = Some (Ok (ip, fd')) \<and>
      dm_answers r = [\<lparr>rec_name = n, rec_ttl = 10, rec_data = ip_rdata ip\<rparr>])"

lemma fake_reply_answer:
  assumes "fake_reply env message d fd er' = (Ok r, er'')" "er_fake er = Some fd" "er_match_noproxy er"
  shows "is_fake_answer env er r"
proof -
  obtain ip fd' n where "fake_lookup (re_store_ops env) d fd = Some (Ok (ip, fd'))"
    "dm_answers r = [\<lparr>rec_name = n, rec_ttl = 10, rec_data = ip_rdata ip\<rparr>]"
    using assms(1)
    by (auto simp: fake_reply_def Let_def build_dns_response_message_def message_new_def
        split: option.splits sum.splits prod.splits)
  then show ?thesis using assms(2,3) unfolding is_fake_answer_def by blast
qed

lemma main_then_fallback_source:
  assumes "main_then_fallback env skip fb message er = (Ok r, er')"
  shows "batch_exchange env fb message = Ok r \<or>
    (batch_exchange env (er_main er) message = Ok r \<and>
      (\<exists>ip ips. ip_list_of_message r = Ok (ip # ips) \<and>
        (skip \<or> \<not> should_ip_fallback (re_nets env) er ip))) \<or>
    is_fake_answer env er r"
  using assms
  by (auto simp: main_then_fallback_def Let_def fake_reply_answer
      split: sum.splits error.splits list.splits option.splits bool.splits if_splits)

lemma parse_ipv4_none: "parse_ip h = None \<Longrightarrow> parse_ipv4 h = None"
  by (auto simp: parse_ip_def parse_ipv4_def parse_with_def read_ip_addr_def
      split: option.splits prod.splits list.splits)

section \<open>Properties\<close>

text \<open>
  C12. No poisoned answer. With fallback servers configured and no policy for the name, a successful
  address query gives an answer of the fallback servers; or one of the main servers with an
  address, for a name outside the domain filters, whose first address no address filter
  rejects, unless the geo cache holds an entry in force with the configured country for the name;
  or, only when so configured, a fake address.
\<close>

theorem ip_exchange_source:
  assumes "ip_exchange env message er = (Ok r, er')" "er_fallback er = Some fb"
    "match_policy (re_names env) er message = None"
  shows "batch_exchange env fb message = Ok r \<or>
    (\<not> should_only_query_fallback (re_names env) er message \<and>
      batch_exchange env (er_main er) message = Ok r \<and>
      (\<exists>ip ips. ip_list_of_message r = Ok (ip # ips) \<and>
        (\<not> should_ip_fallback (re_nets env) er ip \<or>
         (\<exists>d. geo_verdict (re_now_secs env) (re_names env) er message = Some (d, False))))) \<or>
    is_fake_answer env er r"
proof (cases "should_only_query_fallback (re_names env) er message")
  case True
  then show ?thesis using assms by (simp add: ip_exchange_def)
next
  case False
  show ?thesis
  proof (cases "geo_verdict (re_now_secs env) (re_names env) er message")
    case None
    then have "main_then_fallback env False fb message er = (Ok r, er')"
      using assms False by (simp add: ip_exchange_def Let_def)
    from main_then_fallback_source [OF this] False show ?thesis by blast
  next
    case (Some v)
    obtain d b where v: "v = (d, b)" by (cases v)
    show ?thesis
    proof (cases b)
      case True
      then show ?thesis
        using assms False Some v fake_reply_answer [of env message d _ er r er' er]
        by (auto simp: ip_exchange_def Let_def split: bool.splits option.splits)
    next
      case b: False
      then have "main_then_fallback env True fb message er = (Ok r, er')"
        using assms False Some v by (simp add: ip_exchange_def Let_def)
      moreover have "\<exists>d. geo_verdict (re_now_secs env) (re_names env) er message = Some (d, False)"
        using Some v b by simp
      ultimately show ?thesis using main_then_fallback_source False by blast
    qed
  qed
qed

text \<open>
  Surroundings of the witnesses: a name is its text, the client \<open>True\<close> answers every message at
  once with \<^verbatim>\<open>1.2.3.4\<close> and the client \<open>False\<close> with \<^verbatim>\<open>9.9.9.9\<close>.
\<close>

definition plain_names :: "string name_lib" where
  "plain_names = \<lparr>nl_from_str = Some, nl_append_root = (\<lambda>n. Some (n @ ''.'')), nl_ascii = (\<lambda>n. n),
     nl_utf8 = (\<lambda>n. n)\<rparr>"

definition plain_reply :: "string dns_message \<Rightarrow> u32 \<Rightarrow> string dns_message" where
  "plain_reply m a = (build_dns_response_message m True False)\<lparr>dm_answers :=
     [\<lparr>rec_name = ''x.com.'', rec_ttl = 60, rec_data = RDataA a\<rparr>]\<rparr>"

definition plain_renv ::
  "(bool, string, ip_addr \<times> nat, string, unit, unit, unit cache_file) resolver_env" where
  "plain_renv =
    \<lparr>re_exchange = (\<lambda>c m. Some (0, Ok (plain_reply m (if c then 0x01020304 else 0x09090909)))),
     re_names = plain_names, re_nets = pair_lib, re_lru_get = (\<lambda>_ _. None),
     re_lru_insert = (\<lambda>_ _ l. l), re_rev_insert = (\<lambda>_ _ r. r), re_rev_peek = (\<lambda>_ _. None),
     re_store_ops = file_store, re_now_secs = 0, re_choose = (\<lambda>_. 0), re_v6_first = True\<rparr>"

definition plain_resolver ::
  "(bool, ip_addr \<times> nat, unit, unit, unit cache_file, unit) resolver" where
  "plain_resolver = (resolver_bare [True])\<lparr>er_ipv6 := True, er_hosts := Some localhost_tree,
     er_fallback := Some [False], er_ip_filters := Some [GeoIPFilter ''CN'' None]\<rparr>"

definition plain_query :: "string dns_message" where
  "plain_query = message_new\<lparr>dm_queries := [\<lparr>q_name = ''x.com.'', q_type = RtA, q_class = class_IN\<rparr>]\<rparr>"

lemma plain_batch:
  "batch_exchange plain_renv [b] m = Ok (plain_reply m (if b then 0x01020304 else 0x09090909))"
  by (simp add: batch_exchange_def plain_renv_def dns_timeout_def)

lemma plain_ip_exchange:
  "ip_exchange plain_renv plain_query plain_resolver = (Ok (plain_reply plain_query 0x09090909), plain_resolver)"
proof -
  have r: "er_main plain_resolver = [True]" "er_fallback plain_resolver = Some [False]"
    "er_ip_filters plain_resolver = Some [GeoIPFilter ''CN'' None]" "\<not> er_match_noproxy plain_resolver"
    "er_store plain_resolver = None" "er_domain_filters plain_resolver = None"
    by (simp_all add: plain_resolver_def resolver_bare_def)
  have "ip_list_of_message (plain_reply plain_query a) = Ok [V4 a]" for a
    by (simp add: ip_list_of_message_def plain_reply_def)
  then show ?thesis
    using r by (simp add: ip_exchange_def match_policy_def should_only_query_fallback_def geo_verdict_def
        main_then_fallback_def plain_batch Let_def update_geoip_cache_def should_ip_fallback_def
        split: option.split)
qed

theorem ip_exchange_source_witness:
  "batch_exchange plain_renv [False] plain_query = Ok (plain_reply plain_query 0x09090909) \<or>
    (\<not> should_only_query_fallback (re_names plain_renv) plain_resolver plain_query \<and>
      batch_exchange plain_renv (er_main plain_resolver) plain_query = Ok (plain_reply plain_query 0x09090909) \<and>
      (\<exists>ip ips. ip_list_of_message (plain_reply plain_query 0x09090909) = Ok (ip # ips) \<and>
        (\<not> should_ip_fallback (re_nets plain_renv) plain_resolver ip \<or>
         (\<exists>d. geo_verdict (re_now_secs plain_renv) (re_names plain_renv) plain_resolver plain_query = Some (d, False))))) \<or>
    is_fake_answer plain_renv plain_resolver (plain_reply plain_query 0x09090909)"
  by (rule ip_exchange_source [OF plain_ip_exchange])
    (simp_all add: plain_resolver_def resolver_bare_def match_policy_def)

lemma server_fake_spec:
  assumes "er_fake er = Some fd" "pool_reach (re_nets env) net fd" "pool_net (re_nets env) net"
    "re_store_ops env = file_store" "dm_query req = Some q" "q_type q \<noteq> RtAAAA"
    "host = trim_end_matches CHR ''.'' (nl_ascii (re_names env) (q_name q))" "host_ok host"
    "\<not> should_skip host fd" "hosts_search er host = None"
  shows "\<exists>r er' ip. exchange_with_resolver env req True er = (Ok r, er') \<and> dm_id r = dm_id req \<and>
    dm_answers r = [\<lparr>rec_name = q_name q, rec_ttl = DEFAULT_DNS_SERVER_TTL, rec_data = RDataA ip\<rparr>] \<and>
    resolver_is_fake_ip env (V4 ip) er' \<and>
    resolver_reverse_lookup env (V4 ip) er' = (Some host, er') \<and>
    exchange_with_resolver env req True er' = (Ok r, er')"
proof -
  obtain a fd' where l: "fake_lookup file_store host fd = Some (Ok (V4 a, fd'))"
    "reverse_lookup file_store (V4 a) fd' = (Some host, fd')"
    "fake_lookup file_store host fd' = Some (Ok (V4 a, fd'))" "is_fake_ip (re_nets env) (V4 a) fd'"
    "skipped_hostnames fd' = skipped_hostnames fd"
    using reach_lookup [OF assms(2,3,8)] by metis
  let ?er = "er\<lparr>er_fake := Some fd'\<rparr>"
  have skip: "should_skip host fd' = should_skip host fd"
    using l(5) by (simp add: should_skip_def)
  have v4: "parse_ipv4 host = None" using assms(8) by (simp add: host_ok_def parse_ipv4_none)
  have hosts: "hosts_search ?er host = None" using assms(10) by (simp add: hosts_search_def)
  have res: "resolve_v4 env host True er = (Ok (Some a), ?er)"
    "resolve_v4 env host True ?er = (Ok (Some a), ?er)"
    using assms(1,4,9,10) l v4 hosts skip by (simp_all add: resolve_v4_def as_v4_def)
  show ?thesis
    using assms(1,4,5,6) res l
    by (simp add: exchange_with_resolver_def fake_ip_enabled_def Let_def assms(7) [symmetric]
        build_dns_response_message_def message_new_def resolver_is_fake_ip_def
        resolver_reverse_lookup_def)
qed



text \<open>
  The hosts file and the address families. A name that the hosts file maps to an address is
  answered with it when its family is asked for, and a query for the other family panics. With IPv6 enabled and its
  query first, resolving a name that the hosts file maps to an IPv4 address panics.
\<close>

theorem hosts_family_panics:
  assumes "hosts_search er host = Some n" "get_data n = Some ip"
  shows "(case ip of
      V4 a \<Rightarrow> resolve_v4 env host True er = (Ok (Some a), er) \<and>
        (er_ipv6 er \<longrightarrow> resolve_v6 env host True er = (Err Panic, er) \<and>
          (re_v6_first env \<longrightarrow> resolve env host True er = (Err Panic, er)))
    | V6 a \<Rightarrow> resolve_v4 env host True er = (Err Panic, er) \<and>
        (er_ipv6 er \<longrightarrow> resolve_v6 env host True er = (Ok (Some a), er)))"
  using assms
  by (simp add: resolve_v4_def resolve_v6_def resolve_def resolve_both_def as_v4_def as_v6_def
      split: ip_addr.split)

theorem hosts_family_panics_witness:
  "resolve plain_renv ''localhost'' True plain_resolver = (Err Panic, plain_resolver)"
proof -
  have "Option.bind (trie_search localhost_tree ''localhost'') get_data = Some (V4 0x7F000001)"
    by code_simp
  then obtain n where "hosts_search plain_resolver ''localhost'' = Some n" "get_data n = Some (V4 0x7F000001)"
    by (auto simp: hosts_search_def plain_resolver_def bind_eq_Some_conv)
  from hosts_family_panics [OF this, of plain_renv] show ?thesis
    by (simp add: plain_resolver_def plain_renv_def)
qed

section \<open>What the model shows beside\<close>

text \<open>
  The cache file outlives the configuration: an entry of another country for a name makes the query
  panic when no fallback server is configured.
\<close>

lemma geo_cache_no_fallback:
  assumes "er_fallback er = None" "\<not> er_match_noproxy er"
    "geo_verdict (re_now_secs env) (re_names env) er message = Some (d, True)"
  shows "ip_exchange env message er = (Err Panic, er)"
  using assms by (simp add: ip_exchange_def match_policy_def should_only_query_fallback_def)

text \<open>The country filter is there whenever the list of prefixes parses, also when it is switched off.\<close>

lemma geo_filter_always:
  "ff_ip_cidr ff = Some nets \<Longrightarrow>
    build_ip_filters (ff\<lparr>ff_geo_ip := False\<rparr>) db = Some (GeoIPFilter (ff_geo_ip_code ff) db # map IPNetFilter nets)"
  by (simp add: build_ip_filters_def)

text \<open>A policy for a name is not consulted unless fallback servers and domain filters are configured.\<close>

lemma policy_needs_fallback: "er_fallback er = None \<Longrightarrow> match_policy nl er m = None"
  by (simp add: match_policy_def)

end
