(* ===== verification/Proxy_Groups.thy ===== *)
theory Proxy_Groups
  imports Rust_Str "HOL-Library.AList" "HOL-Library.Multiset"
begin

text \<open>
  Model of the proxy groups of the configuration, \<^verbatim>\<open>config/internal/proxy.rs\<close>, and of
  \<^verbatim>\<open>proxy_groups_dag_sort\<close> in \<^verbatim>\<open>app/outbound/utils.rs\<close>, which orders them so that a group comes
  after the groups it refers to, or reports a loop. A \<^verbatim>\<open>HashMap\<close> is an association list; the order
  in which it is iterated is a parameter. The counters are far below the range of \<^verbatim>\<open>i32\<close>.
\<close>

section \<open>Groups\<close>

text \<open>\<open>'f\<close> stands for the floating point fields.\<close>

record relay_group =
  rel_name :: string
  rel_proxies :: "string list option"
  rel_use_provider :: "string list option"
  rel_icon :: "string option"
  rel_url :: "string option"

record urltest_group =
  ut_name :: string
  ut_proxies :: "string list option"
  ut_use_provider :: "string list option"
  ut_url :: string
  ut_interval :: u64
  ut_lazy :: "bool option"
  ut_tolerance :: "u16 option"
  ut_icon :: "string option"

record fallback_group =
  fb_name :: string
  fb_proxies :: "string list option"
  fb_use_provider :: "string list option"
  fb_url :: string
  fb_interval :: u64
  fb_lazy :: "bool option"
  fb_icon :: "string option"

datatype lb_strategy = ConsistentHashing | RoundRobin | StickySession

record loadbalance_group =
  lb_name :: string
  lb_proxies :: "string list option"
  lb_use_provider :: "string list option"
  lb_url :: string
  lb_interval :: u64
  lb_lazy :: "bool option"
  lb_strategy :: "lb_strategy option"
  lb_icon :: "string option"

record 'f smart_group =
  sm_name :: string
  sm_proxies :: "string list option"
  sm_udp :: "bool option"
  sm_use_provider :: "string list option"
  sm_lazy :: "bool option"
  sm_icon :: "string option"
  sm_url :: "string option"
  sm_max_retries :: "u32 option"
  sm_site_stickiness :: "'f option"
  sm_bandwidth_weight :: "'f option"

record select_group =
  sel_name :: string
  sel_proxies :: "string list option"
  sel_use_provider :: "string list option"
  sel_udp :: "bool option"
  sel_url :: "string option"
  sel_icon :: "string option"

datatype 'f group =
    Relay relay_group
  | UrlTest urltest_group
  | Fallback fallback_group
  | LoadBalance loadbalance_group
  | Smart "'f smart_group"
  | Select select_group

fun group_name :: "'f group \<Rightarrow> string" where
  "group_name (Relay g) = rel_name g"
| "group_name (UrlTest g) = ut_name g"
| "group_name (Fallback g) = fb_name g"
| "group_name (LoadBalance g) = lb_name g"
| "group_name (Smart g) = sm_name g"
| "group_name (Select g) = sel_name g"

fun group_proxies :: "'f group \<Rightarrow> string list option" where
  "group_proxies (Relay g) = rel_proxies g"
| "group_proxies (UrlTest g) = ut_proxies g"
| "group_proxies (Fallback g) = fb_proxies g"
| "group_proxies (LoadBalance g) = lb_proxies g"
| "group_proxies (Smart g) = sm_proxies g"
| "group_proxies (Select g) = sel_proxies g"

section \<open>The graph\<close>

record 'f gnode =
  in_degree :: int
  proto :: "'f group option"
  outdegree :: int
  n_from :: "string list"

type_synonym 'f graph = "(string \<times> 'f gnode) list"

definition gnode_new :: "int \<Rightarrow> 'f group option \<Rightarrow> 'f gnode" where
  "gnode_new d g = \<lparr> in_degree = d, proto = g, outdegree = 0, n_from = [] \<rparr>"

text \<open>The references of one group.\<close>

fun count_proxies :: "string list \<Rightarrow> 'f graph \<Rightarrow> 'f graph" where
  "count_proxies [] G = G"
| "count_proxies (p # ps) G =
    count_proxies ps
      (case map_of G p of
         Some nd \<Rightarrow> AList.update p (nd \<lparr> in_degree := in_degree nd + 1 \<rparr>) G
       | None \<Rightarrow> AList.update p (gnode_new 1 None) G)"

definition add_group :: "'f group \<Rightarrow> 'f graph \<Rightarrow> 'f graph result" where
  "add_group g G =
    bind_result
      (case map_of G (group_name g) of
         Some nd \<Rightarrow>
           if proto nd \<noteq> None then Err (InvalidConfig (''duplicate proxy group name: '' @ group_name g))
           else Ok (AList.update (group_name g) (nd \<lparr> proto := Some g \<rparr>) G)
       | None \<Rightarrow> Ok (AList.update (group_name g) (gnode_new 0 (Some g)) G))
      (\<lambda>G. Ok (case group_proxies g of Some ps \<Rightarrow> count_proxies ps G | None \<Rightarrow> G))"

fun build_graph :: "'f group list \<Rightarrow> 'f graph \<Rightarrow> 'f graph result" where
  "build_graph [] G = Ok G"
| "build_graph (g # gs) G = bind_result (add_group g G) (build_graph gs)"

section \<open>Sorting\<close>

text \<open>Taking back the references of a group that has been placed.\<close>

fun release :: "string list \<Rightarrow> 'f graph \<Rightarrow> string list \<Rightarrow> ('f graph \<times> string list) result" where
  "release [] G q = Ok (G, q)"
| "release (p # ps) G q =
    (case map_of G p of
       None \<Rightarrow> Err Panic
     | Some nd \<Rightarrow>
         let nd = nd \<lparr> in_degree := in_degree nd - 1 \<rparr>
         in release ps (AList.update p nd G) (if in_degree nd = 0 then q @ [p] else q))"

lemma map_fst_update_in: "map_of G k = Some w \<Longrightarrow> map fst (AList.update k v G) = map fst G"
  by (induction G) (auto split: if_splits)

lemma release_keys: "release ps G q = Ok (G', q') \<Longrightarrow> map fst G' = map fst G"
  by (induction ps G q rule: release.induct)
    (auto simp: Let_def map_fst_update_in split: option.splits)

lemma length_delete_less: "map_of G k = Some v \<Longrightarrow> length (AList.delete k G) < length G"
  by (induction G) (auto simp: AList.delete_eq less_Suc_eq_le intro: le_SucI split: if_splits)

lemma delete_same_keys_less:
  assumes "map fst G' = map fst G" and "map_of G nm = Some nd"
  shows "length (AList.delete nm G') < length G"
proof -
  have "nm \<in> set (map fst G)" using map_of_SomeD [OF assms(2)] by force
  then have "nm \<in> set (map fst G')" by (simp only: assms(1))
  then obtain v where "map_of G' nm = Some v" by (auto dest: weak_map_of_SomeI)
  then have "length (AList.delete nm G') < length G'" by (rule length_delete_less)
  with map_eq_imp_length_eq [OF assms(1)] show ?thesis by simp
qed

text \<open>The main loop, on the queue, the graph and the groups placed so far, the last one first.\<close>

function dag_loop :: "string list \<Rightarrow> 'f graph \<Rightarrow> 'f group list \<Rightarrow> ('f graph \<times> 'f group list) result" where
  "dag_loop [] G placed = Ok (G, placed)"
| "dag_loop (nm # q) G placed =
    (case map_of G nm of
       None \<Rightarrow> Err Panic
     | Some nd \<Rightarrow>
         (case proto nd of
            None \<Rightarrow> dag_loop q (AList.delete nm G) placed
          | Some g \<Rightarrow>
              (case group_proxies g of
                 None \<Rightarrow> dag_loop q (AList.delete nm G) (g # placed)
               | Some ps \<Rightarrow>
                   (case release ps (AList.update nm (nd \<lparr> proto := None \<rparr>) G) q of
                      Inl e \<Rightarrow> Err e
                    | Inr (G', q') \<Rightarrow> dag_loop q' (AList.delete nm G') (g # placed)))))"
  by pat_completeness auto
termination
proof (relation "measure (\<lambda>(q, G, placed). length G)", goal_cases)
  case (4 nm q G placed nd g ps r G' q')
  have "release ps (AList.update nm (nd \<lparr> proto := None \<rparr>) G) q = Ok (G', q')" using 4(4, 5) by simp
  from release_keys [OF this] have "map fst G' = map fst G" by (simp only: map_fst_update_in [OF 4(1)])
  from delete_same_keys_less [OF this 4(1)] show ?case by simp
qed (simp_all add: length_delete_less)

section \<open>Reporting the loop\<close>

fun mark_from :: "string \<Rightarrow> string list \<Rightarrow> 'f graph \<Rightarrow> 'f graph result" where
  "mark_from nm [] G = Ok G"
| "mark_from nm (p # ps) G =
    (case map_of G nm of
       None \<Rightarrow> Err Panic
     | Some nd \<Rightarrow>
         let G = AList.update nm (nd \<lparr> outdegree := outdegree nd + 1 \<rparr>) G in
         (case map_of G p of
            None \<Rightarrow> Err Panic
          | Some pd \<Rightarrow> mark_from nm ps (AList.update p (pd \<lparr> n_from := n_from pd @ [nm] \<rparr>) G)))"

fun mark_all :: "string list \<Rightarrow> 'f graph \<Rightarrow> 'f graph result" where
  "mark_all [] G = Ok G"
| "mark_all (nm # nms) G =
    (case Option.bind (Option.bind (map_of G nm) proto) group_proxies of
       None \<Rightarrow> mark_all nms G
     | Some ps \<Rightarrow> bind_result (mark_from nm ps G) (mark_all nms))"

fun reduce_parents :: "string list \<Rightarrow> 'f graph \<Rightarrow> string list \<Rightarrow> ('f graph \<times> string list) result" where
  "reduce_parents [] G q = Ok (G, q)"
| "reduce_parents (p # ps) G q =
    (case map_of G p of
       None \<Rightarrow> Err Panic
     | Some nd \<Rightarrow>
         let nd = nd \<lparr> outdegree := outdegree nd - 1 \<rparr>
         in reduce_parents ps (AList.update p nd G) (if outdegree nd = 0 then q @ [p] else q))"

lemma reduce_parents_keys: "reduce_parents ps G q = Ok (G', q') \<Longrightarrow> map fst G' = map fst G"
  by (induction ps G q rule: reduce_parents.induct)
    (auto simp: Let_def map_fst_update_in split: option.splits)

function prune_loop :: "string list \<Rightarrow> 'f graph \<Rightarrow> 'f graph result" where
  "prune_loop [] G = Ok G"
| "prune_loop (nm # q) G =
    (case map_of G nm of
       None \<Rightarrow> Err Panic
     | Some nd \<Rightarrow>
         (case reduce_parents (n_from nd) G q of
            Inl e \<Rightarrow> Err e
          | Inr (G', q') \<Rightarrow> prune_loop q' (AList.delete nm G')))"
  by pat_completeness auto
termination
proof (relation "measure (\<lambda>(q, G). length G)", goal_cases)
  case (2 nm q G nd r G' q')
  then have "reduce_parents (n_from nd) G q = Ok (G', q')" by simp
  from delete_same_keys_less [OF reduce_parents_keys [OF this] 2(1)] show ?case by simp
qed simp

text \<open>\<open>ord\<close> gives the order in which the map with these keys is iterated.\<close>

definition select_keys :: "('f gnode \<Rightarrow> bool) \<Rightarrow> (string list \<Rightarrow> string list) \<Rightarrow> 'f graph \<Rightarrow> string list" where
  "select_keys P ord G = filter (\<lambda>nm. case map_of G nm of Some nd \<Rightarrow> P nd | None \<Rightarrow> False) (ord (map fst G))"

definition proxy_groups_dag_sort ::
  "(string list \<Rightarrow> string list) \<Rightarrow> 'f group list \<Rightarrow> 'f group list result" where
  "proxy_groups_dag_sort ord groups =
    bind_result (build_graph groups []) (\<lambda>G.
    bind_result (dag_loop (select_keys (\<lambda>nd. in_degree nd = 0) ord G) G []) (\<lambda>(G, placed).
      if G = [] then Ok (take (length groups - length placed) groups @ placed)
      else
        bind_result (mark_all (ord (map fst G)) G) (\<lambda>G.
        bind_result (prune_loop (select_keys (\<lambda>nd. outdegree nd = 0) ord G) G) (\<lambda>G.
          Err (InvalidConfig (''loop detected in proxy groups: '' @ str_join (CHR '','') (ord (map fst G))))))))"

section \<open>What the graph counts\<close>

definition plist :: "'f group \<Rightarrow> string list" where
  "plist g = (case group_proxies g of Some ps \<Rightarrow> ps | None \<Rightarrow> [])"

definition refs :: "string \<Rightarrow> 'f group list \<Rightarrow> nat" where
  "refs n gs = sum_list (map (\<lambda>g. count_list (plist g) n) gs)"

text \<open>The graph of the groups \<open>R\<close> that are not placed yet.\<close>

definition graph_inv :: "'f group list \<Rightarrow> 'f graph \<Rightarrow> bool" where
  "graph_inv R G \<longleftrightarrow> distinct (map fst G) \<and>
    (\<forall>n nd. map_of G n = Some nd \<longrightarrow> in_degree nd = int (refs n R) \<and>
      (\<forall>g. proto nd = Some g \<longleftrightarrow> g \<in> set R \<and> group_name g = n)) \<and>
    (\<forall>g \<in> set R. map_of G (group_name g) \<noteq> None \<and> (\<forall>p \<in> set (plist g). map_of G p \<noteq> None))"

lemma graph_inv_node:
  assumes "graph_inv R G" and "map_of G n = Some nd"
  shows "in_degree nd = int (refs n R)" and "proto nd = Some g \<longleftrightarrow> g \<in> set R \<and> group_name g = n"
  using assms unfolding graph_inv_def by blast+

lemma graph_inv_key:
  assumes "graph_inv R G" and "g \<in> set R"
  shows "map_of G (group_name g) \<noteq> None" and "p \<in> set (plist g) \<Longrightarrow> map_of G p \<noteq> None"
  using assms unfolding graph_inv_def by blast+

lemma refs_simps [simp]:
  "refs n [] = 0" "refs n (g # gs) = count_list (plist g) n + refs n gs" "refs n (gs @ hs) = refs n gs + refs n hs"
  by (simp_all add: refs_def)

lemma refs_remove1: "g \<in> set R \<Longrightarrow> refs n R = count_list (plist g) n + refs n (remove1 g R)"
  by (induction R) auto

lemma refs_0: "refs n R = 0 \<longleftrightarrow> (\<forall>g \<in> set R. n \<notin> set (plist g))"
  by (induction R) (auto simp: count_list_0_iff)

lemma count_proxies_map:
  "map_of (count_proxies ps G) n =
    (case map_of G n of
       Some nd \<Rightarrow> Some (nd \<lparr> in_degree := in_degree nd + int (count_list ps n) \<rparr>)
     | None \<Rightarrow> if n \<in> set ps then Some (gnode_new (int (count_list ps n)) None) else None)"
  by (induction ps arbitrary: G) (auto simp: update_conv' gnode_new_def split: option.splits)

lemma count_proxies_distinct: "distinct (map fst G) \<Longrightarrow> distinct (map fst (count_proxies ps G))"
  by (induction ps G rule: count_proxies.induct) (auto simp: distinct_update split: option.splits)

text \<open>The node of the group itself, before its references are counted.\<close>

definition insert_node :: "'f group \<Rightarrow> 'f graph \<Rightarrow> 'f graph" where
  "insert_node g G =
    AList.update (group_name g)
      (case map_of G (group_name g) of Some nd \<Rightarrow> nd \<lparr> proto := Some g \<rparr> | None \<Rightarrow> gnode_new 0 (Some g)) G"

lemma add_group_new:
  assumes "graph_inv R G" and "\<forall>h \<in> set R. group_name h \<noteq> group_name g"
  shows "add_group g G = Ok (count_proxies (plist g) (insert_node g G))"
proof -
  have "proto nd = None" if "map_of G (group_name g) = Some nd" for nd
  proof (rule ccontr)
    assume "proto nd \<noteq> None"
    then obtain a where "proto nd = Some a" by blast
    then have "a \<in> set R \<and> group_name a = group_name g" using graph_inv_node(2) [OF assms(1) that] by simp
    with assms(2) show False by blast
  qed
  then show ?thesis
    by (auto simp: add_group_def insert_node_def plist_def split: option.split)
qed

lemma add_group_dup:
  assumes "graph_inv R G" and h: "h \<in> set R" "group_name h = group_name g"
  shows "\<exists>e. add_group g G = Err e"
proof -
  obtain nd where nd: "map_of G (group_name g) = Some nd" 
    using graph_inv_key(1) [OF assms(1) h(1)] unfolding h(2) by blast
  then have "proto nd = Some h" using graph_inv_node(2) [OF assms(1) nd] h by blast
  with nd show ?thesis by (simp add: add_group_def)
qed

lemma graph_inv_add:
  assumes "graph_inv R G" and "\<forall>h \<in> set R. group_name h \<noteq> group_name g"
  shows "graph_inv (R @ [g]) (count_proxies (plist g) (insert_node g G))"
proof -
  let ?G = "count_proxies (plist g) (insert_node g G)"
  have look: "map_of ?G n =
      (if n = group_name g then
         (case map_of G n of
            Some nd \<Rightarrow> Some (nd \<lparr> proto := Some g, in_degree := in_degree nd + int (count_list (plist g) n) \<rparr>)
          | None \<Rightarrow> Some (gnode_new (int (count_list (plist g) n)) (Some g)))
       else case map_of G n of
         Some nd \<Rightarrow> Some (nd \<lparr> in_degree := in_degree nd + int (count_list (plist g) n) \<rparr>)
       | None \<Rightarrow> if n \<in> set (plist g) then Some (gnode_new (int (count_list (plist g) n)) None) else None)" for n
    by (auto simp: count_proxies_map insert_node_def update_conv' gnode_new_def split: option.split)
  have "distinct (map fst ?G)"
    using assms(1) by (auto simp: graph_inv_def insert_node_def distinct_update intro!: count_proxies_distinct)
  moreover have "map_of G n = None \<Longrightarrow> refs n R = 0" and "map_of G (group_name h) = None \<Longrightarrow> h \<notin> set R" for n h
    using graph_inv_key [OF assms(1)] unfolding refs_0 by blast+
  then have "in_degree nd = int (refs n (R @ [g])) \<and> (\<forall>h. proto nd = Some h \<longleftrightarrow> h \<in> set (R @ [g]) \<and> group_name h = n)"
    if "map_of ?G n = Some nd" for n nd
    using that assms(2) graph_inv_node [OF assms(1)] unfolding look
    by (auto simp: gnode_new_def split: if_splits option.splits)
  moreover have none: "map_of ?G n = None \<longleftrightarrow> map_of G n = None \<and> n \<noteq> group_name g \<and> n \<notin> set (plist g)" for n
    unfolding look by (simp split: option.split)
  have "map_of ?G (group_name h) \<noteq> None \<and> (\<forall>p \<in> set (plist h). map_of ?G p \<noteq> None)"
    if "h \<in> set (R @ [g])" for h
    using that graph_inv_key [OF assms(1), of h] unfolding none by (cases "h \<in> set R") auto
  ultimately show ?thesis unfolding graph_inv_def by blast
qed

lemma build_graph_spec:
  "graph_inv R G \<Longrightarrow> distinct (map group_name R) \<Longrightarrow>
   (if distinct (map group_name (R @ gs)) then \<exists>G'. build_graph gs G = Ok G' \<and> graph_inv (R @ gs) G'
    else \<exists>e. build_graph gs G = Err e)"
proof (induction gs arbitrary: R G)
  case (Cons g gs)
  have eq: "R @ g # gs = (R @ [g]) @ gs" by simp
  show ?case
  proof (cases "\<forall>h \<in> set R. group_name h \<noteq> group_name g")
    case True
    then have "distinct (map group_name (R @ [g]))" using Cons.prems(2) by auto
    from Cons.IH [OF graph_inv_add [OF Cons.prems(1) True] this] show ?thesis
      unfolding eq build_graph.simps add_group_new [OF Cons.prems(1) True] bind_result_def by (simp only: sum.case)
  next
    case False
    then obtain h where h: "h \<in> set R" "group_name h = group_name g" by blast
    then have "\<not> distinct (map group_name (R @ g # gs))" by (auto simp: image_iff) (metis)
    moreover obtain e where "add_group g G = Err e" using add_group_dup [OF Cons.prems(1) h] by blast
    ultimately show ?thesis by (simp only: build_graph.simps bind_result_def sum.case if_False) blast
  qed
qed simp

section \<open>The loop keeps the counts\<close>

lemma release_spec:
  assumes "\<forall>p \<in> set ps. map_of G p \<noteq> None"
    and "\<forall>n nd. map_of G n = Some nd \<longrightarrow> int (count_list ps n) \<le> in_degree nd"
    and "distinct q" and "set q \<inter> set ps = {}"
  shows "\<exists>G' q'. release ps G q = Ok (G', q') \<and> map fst G' = map fst G \<and> distinct q' \<and>
    (\<forall>n. map_of G' n = map_option (\<lambda>nd. nd \<lparr> in_degree := in_degree nd - int (count_list ps n) \<rparr>) (map_of G n)) \<and>
    set q' = set q \<union> {n \<in> set ps. map_option in_degree (map_of G n) = Some (int (count_list ps n))}"
  using assms
proof (induction ps arbitrary: G q)
  case (Cons p ps)
  obtain nd where nd: "map_of G p = Some nd" using Cons.prems(1) by auto
  let ?G = "AList.update p (nd \<lparr> in_degree := in_degree nd - 1 \<rparr>) G"
  let ?q = "if in_degree nd = 1 then q @ [p] else q"
  have ge: "int (count_list (p # ps) p) \<le> in_degree nd" using Cons.prems(2) nd by blast
  have fresh: "in_degree nd = 1 \<Longrightarrow> p \<notin> set ps" using ge by (auto simp: count_list_0_iff [symmetric])
  have look: "map_of ?G n = (if n = p then Some (nd \<lparr> in_degree := in_degree nd - 1 \<rparr>) else map_of G n)" for n
    by (simp add: update_conv')
  have "\<forall>n \<in> set ps. map_of ?G n \<noteq> None" using Cons.prems(1) by (simp add: look)
  moreover have "\<forall>n nd. map_of ?G n = Some nd \<longrightarrow> int (count_list ps n) \<le> in_degree nd"
    using Cons.prems(2) ge by (auto simp: look split: if_splits)
  moreover have "distinct ?q" "set ?q \<inter> set ps = {}" using Cons.prems(3, 4) fresh by auto
  ultimately obtain G' q' where IH: "release ps ?G ?q = Ok (G', q')" "map fst G' = map fst ?G" "distinct q'"
    "\<forall>n. map_of G' n = map_option (\<lambda>nd. nd \<lparr> in_degree := in_degree nd - int (count_list ps n) \<rparr>) (map_of ?G n)"
    "set q' = set ?q \<union> {n \<in> set ps. map_option in_degree (map_of ?G n) = Some (int (count_list ps n))}"
    using Cons.IH [of ?G ?q] by blast
  have "map_of G' n = map_option (\<lambda>nd. nd \<lparr> in_degree := in_degree nd - int (count_list (p # ps) n) \<rparr>) (map_of G n)" for n
    using IH(4) nd by (auto simp: look)
  moreover have "set q' = set q \<union> {n \<in> set (p # ps). map_option in_degree (map_of G n) = Some (int (count_list (p # ps) n))}"
  proof (rule set_eqI)
    fix n
    show "n \<in> set q' \<longleftrightarrow>
        n \<in> set q \<union> {n \<in> set (p # ps). map_option in_degree (map_of G n) = Some (int (count_list (p # ps) n))}"
    proof (cases "n = p")
      case True
      show ?thesis
        using IH(5) nd fresh True by (cases "p \<in> set ps") (auto simp: look count_notin algebra_simps)
    next
      case False
      then show ?thesis using IH(5) by (simp add: look)
    qed
  qed
  moreover have "map fst G' = map fst G" using IH(2) map_fst_update_in [OF nd] by simp
  ultimately show ?case using IH(1, 3) nd by (auto simp: Let_def)
qed (simp add: option.map_ident)

text \<open>Whoever refers to a placed group has been placed before it, so stands behind it.\<close>

fun placed_ok :: "'f group set \<Rightarrow> 'f group list \<Rightarrow> bool" where
  "placed_ok R [] = True"
| "placed_ok R (g # gs) \<longleftrightarrow> (\<forall>h \<in> insert g R. group_name g \<notin> set (plist h)) \<and> placed_ok (insert g R) gs"

definition loop_inv :: "'f group list \<Rightarrow> string list \<Rightarrow> 'f graph \<Rightarrow> 'f group list \<Rightarrow> 'f group list \<Rightarrow> bool" where
  "loop_inv gs q G placed R \<longleftrightarrow> graph_inv R G \<and> distinct (map group_name R) \<and> distinct q \<and>
    (\<forall>n. n \<in> set q \<longleftrightarrow> map_of G n \<noteq> None \<and> refs n R = 0) \<and>
    mset placed + mset R = mset gs \<and> placed_ok (set R) placed"

lemma map_of_delete: "map_of (AList.delete k G) n = (if n = k then None else map_of G n)"
  by (simp add: delete_conv')

lemma distinct_delete_keys: "distinct (map fst G) \<Longrightarrow> distinct (map fst (AList.delete k G))"
  by (rule distinct_delete)

lemma loop_inv_proxy:
  assumes "loop_inv gs (nm # q) G placed R" and "map_of G nm = Some nd" and "proto nd = None"
  shows "loop_inv gs q (AList.delete nm G) placed R"
proof -
  have inv: "graph_inv R G" and q: "\<And>n. n \<in> set (nm # q) \<longleftrightarrow> map_of G n \<noteq> None \<and> refs n R = 0"
    using assms(1) unfolding loop_inv_def by blast+
  have zero: "\<forall>h \<in> set R. nm \<notin> set (plist h)" using q [of nm] refs_0 by auto
  have "\<forall>h \<in> set R. group_name h \<noteq> nm" using graph_inv_node(2) [OF inv assms(2)] assms(3) by auto
  with zero inv have "graph_inv R (AList.delete nm G)"
    unfolding graph_inv_def map_of_delete by (auto simp: distinct_delete_keys simp del: map_of_eq_Some_iff)
  moreover have "n \<in> set q \<longleftrightarrow> map_of (AList.delete nm G) n \<noteq> None \<and> refs n R = 0" for n
    using q [of n] assms(1) by (auto simp: map_of_delete loop_inv_def)
  ultimately show ?thesis using assms(1) unfolding loop_inv_def by simp
qed

lemma distinct_map_remove1: "distinct (map f xs) \<Longrightarrow> distinct (map f (remove1 x xs))"
  by (auto simp: distinct_map intro: inj_on_diff)

lemma loop_inv_group:
  assumes "loop_inv gs (nm # q) G placed R" and "map_of G nm = Some nd" and "proto nd = Some g"
  shows "\<exists>G' q'. release (plist g) (AList.update nm (nd \<lparr> proto := None \<rparr>) G) q = Ok (G', q') \<and>
    loop_inv gs q' (AList.delete nm G') (g # placed) (remove1 g R)"
proof -
  let ?G = "AList.update nm (nd \<lparr> proto := None \<rparr>) G" and ?R = "remove1 g R"
  have inv: "graph_inv R G" and dist: "distinct (map group_name R)" "distinct (nm # q)"
    and q: "\<And>n. n \<in> set (nm # q) \<longleftrightarrow> map_of G n \<noteq> None \<and> refs n R = 0"
    using assms(1) unfolding loop_inv_def by blast+
  have g: "g \<in> set R" "group_name g = nm" using graph_inv_node(2) [OF inv assms(2)] assms(3) by auto
  have zero: "nm \<notin> set (plist h)" if "h \<in> set R" for h using q [of nm] that refs_0 by auto
  have look: "map_of ?G n = (if n = nm then Some (nd \<lparr> proto := None \<rparr>) else map_of G n)" for n
    by (simp add: update_conv')
  note refs = refs_remove1 [OF g(1)]
  have deg: "int (count_list (plist g) n) \<le> in_degree d" if "map_of G n = Some d" for n d
    using graph_inv_node(1) [OF inv that] refs [of n] by simp
  obtain G' q' where rel: "release (plist g) ?G q = Ok (G', q')" "map fst G' = map fst ?G" "distinct q'"
    and look': "\<And>n. map_of G' n = map_option (\<lambda>d. d \<lparr> in_degree := in_degree d - int (count_list (plist g) n) \<rparr>) (map_of ?G n)"
    and q': "set q' = set q \<union> {n \<in> set (plist g). map_option in_degree (map_of ?G n) = Some (int (count_list (plist g) n))}"
  proof -
    have "\<forall>p \<in> set (plist g). map_of ?G p \<noteq> None" using graph_inv_key(2) [OF inv g(1)] by (simp add: look)
    moreover have "\<forall>n d. map_of ?G n = Some d \<longrightarrow> int (count_list (plist g) n) \<le> in_degree d"
      using deg assms(2) by (auto simp: look)
    moreover have "n \<notin> set (plist g)" if "n \<in> set q" for n using q [of n] that g(1) refs_0 [of n R] by auto
    then have "set q \<inter> set (plist g) = {}" by blast
    ultimately show ?thesis using release_spec [of "plist g" ?G q] dist(2) that by auto
  qed
  have lookD: "map_of (AList.delete nm G') n = (if n = nm then None
      else map_option (\<lambda>d. d \<lparr> in_degree := in_degree d - int (count_list (plist g) n) \<rparr>) (map_of G n))" for n
    by (simp add: map_of_delete look' look)
  have mem: "h \<in> set ?R \<longleftrightarrow> h \<in> set R \<and> h \<noteq> g" for h
    using dist(1) by (simp add: distinct_map)
  have other: "h \<in> set ?R \<Longrightarrow> group_name h \<noteq> nm" for h
    using inj_onD [of group_name "set R" h g] dist(1) g unfolding mem distinct_map by auto
  have "graph_inv ?R (AList.delete nm G')"
    unfolding graph_inv_def
  proof (intro conjI allI impI ballI)
    show "distinct (map fst (AList.delete nm G'))"
      using inv by (intro distinct_delete_keys) (simp add: rel(2) map_fst_update_in [OF assms(2)] graph_inv_def)
    fix n d' assume "map_of (AList.delete nm G') n = Some d'"
    then obtain d where n: "n \<noteq> nm" "map_of G n = Some d"
      "d' = d \<lparr> in_degree := in_degree d - int (count_list (plist g) n) \<rparr>"
      unfolding lookD by (auto split: if_splits)
    show "in_degree d' = int (refs n ?R)" using graph_inv_node(1) [OF inv n(2)] refs [of n] n(3) by simp
    show "proto d' = Some h \<longleftrightarrow> h \<in> set ?R \<and> group_name h = n" for h
      using graph_inv_node(2) [OF inv n(2), of h] n g(2) unfolding mem by auto
  next
    fix h assume h: "h \<in> set ?R"
    then have hR: "h \<in> set R" by (simp add: mem)
    show "map_of (AList.delete nm G') (group_name h) \<noteq> None"
      using graph_inv_key(1) [OF inv hR] other [OF h] by (simp add: lookD)
    show "map_of (AList.delete nm G') p \<noteq> None" if "p \<in> set (plist h)" for p
      using graph_inv_key(2) [OF inv hR that] zero [OF hR] that by (auto simp: lookD)
  qed
  moreover have "n \<in> set q' \<longleftrightarrow> map_of (AList.delete nm G') n \<noteq> None \<and> refs n ?R = 0" for n
  proof (cases "n = nm")
    case True
    then show ?thesis using dist(2) zero [OF g(1)] q' by (simp add: lookD)
  next
    case False
    have deg: "map_option in_degree (map_of G n) = Some (int (count_list (plist g) n)) \<longleftrightarrow>
        map_of G n \<noteq> None \<and> refs n ?R = 0"
      using graph_inv_node(1) [OF inv] refs [of n] by (cases "map_of G n") auto
    show ?thesis
    proof (cases "n \<in> set (plist g)")
      case True
      then show ?thesis using False q [of n] q' deg refs [of n] by (auto simp: look lookD)
    next
      case notin: False
      then show ?thesis using False q [of n] q' refs [of n] by (simp add: lookD count_notin)
    qed
  qed
  moreover have "distinct (map group_name ?R)" using dist(1) by (rule distinct_map_remove1)
  moreover have "add_mset g (mset ?R) = mset R" using g(1) by simp
  then have "mset (g # placed) + mset ?R = mset gs"
    using assms(1) unfolding loop_inv_def by (metis mset.simps(2) union_mset_add_mset_left union_mset_add_mset_right)
  moreover have "insert g (set ?R) = set R" using g(1) by (auto simp: mem)
  then have "placed_ok (set ?R) (g # placed)"
    using assms(1) zero g(2) by (auto simp: loop_inv_def)
  ultimately have "loop_inv gs q' (AList.delete nm G') (g # placed) ?R"
    using rel(3) unfolding loop_inv_def by blast
  with rel(1) show ?thesis by blast
qed

lemma dag_loop_spec:
  "loop_inv gs q G placed R \<Longrightarrow>
   \<exists>G' placed' R'. dag_loop q G placed = Ok (G', placed') \<and> loop_inv gs [] G' placed' R'"
proof (induction "length G" arbitrary: q G placed R rule: less_induct)
  case less
  show ?case
  proof (cases q)
    case Nil
    then show ?thesis using less.prems by auto
  next
    case (Cons nm q0)
    note inv = less.prems [unfolded Cons]
    have "map_of G nm \<noteq> None" using inv unfolding loop_inv_def by (meson list.set_intros(1))
    then obtain nd where nd: "map_of G nm = Some nd" by blast
    show ?thesis
    proof (cases "proto nd")
      case None
      then show ?thesis
        using less.hyps [OF length_delete_less [OF nd] loop_inv_proxy [OF inv nd None]] by (simp add: Cons nd)
    next
      case (Some g)
      obtain G' q' where rel: "release (plist g) (AList.update nm (nd \<lparr> proto := None \<rparr>) G) q0 = Ok (G', q')"
        and inv': "loop_inv gs q' (AList.delete nm G') (g # placed) (remove1 g R)"
        using loop_inv_group [OF inv nd Some] by blast
      have keys: "map fst G' = map fst G"
        using release_keys [OF rel] by (simp only: map_fst_update_in [OF nd])
      have "dag_loop q G placed = dag_loop q' (AList.delete nm G') (g # placed)"
        using rel by (auto simp: Cons nd Some plist_def delete_update_same split: option.splits)
      with less.hyps [OF delete_same_keys_less [OF keys nd] inv'] show ?thesis by simp
    qed
  qed
qed

section \<open>Loops\<close>

text \<open>The references have no loop if the names can be ranked with every group above what it refers to.\<close>

definition deps_acyclic :: "'f group list \<Rightarrow> bool" where
  "deps_acyclic gs \<longleftrightarrow> (\<exists>r :: string \<Rightarrow> nat. \<forall>g \<in> set gs. \<forall>p \<in> set (plist g). r p < r (group_name g))"

text \<open>A group comes after every group it refers to.\<close>

definition sorted_deps :: "'f group list \<Rightarrow> bool" where
  "sorted_deps gs \<longleftrightarrow> (\<forall>i < length gs. \<forall>j \<le> i. group_name (gs ! i) \<notin> set (plist (gs ! j)))"

lemma placed_ok_sorted: "placed_ok R gs \<Longrightarrow> i < length gs \<Longrightarrow>
    (\<forall>h \<in> R. group_name (gs ! i) \<notin> set (plist h)) \<and> (\<forall>j \<le> i. group_name (gs ! i) \<notin> set (plist (gs ! j)))"
proof (induction R gs arbitrary: i rule: placed_ok.induct)
  case (2 R g gs)
  show ?case
  proof (cases i)
    case 0
    then show ?thesis using 2 by simp
  next
    case (Suc k)
    with 2 have "(\<forall>h \<in> insert g R. group_name (gs ! k) \<notin> set (plist h)) \<and>
        (\<forall>j \<le> k. group_name (gs ! k) \<notin> set (plist (gs ! j)))" by simp
    then show ?thesis using Suc by (auto simp: nth_Cons split: nat.splits)
  qed
qed simp

lemma loop_end_acyclic:
  assumes "loop_inv gs [] G placed R" and "deps_acyclic gs"
  shows "G = []"
proof (rule ccontr)
  assume ne: "G \<noteq> []"
  obtain r :: "string \<Rightarrow> nat" where r: "\<And>g p. g \<in> set gs \<Longrightarrow> p \<in> set (plist g) \<Longrightarrow> r p < r (group_name g)"
    using assms(2) by (auto simp: deps_acyclic_def)
  let ?K = "set (map fst G)"
  have "finite ?K" "?K \<noteq> {}" using ne by simp_all
  then have "Max (r ` ?K) \<in> r ` ?K" by (intro Max_in) auto
  then obtain n where n: "n \<in> ?K" and rn: "Max (r ` ?K) = r n" by blast
  have max: "r m \<le> r n" if "m \<in> ?K" for m
    using that \<open>finite ?K\<close> unfolding rn [symmetric] by (intro Max_ge) auto
  have "map_of G n \<noteq> None" using n by (auto simp: map_of_eq_None_iff)
  then have "refs n R \<noteq> 0" using assms(1) unfolding loop_inv_def by (metis empty_iff empty_set)
  then obtain g where g: "g \<in> set R" "n \<in> set (plist g)" by (auto simp: refs_0)
  have "set R \<subseteq> set gs" using assms(1) unfolding loop_inv_def by (metis set_mset_mset set_mset_union Un_upper2)
  then have "r n < r (group_name g)" using r g by blast
  moreover have "group_name g \<in> ?K"
    using graph_inv_key(1) [of R G g] assms(1) g(1) by (auto simp: loop_inv_def map_of_eq_None_iff)
  ultimately show False using max [of "group_name g"] by simp
qed

lemma loop_end_empty:
  assumes "loop_inv gs [] [] placed R"
  shows "mset placed = mset gs" and "placed_ok {} placed"
proof -
  have "R = []" using assms by (cases R) (auto simp: loop_inv_def graph_inv_def)
  then show "mset placed = mset gs" and "placed_ok {} placed" using assms by (simp_all add: loop_inv_def)
qed

lemma sorted_acyclic:
  assumes "sorted_deps gs" and "distinct (map group_name gs)"
  shows "deps_acyclic gs"
  unfolding deps_acyclic_def
proof (intro exI ballI)
  let ?pos = "\<lambda>n. length (takeWhile (\<lambda>g. group_name g \<noteq> n) gs)"
  let ?r = "\<lambda>n. if n \<in> set (map group_name gs) then Suc (?pos n) else 0"
  have pos: "?pos n < length gs \<and> group_name (gs ! ?pos n) = n" if "n \<in> set (map group_name gs)" for n
  proof -
    have "\<exists>g \<in> set gs. group_name g = n" using that by auto
    then have "?pos n < length gs" by (induction gs) auto
    then show ?thesis using nth_length_takeWhile [of "\<lambda>g. group_name g \<noteq> n" gs] by simp
  qed
  fix g p assume g: "g \<in> set gs" and p: "p \<in> set (plist g)"
  note pg = pos [of "group_name g"]
  then have "gs ! ?pos (group_name g) = g" using g assms(2) by (auto simp: distinct_map inj_on_def)
  then have "\<not> ?pos (group_name g) \<le> ?pos p" if "p \<in> set (map group_name gs)"
    using assms(1) p pos [OF that] unfolding sorted_deps_def by metis
  then show "?r p < ?r (group_name g)" using g by auto
qed

lemma placed_ok_sorted_deps: "placed_ok {} gs \<Longrightarrow> sorted_deps gs"
  using placed_ok_sorted unfolding sorted_deps_def by blast

lemma dag_sort_distinct:
  assumes "\<And>ks. mset (ord ks) = mset ks" and "distinct (map group_name gs)"
  obtains G placed R where "loop_inv gs [] G placed R"
    and "proxy_groups_dag_sort ord gs =
      (if G = [] then Ok placed
       else bind_result (mark_all (ord (map fst G)) G) (\<lambda>G.
         bind_result (prune_loop (select_keys (\<lambda>nd. outdegree nd = 0) ord G) G) (\<lambda>G.
           Err (InvalidConfig (''loop detected in proxy groups: '' @ str_join (CHR '','') (ord (map fst G)))))))"
proof -
  obtain G0 where G0: "build_graph gs [] = Ok G0" "graph_inv gs G0"
    using build_graph_spec [of "[]" "[]" gs] assms(2) by (auto simp: graph_inv_def)
  let ?q = "select_keys (\<lambda>nd. in_degree nd = 0) ord G0"
  have keys: "set (ord (map fst G0)) = set (map fst G0)" "distinct (ord (map fst G0))"
    using assms(1) [of "map fst G0"] G0(2) mset_eq_setD mset_eq_imp_distinct_iff unfolding graph_inv_def by blast+
  have "n \<in> set ?q \<longleftrightarrow> map_of G0 n \<noteq> None \<and> refs n gs = 0" for n
    using keys(1) graph_inv_node(1) [OF G0(2), of n]
      map_of_eq_None_iff [of G0 n]
    by (cases "map_of G0 n") (auto simp: select_keys_def)
  then have "loop_inv gs ?q G0 [] gs"
    using G0(2) assms(2) keys(2) by (simp add: loop_inv_def select_keys_def)
  then obtain G placed R where l: "dag_loop ?q G0 [] = Ok (G, placed)" "loop_inv gs [] G placed R"
    using dag_loop_spec by blast
  have "G = [] \<Longrightarrow> length placed = length gs" using loop_end_empty(1) l(2) mset_eq_length by blast
  with G0(1) l show ?thesis by (intro that [of G placed R]) (auto simp: proxy_groups_dag_sort_def)
qed

lemma dag_sort_spec:
  assumes "\<And>ks. mset (ord ks) = mset ks"
  shows "case proxy_groups_dag_sort ord gs of
      Inr gs' \<Rightarrow> mset gs' = mset gs \<and> sorted_deps gs' \<and> distinct (map group_name gs) \<and> deps_acyclic gs
    | Inl e \<Rightarrow> \<not> (distinct (map group_name gs) \<and> deps_acyclic gs)"
proof (cases "distinct (map group_name gs)")
  case False
  then obtain e where "build_graph gs [] = Err e"
    using build_graph_spec [of "[]" "[]" gs] by (auto simp: graph_inv_def)
  with False show ?thesis by (simp add: proxy_groups_dag_sort_def)
next
  case True
  obtain G placed R where inv: "loop_inv gs [] G placed R"
    and sort: "proxy_groups_dag_sort ord gs =
      (if G = [] then Ok placed
       else bind_result (mark_all (ord (map fst G)) G) (\<lambda>G.
         bind_result (prune_loop (select_keys (\<lambda>nd. outdegree nd = 0) ord G) G) (\<lambda>G.
           Err (InvalidConfig (''loop detected in proxy groups: '' @ str_join (CHR '','') (ord (map fst G)))))))"
    using dag_sort_distinct [OF assms True] by blast
  show ?thesis
  proof (cases "G = []")
    case True': True
    note fin = loop_end_empty [OF inv [unfolded True']]
    have "sorted_deps placed" using fin(2) by (rule placed_ok_sorted_deps)
    moreover have "distinct (map group_name placed)" using True fin(1) by (metis mset_eq_imp_distinct_iff mset_map)
    ultimately have "deps_acyclic placed" by (rule sorted_acyclic)
    then have "deps_acyclic gs" using mset_eq_setD [OF fin(1)] by (simp add: deps_acyclic_def)
    with True fin(1) \<open>sorted_deps placed\<close> show ?thesis by (simp add: sort True')
  next
    case False
    then have "\<not> deps_acyclic gs" using loop_end_acyclic [OF inv] by blast
    moreover have "\<exists>e. proxy_groups_dag_sort ord gs = Err e"
      using False by (auto simp: sort bind_result_def split: sum.split)
    ultimately show ?thesis by auto
  qed
qed

section \<open>Properties\<close>

text \<open>
  C18. Sorting the proxy groups is correct and complete, whatever the order in which the hash map is
  iterated: it succeeds exactly if the names are distinct and the references have no loop, and then
  the result has the same groups, each behind all groups it refers to.
\<close>

theorem dag_sort_correct:
  assumes "\<And>ks. mset (ord ks) = mset ks"
  shows "case proxy_groups_dag_sort ord gs of
      Inr gs' \<Rightarrow> mset gs' = mset gs \<and> sorted_deps gs' \<and> distinct (map group_name gs) \<and> deps_acyclic gs
    | Inl e \<Rightarrow> \<not> (distinct (map group_name gs) \<and> deps_acyclic gs)"
  using assms by (rule dag_sort_spec)

definition plain_select :: "string \<Rightarrow> string list \<Rightarrow> unit group" where
  "plain_select nm ps = Select \<lparr> sel_name = nm, sel_proxies = Some ps, sel_use_provider = None, sel_udp = None,
     sel_url = None, sel_icon = None \<rparr>"

theorem dag_sort_correct_witness:
  "case proxy_groups_dag_sort id [plain_select ''a'' [''b'', ''DIRECT''], plain_select ''b'' [''DIRECT'']] of
     Inr gs' \<Rightarrow> mset gs' = mset [plain_select ''a'' [''b'', ''DIRECT''], plain_select ''b'' [''DIRECT'']] \<and>
       sorted_deps gs' \<and> map group_name gs' = [''b'', ''a'']
   | Inl e \<Rightarrow> False"
  using dag_sort_correct [of id "[plain_select ''a'' [''b'', ''DIRECT''], plain_select ''b'' [''DIRECT'']]"]
  by (simp add: proxy_groups_dag_sort_def add_group_def gnode_new_def plain_select_def select_keys_def Let_def)

end
