(* ===== verification/Group_Select.thy ===== *)
theory Group_Select
  imports Proxy_Manager Proxy_Groups "HOL-Library.Multiset"
begin

text \<open>
  How the proxy groups of \<^verbatim>\<open>proxy/group\<close> choose among their proxies: fallback, URL test, selector,
  relay and the three load-balancing strategies, with the handlers that connect through the
  choice. A group's state, the atomic index of a selector or of a URL test group and the mutable
  part of a balancing strategy, is passed along; the registry is read once per call.
\<close>

section \<open>Group handlers\<close>

text \<open>
  The options of a group with the common options flattened. A relay has no UDP flag; its
  operations do not read the field.
\<close>

record group_opts =
  go_name :: string
  go_udp :: bool
  go_connector :: "string option"
  go_url :: "string option"
  go_icon :: "string option"

text \<open>Connect through the chosen proxy, then push the name of the group on the chain.\<close>

definition then_append :: "string \<Rightarrow> 'c chained result \<Rightarrow> 'c chained result" where
  "then_append n r = bind_result r (\<lambda>s. Ok (append_to_chain n s))"

subsection \<open>Fallback\<close>

record 'h fallback_handler =
  fb_opts :: group_opts
  fb_providers :: "'h proxy_provider list"

fun first_alive :: "registry \<Rightarrow> ('h \<Rightarrow> string) \<Rightarrow> 'h list \<Rightarrow> 'h option" where
  "first_alive m nm [] = None"
| "first_alive m nm (p # ps) = (if pm_alive m (nm p) then Some p else first_alive m nm ps)"

definition find_alive_proxy ::
  "('h, 'c) outbound_ops \<Rightarrow> registry \<Rightarrow> nat \<Rightarrow> bool \<Rightarrow> 'h fallback_handler \<Rightarrow>
   'h result \<times> 'h fallback_handler" where
  "find_alive_proxy ops m now touch g =
    (let (proxies, ps) = get_proxies_from_providers ops now touch (fb_providers g)
     in (case first_alive m (ob_name ops) proxies of
           Some p \<Rightarrow> Ok p
         | None \<Rightarrow> (case proxies of [] \<Rightarrow> Err Panic | p # _ \<Rightarrow> Ok p),
         g\<lparr>fb_providers := ps\<rparr>))"

definition fallback_support_udp ::
  "('h, 'c) outbound_ops \<Rightarrow> registry \<Rightarrow> nat \<Rightarrow> 'h fallback_handler \<Rightarrow> bool result" where
  "fallback_support_udp ops m now g =
    (if go_udp (fb_opts g) then Ok True
     else bind_result (fst (find_alive_proxy ops m now False g)) (\<lambda>p. Ok (ob_support_udp ops p)))"

definition fallback_connect_stream ::
  "('h, 'c) outbound_ops \<Rightarrow> registry \<Rightarrow> nat \<Rightarrow> session \<Rightarrow> 'h fallback_handler \<Rightarrow>
   'c chained result \<times> 'h fallback_handler" where
  "fallback_connect_stream ops m now sess g =
    (let (r, g') = find_alive_proxy ops m now True g
     in (then_append (go_name (fb_opts g)) (bind_result r (\<lambda>p. ob_connect_stream ops p sess)), g'))"

definition fallback_connect_datagram ::
  "('h, 'c) outbound_ops \<Rightarrow> registry \<Rightarrow> nat \<Rightarrow> session \<Rightarrow> 'h fallback_handler \<Rightarrow>
   'c chained result \<times> 'h fallback_handler" where
  "fallback_connect_datagram ops m now sess g =
    (let (r, g') = find_alive_proxy ops m now True g
     in (then_append (go_name (fb_opts g)) (bind_result r (\<lambda>p. ob_connect_datagram ops p sess)), g'))"

definition fallback_connect_stream_with ::
  "('h, 'c) outbound_ops \<Rightarrow> registry \<Rightarrow> nat \<Rightarrow> session \<Rightarrow> 'h remote_connector \<Rightarrow>
   'h fallback_handler \<Rightarrow> 'c chained result \<times> 'h fallback_handler" where
  "fallback_connect_stream_with ops m now sess k g =
    (let (r, g') = find_alive_proxy ops m now True g
     in (bind_result r (\<lambda>p. ob_connect_stream_with ops p sess k), g'))"

subsection \<open>URL test\<close>

record 'h urltest_handler =
  ut_opts :: group_opts
  ut_tolerance :: u16
  ut_providers :: "'h proxy_provider list"
  ut_index :: u16

text \<open>
  \<^verbatim>\<open>Duration\<close>: seconds in 64 bits and nanoseconds below a second. Adding panics when the seconds
  overflow.
\<close>

definition duration_max_secs :: nat where
  "duration_max_secs = (2 ^ 64 - 1) * 10 ^ 9"

definition duration_add :: "nat \<Rightarrow> nat \<Rightarrow> nat result" where
  "duration_add a b = (if a + b \<ge> 2 ^ 64 * 10 ^ 9 then Err Panic else Ok (a + b))"

record 'h fastest_state =
  fs_fastest :: 'h
  fs_delay :: nat
  fs_absent :: bool
  fs_index :: u16

text \<open>The test of the last \<open>if\<close>: its disjuncts are evaluated from the left, until one holds.\<close>

definition fastest_moves ::
  "registry \<Rightarrow> ('h \<Rightarrow> string) \<Rightarrow> u16 \<Rightarrow> 'h \<Rightarrow> 'h fastest_state \<Rightarrow> bool result" where
  "fastest_moves m nm tolerance cur st =
    (if fs_absent st \<or> pm_alive m (nm (fs_fastest st)) then Ok True
     else case last_delay m (nm cur) of
       None \<Rightarrow> Ok False
     | Some d \<Rightarrow>
         bind_result (duration_add (fs_delay st) (unat tolerance * 10 ^ 6)) (\<lambda>s. Ok (d > s)))"

definition position_of :: "('h \<Rightarrow> string) \<Rightarrow> string \<Rightarrow> 'h list \<Rightarrow> nat option" where
  "position_of nm n ps =
    (let i = length (takeWhile (\<lambda>p. nm p \<noteq> n) ps) in if i < length ps then Some i else None)"

definition fastest_step ::
  "registry \<Rightarrow> ('h \<Rightarrow> string) \<Rightarrow> u16 \<Rightarrow> 'h list \<Rightarrow> 'h \<Rightarrow> 'h \<Rightarrow> 'h fastest_state \<Rightarrow>
   'h fastest_state result" where
  "fastest_step m nm tolerance proxies cur p st =
    (let st = (if nm p = nm cur then st\<lparr>fs_absent := False\<rparr> else st)
     in if \<not> pm_alive m (nm p) then Ok st
        else let st = (case last_delay m (nm p) of
                         Some d \<Rightarrow> if d < fs_delay st then st\<lparr>fs_fastest := p, fs_delay := d\<rparr> else st
                       | None \<Rightarrow> st)
             in bind_result (fastest_moves m nm tolerance cur st) (\<lambda>b.
                  if b then (case position_of nm (nm (fs_fastest st)) proxies of
                               None \<Rightarrow> Err Panic
                             | Some i \<Rightarrow> Ok (st\<lparr>fs_index := word_of_nat i\<rparr>))
                  else Ok st))"

fun fastest_loop ::
  "registry \<Rightarrow> ('h \<Rightarrow> string) \<Rightarrow> u16 \<Rightarrow> 'h list \<Rightarrow> 'h \<Rightarrow> 'h list \<Rightarrow> 'h fastest_state \<Rightarrow>
   'h fastest_state result" where
  "fastest_loop m nm tolerance proxies cur [] st = Ok st"
| "fastest_loop m nm tolerance proxies cur (p # ps) st =
    bind_result (fastest_step m nm tolerance proxies cur p st)
      (fastest_loop m nm tolerance proxies cur ps)"

definition fastest_of ::
  "registry \<Rightarrow> ('h \<Rightarrow> string) \<Rightarrow> u16 \<Rightarrow> u16 \<Rightarrow> 'h list \<Rightarrow> 'h fastest_state result" where
  "fastest_of m nm tolerance idx proxies =
    (case proxies of
       [] \<Rightarrow> Err Panic
     | first # rest \<Rightarrow>
         let delay = (case last_delay m (nm first) of Some d \<Rightarrow> d | None \<Rightarrow> duration_max_secs);
             cur = unat (min idx (word_of_nat (length proxies) - 1))
         in if rest \<noteq> [] \<and> cur \<ge> length proxies then Err Panic
            else fastest_loop m nm tolerance proxies (proxies ! cur) rest
              \<lparr>fs_fastest = first, fs_delay = delay, fs_absent = True, fs_index = idx\<rparr>)"

definition fastest ::
  "('h, 'c) outbound_ops \<Rightarrow> registry \<Rightarrow> nat \<Rightarrow> bool \<Rightarrow> 'h urltest_handler \<Rightarrow>
   'h result \<times> 'h urltest_handler" where
  "fastest ops m now touch g =
    (let (proxies, ps) = get_proxies_from_providers ops now touch (ut_providers g);
         g' = g\<lparr>ut_providers := ps\<rparr>
     in case fastest_of m (ob_name ops) (ut_tolerance g) (ut_index g) proxies of
          Inl e \<Rightarrow> (Err e, g')
        | Inr st \<Rightarrow> (Ok (fs_fastest st), g'\<lparr>ut_index := fs_index st\<rparr>))"

definition urltest_new ::
  "group_opts \<Rightarrow> u16 \<Rightarrow> 'h proxy_provider list \<Rightarrow> 'h urltest_handler" where
  "urltest_new opts tolerance ps =
    \<lparr>ut_opts = opts, ut_tolerance = tolerance, ut_providers = ps, ut_index = 0\<rparr>"

definition urltest_support_udp ::
  "('h, 'c) outbound_ops \<Rightarrow> registry \<Rightarrow> nat \<Rightarrow> 'h urltest_handler \<Rightarrow>
   bool result \<times> 'h urltest_handler" where
  "urltest_support_udp ops m now g =
    (if go_udp (ut_opts g) then (Ok True, g)
     else let (r, g') = fastest ops m now False g
          in (bind_result r (\<lambda>p. Ok (ob_support_udp ops p)), g'))"

definition urltest_connect_stream ::
  "('h, 'c) outbound_ops \<Rightarrow> registry \<Rightarrow> nat \<Rightarrow> session \<Rightarrow> 'h urltest_handler \<Rightarrow>
   'c chained result \<times> 'h urltest_handler" where
  "urltest_connect_stream ops m now sess g =
    (let (r, g') = fastest ops m now False g
     in (then_append (go_name (ut_opts g)) (bind_result r (\<lambda>p. ob_connect_stream ops p sess)), g'))"

definition urltest_connect_datagram ::
  "('h, 'c) outbound_ops \<Rightarrow> registry \<Rightarrow> nat \<Rightarrow> session \<Rightarrow> 'h urltest_handler \<Rightarrow>
   'c chained result \<times> 'h urltest_handler" where
  "urltest_connect_datagram ops m now sess g =
    (let (r, g') = fastest ops m now False g
     in (then_append (go_name (ut_opts g)) (bind_result r (\<lambda>p. ob_connect_datagram ops p sess)), g'))"

definition urltest_support_connector ::
  "('h, 'c) outbound_ops \<Rightarrow> registry \<Rightarrow> nat \<Rightarrow> 'h urltest_handler \<Rightarrow>
   connector_type result \<times> 'h urltest_handler" where
  "urltest_support_connector ops m now g =
    (let (r, g') = fastest ops m now False g
     in (bind_result r (\<lambda>p. Ok (ob_support_connector ops p)), g'))"

definition urltest_connect_stream_with ::
  "('h, 'c) outbound_ops \<Rightarrow> registry \<Rightarrow> nat \<Rightarrow> session \<Rightarrow> 'h remote_connector \<Rightarrow>
   'h urltest_handler \<Rightarrow> 'c chained result \<times> 'h urltest_handler" where
  "urltest_connect_stream_with ops m now sess k g =
    (let (r, g') = fastest ops m now True g
     in (then_append (go_name (ut_opts g))
           (bind_result r (\<lambda>p. ob_connect_stream_with ops p sess k)), g'))"

definition urltest_connect_datagram_with ::
  "('h, 'c) outbound_ops \<Rightarrow> registry \<Rightarrow> nat \<Rightarrow> session \<Rightarrow> 'h remote_connector \<Rightarrow>
   'h urltest_handler \<Rightarrow> 'c chained result \<times> 'h urltest_handler" where
  "urltest_connect_datagram_with ops m now sess k g =
    (let (r, g') = fastest ops m now True g
     in (bind_result r (\<lambda>p. ob_connect_datagram_with ops p sess k), g'))"

subsection \<open>Selector\<close>

record 'h selector_handler =
  sl_opts :: group_opts
  sl_providers :: "'h proxy_provider list"
  sl_index :: u16

definition selector_new ::
  "('h, 'c) outbound_ops \<Rightarrow> group_opts \<Rightarrow> 'h proxy_provider list \<Rightarrow> string option \<Rightarrow>
   'h selector_handler result" where
  "selector_new ops opts ps selected =
    (case ps of
       [] \<Rightarrow> Err Panic
     | p # _ \<Rightarrow>
         let i = (case selected of
                    None \<Rightarrow> 0
                  | Some s \<Rightarrow> (case position_of (ob_name ops) s (pp_proxies p) of
                                 Some i \<Rightarrow> i | None \<Rightarrow> 0))
         in Ok \<lparr>sl_opts = opts, sl_providers = ps, sl_index = word_of_nat i\<rparr>)"

definition selected_proxy ::
  "('h, 'c) outbound_ops \<Rightarrow> nat \<Rightarrow> bool \<Rightarrow> 'h selector_handler \<Rightarrow>
   'h result \<times> 'h selector_handler" where
  "selected_proxy ops now touch g =
    (let (proxies, ps) = get_proxies_from_providers ops now touch (sl_providers g);
         i = unat (sl_index g)
     in (if i < length proxies then Ok (proxies ! i)
         else case proxies of [] \<Rightarrow> Err Panic | p # _ \<Rightarrow> Ok p,
         g\<lparr>sl_providers := ps\<rparr>))"

definition select ::
  "('h, 'c) outbound_ops \<Rightarrow> nat \<Rightarrow> string \<Rightarrow> 'h selector_handler \<Rightarrow>
   unit result \<times> 'h selector_handler" where
  "select ops now n g =
    (let proxies = fst (get_proxies_from_providers ops now False (sl_providers g))
     in case position_of (ob_name ops) n proxies of
          Some i \<Rightarrow> (Ok (), g\<lparr>sl_index := word_of_nat i\<rparr>)
        | None \<Rightarrow> (Err (Other (''proxy '' @ n @ '' not found'')), g))"

definition selector_support_udp ::
  "('h, 'c) outbound_ops \<Rightarrow> nat \<Rightarrow> 'h selector_handler \<Rightarrow> bool result" where
  "selector_support_udp ops now g =
    (if \<not> go_udp (sl_opts g) then Ok False
     else bind_result (fst (selected_proxy ops now False g)) (\<lambda>p. Ok (ob_support_udp ops p)))"

definition selector_connect_stream ::
  "('h, 'c) outbound_ops \<Rightarrow> nat \<Rightarrow> session \<Rightarrow> 'h selector_handler \<Rightarrow>
   'c chained result \<times> 'h selector_handler" where
  "selector_connect_stream ops now sess g =
    (let (r, g') = selected_proxy ops now True g
     in (then_append (go_name (sl_opts g)) (bind_result r (\<lambda>p. ob_connect_stream ops p sess)), g'))"

definition selector_connect_datagram ::
  "('h, 'c) outbound_ops \<Rightarrow> nat \<Rightarrow> session \<Rightarrow> 'h selector_handler \<Rightarrow>
   'c chained result \<times> 'h selector_handler" where
  "selector_connect_datagram ops now sess g =
    (let (r, g') = selected_proxy ops now True g
     in (then_append (go_name (sl_opts g)) (bind_result r (\<lambda>p. ob_connect_datagram ops p sess)), g'))"

definition selector_connect_stream_with ::
  "('h, 'c) outbound_ops \<Rightarrow> nat \<Rightarrow> session \<Rightarrow> 'h remote_connector \<Rightarrow> 'h selector_handler \<Rightarrow>
   'c chained result \<times> 'h selector_handler" where
  "selector_connect_stream_with ops now sess k g =
    (let (r, g') = selected_proxy ops now True g
     in (then_append (go_name (sl_opts g))
           (bind_result r (\<lambda>p. ob_connect_stream_with ops p sess k)), g'))"

definition selector_connect_datagram_with ::
  "('h, 'c) outbound_ops \<Rightarrow> nat \<Rightarrow> session \<Rightarrow> 'h remote_connector \<Rightarrow> 'h selector_handler \<Rightarrow>
   'c chained result \<times> 'h selector_handler" where
  "selector_connect_datagram_with ops now sess k g =
    (let (r, g') = selected_proxy ops now True g
     in (bind_result r (\<lambda>p. ob_connect_datagram_with ops p sess k), g'))"

subsection \<open>Relay\<close>

record 'h relay_handler =
  rl_opts :: group_opts
  rl_providers :: "'h proxy_provider list"

fun relay_udp :: "('h, 'c) outbound_ops \<Rightarrow> 'h list \<Rightarrow> bool" where
  "relay_udp ops [] = True"
| "relay_udp ops (p # ps) =
    (case ob_support_connector ops p of
       ConnAll \<Rightarrow> True
     | _ \<Rightarrow> if \<not> ob_support_udp ops p then False else relay_udp ops ps)"

definition relay_support_udp ::
  "('h, 'c) outbound_ops \<Rightarrow> nat \<Rightarrow> 'h relay_handler \<Rightarrow> bool" where
  "relay_support_udp ops now g =
    relay_udp ops (fst (get_proxies_from_providers ops now False (rl_providers g)))"

definition relay_connector :: "'h list \<Rightarrow> 'h remote_connector" where
  "relay_connector ps = fold ProxyConnector ps DirectConnector"

text \<open>
  With several proxies the stream of the last one, itself a chained stream, is wrapped again, so
  the chain of the result starts afresh.
\<close>

definition relay_connect_stream ::
  "('h, 'c) outbound_ops \<Rightarrow> nat \<Rightarrow> session \<Rightarrow> 'h relay_handler \<Rightarrow>
   'c chained result \<times> 'h relay_handler" where
  "relay_connect_stream ops now sess g =
    (let (proxies, ps) = get_proxies_from_providers ops now True (rl_providers g);
         g' = g\<lparr>rl_providers := ps\<rparr>
     in case proxies of
          [] \<Rightarrow> (Err (Other ''no proxy available''), g')
        | [p] \<Rightarrow> (ob_connect_stream ops p sess, g')
        | _ \<Rightarrow>
            (bind_result
               (ob_connect_stream_with ops (last proxies) sess (relay_connector (butlast proxies)))
               (\<lambda>s. Ok (append_to_chain (go_name (rl_opts g)) (chained_new (ch_inner s)))), g'))"

definition relay_connect_datagram ::
  "('h, 'c) outbound_ops \<Rightarrow> nat \<Rightarrow> session \<Rightarrow> 'h relay_handler \<Rightarrow>
   'c chained result \<times> 'h relay_handler" where
  "relay_connect_datagram ops now sess g =
    (let (proxies, ps) = get_proxies_from_providers ops now True (rl_providers g);
         g' = g\<lparr>rl_providers := ps\<rparr>
     in case proxies of
          [] \<Rightarrow> (Err (Other ''no proxy available''), g')
        | [p] \<Rightarrow> (ob_connect_datagram ops p sess, g')
        | _ \<Rightarrow>
            (bind_result
               (ob_connect_datagram_with ops (last proxies) sess (relay_connector (butlast proxies)))
               (\<lambda>s. Ok (append_to_chain (go_name (rl_opts g)) (chained_new (ch_inner s)))), g'))"

section \<open>Load balancing\<close>

subsection \<open>Jump hash\<close>

text \<open>
  The quotient of two integers in double precision, truncated to an integer: the quotient is
  rounded to 53 significant bits, to the nearest, ties to even. Here the operands are exact (the
  dividend is at most \<open>2 ^ 31\<close> times a power of two and the divisor at most \<open>2 ^ 31\<close>) and the
  quotient is at least one.
\<close>

definition round_div :: "nat \<Rightarrow> nat \<Rightarrow> nat" where
  "round_div a m =
    (let q = a div m; r = a mod m
     in if 2 * r < m \<or> 2 * r = m \<and> even q then q else q + 1)"

fun bit_length :: "nat \<Rightarrow> nat" where
  "bit_length n = (if n = 0 then 0 else Suc (bit_length (n div 2)))"

definition f64_quot :: "nat \<Rightarrow> nat \<Rightarrow> nat" where
  "f64_quot a m =
    (let e = bit_length (a div m)
     in if e \<le> 53 then round_div (a * 2 ^ (53 - e)) m div 2 ^ (53 - e)
        else round_div a (m * 2 ^ (e - 53)) * 2 ^ (e - 53))"

definition jump_key :: "u64 \<Rightarrow> u64" where
  "jump_key k = k * 2862933555777941757 + 1"

definition jump_next :: "u64 \<Rightarrow> nat \<Rightarrow> nat" where
  "jump_next k b = f64_quot ((b + 1) * 2 ^ 31) (unat (drop_bit 33 k) + 1)"

lemma round_div_ge: "a div m \<le> round_div a m"
  by (simp add: round_div_def Let_def)

lemma bit_length_power: "0 < n \<Longrightarrow> 2 ^ (bit_length n - 1) \<le> n"
proof (induction n rule: bit_length.induct)
  case (1 n)
  show ?case
  proof (cases "n div 2 = 0")
    case False
    with 1 have "2 ^ (bit_length (n div 2) - 1) \<le> n div 2" by simp
    moreover have "0 < bit_length (n div 2)"
      using False by (subst bit_length.simps) simp
    ultimately show ?thesis
      using 1(2) by (subst bit_length.simps) (cases "bit_length (n div 2)"; simp)
  qed (use 1(2) in \<open>simp add: bit_length.simps [of n] bit_length.simps [of "n div 2"]\<close>)
qed

declare bit_length.simps [simp del]

lemma f64_quot_ge:
  assumes "0 < m" "m \<le> 2 ^ 31" "c \<le> 2 ^ 31"
  shows "c \<le> f64_quot (c * 2 ^ 31) m"
proof -
  define q e where "q = c * 2 ^ 31 div m" and "e = bit_length q"
  have quot: "f64_quot (c * 2 ^ 31) m =
    (if e \<le> 53 then round_div (c * 2 ^ 31 * 2 ^ (53 - e)) m div 2 ^ (53 - e)
     else round_div (c * 2 ^ 31) (m * 2 ^ (e - 53)) * 2 ^ (e - 53))"
    by (simp only: f64_quot_def Let_def q_def e_def)
  have q: "c \<le> q"
    using assms by (simp add: q_def less_eq_div_iff_mult_less_eq)
  show ?thesis
  proof (cases "e \<le> 53")
    case True
    define s where "s = 53 - e"
    have "q = c * 2 ^ 31 * 2 ^ s div m div 2 ^ s"
      using assms(1) by (simp add: q_def div_mult2_eq [symmetric])
    also have "\<dots> \<le> round_div (c * 2 ^ 31 * 2 ^ s) m div 2 ^ s"
      by (rule div_le_mono) (rule round_div_ge)
    finally show ?thesis
      using True q by (simp only: quot s_def if_True)
  next
    case False
    define t where "t = e - 53"
    have "q \<noteq> 0"
    proof
      assume "q = 0"
      then have "e = 0" by (simp add: e_def bit_length.simps [of 0])
      with False show False by simp
    qed
    then have "2 ^ (t + 52) \<le> q"
      using bit_length_power [of q] False by (simp add: e_def t_def)
    then have "(2::nat) ^ 52 \<le> q div 2 ^ t"
      by (simp add: less_eq_div_iff_mult_less_eq power_add mult.commute)
    also have "q div 2 ^ t \<le> round_div (c * 2 ^ 31) (m * 2 ^ t)"
      using round_div_ge [of "c * 2 ^ 31" "m * 2 ^ t"] by (simp add: q_def div_mult2_eq)
    finally have "2 ^ 52 \<le> round_div (c * 2 ^ 31) (m * 2 ^ t)" .
    then have "2 ^ 52 * 1 \<le> round_div (c * 2 ^ 31) (m * 2 ^ t) * 2 ^ t"
      by (rule mult_le_mono) simp
    moreover have "c \<le> 2 ^ 52 * 1" using assms(3) by simp
    ultimately have "c \<le> round_div (c * 2 ^ 31) (m * 2 ^ t) * 2 ^ t" by (rule le_trans [rotated])
    then show ?thesis
      using False by (simp only: quot t_def if_False)
  qed
qed

lemma drop_bit_33: "unat (drop_bit 33 (k :: u64)) < 2 ^ 31"
proof -
  have "unat k < 2 ^ 64" using unsigned_less [of k] by simp
  then have "unat k div 2 ^ 33 < 2 ^ 31" by (simp add: div_less_iff_less_mult)
  moreover have "unat (drop_bit 33 k) = unat k div 2 ^ 33"
    unfolding unat_drop_bit_eq by (rule drop_bit_eq_div)
  ultimately show ?thesis by (simp only:)
qed

lemma jump_next_greater: "b < 2 ^ 31 \<Longrightarrow> b < jump_next k b"
  using f64_quot_ge [of "unat (drop_bit 33 k) + 1" "b + 1"] drop_bit_33 [of k]
  by (simp add: jump_next_def)

lemma sint_i32_less: "sint (w :: 32 word) < 2 ^ 31"
  using sint_lt [of w] by simp

text \<open>
  \<open>b\<close> is the bucket chosen so far (\<open>-1\<close> at first), \<open>j\<close> the next candidate; the bound is the
  signed value of a 32-bit word.
\<close>

function jump_loop :: "u64 \<Rightarrow> int \<Rightarrow> nat \<Rightarrow> 32 word \<Rightarrow> int" where
  "jump_loop k b j buckets =
    (if int j < sint buckets
     then jump_loop (jump_key k) (int j) (jump_next (jump_key k) j) buckets
     else b)"
  by pat_completeness auto

termination
proof (relation "measure (\<lambda>(k, b, j, buckets). nat (sint buckets) - j)", goal_cases)
  case (2 k b j buckets)
  then have "int j < int (2 ^ 31)" using sint_i32_less [of buckets] by simp
  then have "j < 2 ^ 31" by (simp only: of_nat_less_iff)
  then have "j < jump_next (jump_key k) j" by (rule jump_next_greater)
  with 2 show ?case by simp
qed simp

declare jump_loop.simps [simp del]

definition jump_hash :: "u64 \<Rightarrow> 32 word \<Rightarrow> 32 word" where
  "jump_hash k buckets = word_of_int (jump_loop k (-1) 0 buckets)"

text \<open>\<^verbatim>\<open>as usize\<close> extends the sign; \<^verbatim>\<open>get\<close> is the checked index.\<close>

definition usize_of_i32 :: "32 word \<Rightarrow> nat" where
  "usize_of_i32 w = unat (scast w :: u64)"

definition get_opt :: "'h list \<Rightarrow> nat \<Rightarrow> 'h option" where
  "get_opt ps i = (if i < length ps then Some (ps ! i) else None)"

subsection \<open>Strategies\<close>

text \<open>
  \<open>etld\<close> is the effective top-level domain plus one label of the public suffix crate, \<open>murmur\<close>
  the hash of the murmur3 crate with seed zero.
\<close>

definition get_key :: "(string \<Rightarrow> string option) \<Rightarrow> session \<Rightarrow> string" where
  "get_key etld sess =
    (case destination sess of
       Ip a \<Rightarrow> show_ip (socket_ip a)
     | Domain host _ \<Rightarrow> (case etld host of Some s \<Rightarrow> s | None \<Rightarrow> []))"

definition get_key_src_and_dst :: "(string \<Rightarrow> string option) \<Rightarrow> session \<Rightarrow> string" where
  "get_key_src_and_dst etld sess =
    show_ip (socket_ip (source sess)) @ ''-'' @ get_key etld sess"

text \<open>Round robin: the captured index; the remainder by zero panics.\<close>

definition strategy_rr :: "'h list \<Rightarrow> nat \<Rightarrow> 'h result \<times> nat" where
  "strategy_rr proxies idx =
    (if proxies = [] then (Err Panic, idx)
     else let i = (idx + 1) mod length proxies in (Ok (proxies ! i), i))"

fun hashring_loop :: "nat \<Rightarrow> u64 \<Rightarrow> 'h list \<Rightarrow> 'h result" where
  "hashring_loop 0 k proxies = Err (Other ''no proxy found'')"
| "hashring_loop (Suc n) k proxies =
    (case get_opt proxies (usize_of_i32 (jump_hash k (word_of_nat (length proxies)))) of
       Some p \<Rightarrow> Ok p
     | None \<Rightarrow> hashring_loop n k proxies)"

definition strategy_consistent_hashring ::
  "(string \<Rightarrow> string option) \<Rightarrow> (string \<Rightarrow> u32) \<Rightarrow> 'h list \<Rightarrow> session \<Rightarrow> 'h result" where
  "strategy_consistent_hashring etld murmur proxies sess =
    hashring_loop 5 (ucast (murmur (get_key etld sess))) proxies"

text \<open>
  Sticky sessions. The cache of the LRU crate is a type \<open>'l\<close> with the two operations the code
  calls, each at the time of the call; \<open>clock i\<close> is the \<open>i\<close>-th reading of the system clock.
\<close>

record 'l sticky_cache =
  sc_get :: "nat \<Rightarrow> u64 \<Rightarrow> 'l \<Rightarrow> nat option \<times> 'l"
  sc_insert :: "nat \<Rightarrow> u64 \<Rightarrow> nat \<Rightarrow> 'l \<Rightarrow> 'l"

definition sticky_index :: "u64 \<Rightarrow> u64 \<Rightarrow> 'h list \<Rightarrow> nat" where
  "sticky_index k t proxies = usize_of_i32 (jump_hash (k + t) (word_of_nat (length proxies)))"

fun sticky_loop ::
  "'l sticky_cache \<Rightarrow> nat \<Rightarrow> (nat \<Rightarrow> u64) \<Rightarrow> registry \<Rightarrow> ('h \<Rightarrow> string) \<Rightarrow> u64 \<Rightarrow> 'h list \<Rightarrow>
   nat \<Rightarrow> bool \<Rightarrow> nat \<Rightarrow> nat \<Rightarrow> nat \<Rightarrow> 'l \<Rightarrow> 'h result \<times> 'l" where
  "sticky_loop lib now clock m nm k proxies start hit 0 i idx c =
    (Err (Other ''no proxy found''), sc_insert lib now k 0 c)"
| "sticky_loop lib now clock m nm k proxies start hit (Suc n) i idx c =
    (case get_opt proxies idx of
       Some p \<Rightarrow>
         if pm_alive m (nm p)
         then (Ok p, if idx \<noteq> start \<or> \<not> hit then sc_insert lib now k idx c else c)
         else sticky_loop lib now clock m nm k proxies start hit n (i + 1)
                (sticky_index k (clock i) proxies) c
     | None \<Rightarrow>
         sticky_loop lib now clock m nm k proxies start hit n (i + 1)
           (sticky_index k (clock i) proxies) c)"

definition strategy_sticky_session ::
  "(string \<Rightarrow> string option) \<Rightarrow> (string \<Rightarrow> u32) \<Rightarrow> 'l sticky_cache \<Rightarrow> nat \<Rightarrow> (nat \<Rightarrow> u64) \<Rightarrow>
   registry \<Rightarrow> ('h \<Rightarrow> string) \<Rightarrow> 'h list \<Rightarrow> session \<Rightarrow> 'l \<Rightarrow> 'h result \<times> 'l" where
  "strategy_sticky_session etld murmur lib now clock m nm proxies sess c =
    (let k = ucast (murmur (get_key_src_and_dst etld sess));
         (cached, c) = sc_get lib now k c
     in case cached of
          Some idx \<Rightarrow> sticky_loop lib now clock m nm k proxies idx True 5 0 idx c
        | None \<Rightarrow>
            let idx = sticky_index k (clock 0) proxies
            in sticky_loop lib now clock m nm k proxies idx False 5 1 idx c)"

subsection \<open>The load-balancing handler\<close>

datatype 'l lb_strategy_fn = RrFn nat | HashringFn | StickyFn 'l

record ('h, 'l) lb_handler =
  lb_opts :: group_opts
  lb_providers :: "'h proxy_provider list"
  lb_fn :: "'l lb_strategy_fn"

record ('l) lb_env =
  le_etld :: "string \<Rightarrow> string option"
  le_murmur :: "string \<Rightarrow> u32"
  le_cache :: "'l sticky_cache"
  le_now :: nat
  le_clock :: "nat \<Rightarrow> u64"

definition lb_new ::
  "group_opts \<Rightarrow> lb_strategy \<Rightarrow> 'l \<Rightarrow> 'h proxy_provider list \<Rightarrow> ('h, 'l) lb_handler" where
  "lb_new opts strategy empty_cache ps =
    \<lparr>lb_opts = opts, lb_providers = ps,
     lb_fn = (case strategy of
                ConsistentHashing \<Rightarrow> HashringFn
              | RoundRobin \<Rightarrow> RrFn 0
              | StickySession \<Rightarrow> StickyFn empty_cache)\<rparr>"

definition run_strategy ::
  "('h, 'c) outbound_ops \<Rightarrow> 'l lb_env \<Rightarrow> registry \<Rightarrow> session \<Rightarrow> 'h list \<Rightarrow> 'l lb_strategy_fn \<Rightarrow>
   'h result \<times> 'l lb_strategy_fn" where
  "run_strategy ops env m sess proxies fn =
    (case fn of
       RrFn i \<Rightarrow> apsnd RrFn (strategy_rr proxies i)
     | HashringFn \<Rightarrow>
         (strategy_consistent_hashring (le_etld env) (le_murmur env) proxies sess, HashringFn)
     | StickyFn c \<Rightarrow>
         apsnd StickyFn (strategy_sticky_session (le_etld env) (le_murmur env) (le_cache env)
           (le_now env) (le_clock env) m (ob_name ops) proxies sess c))"

definition lb_choose ::
  "('h, 'c) outbound_ops \<Rightarrow> 'l lb_env \<Rightarrow> registry \<Rightarrow> session \<Rightarrow> ('h, 'l) lb_handler \<Rightarrow>
   'h result \<times> ('h, 'l) lb_handler" where
  "lb_choose ops env m sess g =
    (let proxies = fst (get_proxies_from_providers ops (le_now env) False (lb_providers g));
         (r, fn) = run_strategy ops env m sess proxies (lb_fn g)
     in (r, g\<lparr>lb_fn := fn\<rparr>))"

definition lb_connect_stream ::
  "('h, 'c) outbound_ops \<Rightarrow> 'l lb_env \<Rightarrow> registry \<Rightarrow> session \<Rightarrow> ('h, 'l) lb_handler \<Rightarrow>
   'c chained result \<times> ('h, 'l) lb_handler" where
  "lb_connect_stream ops env m sess g =
    (let (r, g') = lb_choose ops env m sess g
     in (then_append (go_name (lb_opts g)) (bind_result r (\<lambda>p. ob_connect_stream ops p sess)), g'))"

definition lb_connect_datagram ::
  "('h, 'c) outbound_ops \<Rightarrow> 'l lb_env \<Rightarrow> registry \<Rightarrow> session \<Rightarrow> ('h, 'l) lb_handler \<Rightarrow>
   'c chained result \<times> ('h, 'l) lb_handler" where
  "lb_connect_datagram ops env m sess g =
    (let (r, g') = lb_choose ops env m sess g
     in (then_append (go_name (lb_opts g)) (bind_result r (\<lambda>p. ob_connect_datagram ops p sess)), g'))"

definition lb_connect_stream_with ::
  "('h, 'c) outbound_ops \<Rightarrow> 'l lb_env \<Rightarrow> registry \<Rightarrow> session \<Rightarrow> 'h remote_connector \<Rightarrow>
   ('h, 'l) lb_handler \<Rightarrow> 'c chained result \<times> ('h, 'l) lb_handler" where
  "lb_connect_stream_with ops env m sess k g =
    (let (r, g') = lb_choose ops env m sess g
     in (bind_result r (\<lambda>p. ob_connect_stream_with ops p sess k), g'))"

section \<open>Facts\<close>

subsection \<open>Jump hash\<close>

lemma jump_loop_stop: "sint buckets \<le> int j \<Longrightarrow> jump_loop k b j buckets = b"
  by (simp add: jump_loop.simps)

lemma jump_loop_bounds:
  "-1 \<le> b \<Longrightarrow> b < sint buckets \<Longrightarrow> -1 \<le> jump_loop k b j buckets \<and> jump_loop k b j buckets < sint buckets"
  by (induction k b j buckets rule: jump_loop.induct) (simp add: jump_loop.simps)

lemma jump_loop_nonneg: "0 \<le> b \<Longrightarrow> 0 \<le> jump_loop k b j buckets"
  by (induction k b j buckets rule: jump_loop.induct) (simp add: jump_loop.simps)

text \<open>One bucket more: the choice stays, or it becomes the new bucket.\<close>

lemma jump_loop_Suc:
  assumes "sint buckets' = sint buckets + 1" "0 \<le> sint buckets"
  shows "jump_loop k b j buckets' = jump_loop k b j buckets \<or>
    jump_loop k b j buckets' = sint buckets"
  using assms
proof (induction k b j buckets rule: jump_loop.induct)
  case (1 k b j buckets)
  consider "int j < sint buckets" | "int j = sint buckets" | "int j > sint buckets" by linarith
  then show ?case
  proof cases
    case 1
    with "1.IH" "1.prems" show ?thesis
      by (simp add: jump_loop.simps [of k b j])
  next
    case 2
    then have "int j < int (2 ^ 31)" using sint_i32_less [of buckets] by simp
    then have "j < 2 ^ 31" by (simp only: of_nat_less_iff)
    then have "j < jump_next (jump_key k) j" by (rule jump_next_greater)
    with 2 "1.prems" show ?thesis
      by (simp add: jump_loop.simps [of k b j buckets'] jump_loop_stop)
  next
    case 3
    with "1.prems" show ?thesis by (simp add: jump_loop_stop)
  qed
qed

lemma sint_of_nat_i32: "n < 2 ^ 31 \<Longrightarrow> sint (word_of_nat n :: 32 word) = int n"
  by (simp add: signed_of_nat signed_take_bit_int_eq_self)

lemma usize_of_i32_of_int:
  assumes "0 \<le> b" "b < 2 ^ 31"
  shows "int (usize_of_i32 (word_of_int b)) = b"
proof -
  have "sint (word_of_int b :: 32 word) = b"
    using assms by (simp add: signed_of_int signed_take_bit_int_eq_self)
  then show ?thesis
    using assms by (simp add: usize_of_i32_def scast_eq unsigned_of_int take_bit_int_eq_self)
qed

lemma jump_hash_index:
  assumes "0 < n" "n < 2 ^ 31"
  shows "int (usize_of_i32 (jump_hash k (word_of_nat n))) = jump_loop k (-1) 0 (word_of_nat n)"
    and "usize_of_i32 (jump_hash k (word_of_nat n)) < n"
proof -
  let ?l = "jump_loop k (-1) 0 (word_of_nat n)"
  have n: "sint (word_of_nat n :: 32 word) = int n" using assms(2) by (rule sint_of_nat_i32)
  have "0 \<le> ?l"
    using assms n jump_loop_nonneg [of 0] by (subst jump_loop.simps) simp
  moreover have "?l < int n" using jump_loop_bounds [of "-1" "word_of_nat n" k 0] n assms by simp
  moreover have "int n < 2 ^ 31" using assms(2) by simp
  ultimately have *: "int (usize_of_i32 (jump_hash k (word_of_nat n))) = ?l" and "?l < int n"
    unfolding jump_hash_def by (auto intro: usize_of_i32_of_int)
  then show "int (usize_of_i32 (jump_hash k (word_of_nat n))) = ?l"
    and "usize_of_i32 (jump_hash k (word_of_nat n)) < n" by simp_all
qed

lemma jump_hash_Suc:
  assumes "0 < n" "n + 1 < 2 ^ 31"
  shows "usize_of_i32 (jump_hash k (word_of_nat (n + 1))) \<in>
    {usize_of_i32 (jump_hash k (word_of_nat n)), n}"
proof -
  have "sint (word_of_nat (n + 1) :: 32 word) = int (n + 1)" "sint (word_of_nat n :: 32 word) = int n"
    using assms by (simp_all only: sint_of_nat_i32)
  then have "jump_loop k (-1) 0 (word_of_nat (n + 1)) = jump_loop k (-1) 0 (word_of_nat n) \<or>
    jump_loop k (-1) 0 (word_of_nat (n + 1)) = int n"
    using jump_loop_Suc [of "word_of_nat (n + 1)" "word_of_nat n" k "-1" 0] by simp
  then have "int (usize_of_i32 (jump_hash k (word_of_nat (n + 1)))) \<in>
    {int (usize_of_i32 (jump_hash k (word_of_nat n))), int n}"
    using assms by (simp only: jump_hash_index) auto
  then show ?thesis by auto
qed

lemma hashring_loop_choice:
  assumes "ps \<noteq> []" "length ps < 2 ^ 31"
  shows "hashring_loop 5 k ps = Ok (ps ! usize_of_i32 (jump_hash k (word_of_nat (length ps))))"
proof -
  have "usize_of_i32 (jump_hash k (word_of_nat (length ps))) < length ps"
    using assms by (intro jump_hash_index(2)) auto
  moreover have "(5 :: nat) = Suc 4" by simp
  ultimately show ?thesis by (simp only: hashring_loop.simps get_opt_def) simp
qed

subsection \<open>Round robin\<close>

text \<open>The choices of \<open>n\<close> calls in a row over the same proxies.\<close>

fun rr_run :: "nat \<Rightarrow> 'h list \<Rightarrow> nat \<Rightarrow> 'h result list \<times> nat" where
  "rr_run 0 ps i = ([], i)"
| "rr_run (Suc n) ps i =
    (let (r, i') = strategy_rr ps i; (rs, i'') = rr_run n ps i' in (r # rs, i''))"

lemma Suc_mod_add: "Suc (Suc i mod n + k) mod n = Suc (Suc (i + k)) mod (n :: nat)"
  using mod_add_left_eq [of "Suc i" n "Suc k"] by simp

lemma rr_run_nth:
  assumes "ps \<noteq> []"
  shows "fst (rr_run n ps i) = map (\<lambda>k. Ok (ps ! ((Suc i + k) mod length ps))) [0..<n]"
    and "0 < n \<Longrightarrow> snd (rr_run n ps i) = (i + n) mod length ps"
proof (induction n arbitrary: i)
  case (Suc n)
  { case 1
    show ?case
      using assms Suc.IH(1)
      by (simp add: strategy_rr_def Let_def case_prod_beta map_upt_Suc Suc_mod_add
          del: upt_Suc map_append) }
  { case 2
    show ?case
      using assms Suc.IH(2) [of "Suc i mod length ps"]
      by (cases n) (simp_all add: strategy_rr_def Let_def case_prod_beta Suc_mod_add) }
qed simp_all

lemma mset_rotate: "mset (rotate n xs) = mset xs"
  by (metis append_take_drop_id mset_append rotate_drop_take union_commute)

lemma rr_run_round:
  assumes "i < length ps"
  shows "rr_run (length ps) ps i = (map Ok (rotate (Suc i) ps), i)"
proof (rule prod_eqI)
  show "fst (rr_run (length ps) ps i) = fst (map Ok (rotate (Suc i) ps), i)"
    using assms by (subst rr_run_nth(1)) (auto intro!: nth_equalityI simp: nth_rotate simp del: rotate_Suc)
  show "snd (rr_run (length ps) ps i) = snd (map Ok (rotate (Suc i) ps), i)"
    using assms by (subst rr_run_nth(2)) auto
qed

subsection \<open>Sticky sessions\<close>

lemma sticky_loop_Ok:
  "fst (sticky_loop lib now clock m nm k ps start hit n i idx c) = Ok p \<Longrightarrow>
   p \<in> set ps \<and> pm_alive m (nm p)"
  by (induction n arbitrary: i idx)
    (auto simp: get_opt_def split: option.splits if_splits)

lemma sticky_loop_hit:
  "idx < length ps \<Longrightarrow> pm_alive m (nm (ps ! idx)) \<Longrightarrow>
   sticky_loop lib now clock m nm k ps idx True (Suc n) i idx c = (Ok (ps ! idx), c)"
  by (simp add: get_opt_def)

subsection \<open>Position of a name\<close>

lemma position_of_SomeD:
  assumes "position_of nm n ps = Some i"
  shows "i < length ps" "nm (ps ! i) = n"
proof -
  show i: "i < length ps" using assms by (auto simp: position_of_def Let_def split: if_splits)
  show "nm (ps ! i) = n"
    using assms i nth_length_takeWhile [of "\<lambda>p. nm p \<noteq> n" ps]
    by (auto simp: position_of_def Let_def split: if_splits)
qed

lemma position_of_None: "position_of nm n ps = None \<longleftrightarrow> n \<notin> nm ` set ps"
proof -
  have "length (takeWhile (\<lambda>p. nm p \<noteq> n) ps) < length ps \<longleftrightarrow> (\<exists>p\<in>set ps. nm p = n)"
    by (induction ps) auto
  then show ?thesis by (auto simp: position_of_def Let_def)
qed

subsection \<open>URL test\<close>

definition delay_or_max :: "registry \<Rightarrow> ('h \<Rightarrow> string) \<Rightarrow> 'h \<Rightarrow> nat" where
  "delay_or_max m nm p = (case last_delay m (nm p) of Some d \<Rightarrow> d | None \<Rightarrow> duration_max_secs)"

definition first_min :: "('h \<Rightarrow> nat) \<Rightarrow> 'h list \<Rightarrow> 'h \<Rightarrow> bool" where
  "first_min f ps p \<longleftrightarrow>
    (\<exists>ys zs. ps = ys @ p # zs \<and> (\<forall>y\<in>set ys. f p < f y) \<and> (\<forall>z\<in>set zs. f p \<le> f z))"

lemma first_min_mem: "first_min f ps p \<Longrightarrow> p \<in> set ps"
  by (auto simp: first_min_def)

lemma first_min_le: "first_min f ps p \<Longrightarrow> q \<in> set ps \<Longrightarrow> f p \<le> f q"
  unfolding first_min_def by (fastforce dest: less_imp_le)

lemma first_min_single: "first_min f [p] p"
  unfolding first_min_def by (intro exI [of _ "[]"]) simp

lemma first_min_snoc_keep: "first_min f ps p \<Longrightarrow> f p \<le> f q \<Longrightarrow> first_min f (ps @ [q]) p"
  unfolding first_min_def
  by (elim exE conjE, rule_tac x = ys in exI, rule_tac x = "zs @ [q]" in exI) auto

lemma first_min_snoc_new: "first_min f ps p \<Longrightarrow> f q < f p \<Longrightarrow> first_min f (ps @ [q]) q"
  unfolding first_min_def
  by (elim exE conjE, rule_tac x = ps in exI, rule_tac x = "[]" in exI) fastforce

lemma first_min_unique:
  assumes "first_min f ps p" "first_min f ps q"
  shows "p = q"
proof -
  obtain ys zs where p: "ps = ys @ p # zs" "\<forall>y\<in>set ys. f p < f y" "\<forall>z\<in>set zs. f p \<le> f z"
    using assms(1) by (auto simp: first_min_def)
  obtain us vs where q: "ps = us @ q # vs" "\<forall>y\<in>set us. f q < f y" "\<forall>z\<in>set vs. f q \<le> f z"
    using assms(2) by (auto simp: first_min_def)
  have "f p \<le> f q" "f q \<le> f p"
    using first_min_le [OF assms(1) first_min_mem [OF assms(2)]]
      first_min_le [OF assms(2) first_min_mem [OF assms(1)]] .
  then have "p \<notin> set us" "q \<notin> set ys" using p q by auto
  then show ?thesis
    using p(1) q(1) by (auto simp: append_eq_append_conv2 append_eq_Cons_conv Cons_eq_append_conv)
qed

text \<open>The loop after the prefix \<open>pre\<close> of the proxies.\<close>

definition fastest_inv ::
  "registry \<Rightarrow> ('h \<Rightarrow> string) \<Rightarrow> 'h \<Rightarrow> 'h list \<Rightarrow> 'h fastest_state \<Rightarrow> bool" where
  "fastest_inv m nm cur pre st \<longleftrightarrow>
    first_min (delay_or_max m nm) pre (fs_fastest st) \<and>
    fs_delay st = delay_or_max m nm (fs_fastest st) \<and>
    (\<not> fs_absent st \<longrightarrow> nm cur \<in> nm ` set pre)"

definition delays_bounded :: "registry \<Rightarrow> ('h \<Rightarrow> string) \<Rightarrow> 'h list \<Rightarrow> bool" where
  "delays_bounded m nm ps \<longleftrightarrow>
    (\<forall>p\<in>set ps. \<forall>d. last_delay m (nm p) = Some d \<longrightarrow> d < duration_max_secs)"

lemma delay_or_max_le: "delays_bounded m nm ps \<Longrightarrow> p \<in> set ps \<Longrightarrow> delay_or_max m nm p \<le> duration_max_secs"
  by (auto simp: delays_bounded_def delay_or_max_def split: option.split)

lemma fastest_moves_Ok:
  assumes "delays_bounded m nm (pre @ [p])" "fastest_inv m nm cur (pre @ [p]) st"
  shows "\<exists>b. fastest_moves m nm tolerance cur st = Ok b"
proof (cases "fs_absent st \<or> pm_alive m (nm (fs_fastest st))")
  case False
  then have dead: "last_delay m (nm (fs_fastest st)) = None" by (simp add: last_delay_def)
  from False assms(2) obtain q where q: "q \<in> set (pre @ [p])" "nm cur = nm q"
    by (auto simp: fastest_inv_def)
  have "delay_or_max m nm (fs_fastest st) \<le> delay_or_max m nm q"
    using assms(2) q(1) by (auto simp: fastest_inv_def intro: first_min_le)
  then have "last_delay m (nm cur) = None"
    using dead assms(1) q by (cases "last_delay m (nm q)") (auto simp: delays_bounded_def delay_or_max_def)
  then have "fastest_moves m nm tolerance cur st = Ok False"
    using False by (simp add: fastest_moves_def)
  then show ?thesis by blast
qed (auto simp: fastest_moves_def)

lemma fastest_step_inv:
  assumes "delays_bounded m nm ps" "set (pre @ [p]) \<subseteq> set ps" "fastest_inv m nm cur pre st"
  shows "\<exists>st'. fastest_step m nm tolerance ps cur p st = Ok st' \<and> fastest_inv m nm cur (pre @ [p]) st'"
proof -
  define st1 where "st1 = (if nm p = nm cur then st\<lparr>fs_absent := False\<rparr> else st)"
  define st2 where "st2 = (case last_delay m (nm p) of
    Some d \<Rightarrow> if d < fs_delay st1 then st1\<lparr>fs_fastest := p, fs_delay := d\<rparr> else st1 | None \<Rightarrow> st1)"
  have bound: "delays_bounded m nm (pre @ [p])"
    using assms(1,2) by (auto simp: delays_bounded_def)
  have min: "first_min (delay_or_max m nm) pre (fs_fastest st)"
    and delay: "fs_delay st = delay_or_max m nm (fs_fastest st)"
    and here: "\<not> fs_absent st \<Longrightarrow> nm cur \<in> nm ` set pre"
    using assms(3) by (auto simp: fastest_inv_def)
  have le: "delay_or_max m nm (fs_fastest st) \<le> duration_max_secs"
    using bound first_min_mem [OF min] by (intro delay_or_max_le [of m nm "pre @ [p]"]) auto
  have st1: "fs_fastest st1 = fs_fastest st" "fs_delay st1 = fs_delay st"
    by (simp_all add: st1_def)
  have here1: "\<not> fs_absent st1 \<longrightarrow> nm cur \<in> nm ` set (pre @ [p])"
    using here by (cases "nm p = nm cur") (auto simp: st1_def)
  have keep: "fastest_inv m nm cur (pre @ [p]) st1"
    if "delay_or_max m nm (fs_fastest st) \<le> delay_or_max m nm p"
    unfolding fastest_inv_def st1
    using first_min_snoc_keep [OF min that] delay here1 by blast
  have none: "delay_or_max m nm p = duration_max_secs" if "last_delay m (nm p) = None"
    using that by (simp add: delay_or_max_def)
  have inv1: "fastest_inv m nm cur (pre @ [p]) st1" if "last_delay m (nm p) = None"
    using keep none [OF that] le by simp
  have inv2: "fastest_inv m nm cur (pre @ [p]) st2"
  proof (cases "last_delay m (nm p)")
    case None
    then have "st2 = st1" by (simp add: st2_def)
    then show ?thesis using inv1 [OF None] by simp
  next
    case (Some d)
    then have d: "delay_or_max m nm p = d" by (simp add: delay_or_max_def)
    show ?thesis
    proof (cases "d < fs_delay st")
      case True
      then have "st2 = st1\<lparr>fs_fastest := p, fs_delay := d\<rparr>" using Some by (simp add: st2_def st1)
      then show ?thesis
        using first_min_snoc_new [OF min, of p] True delay d here1 by (simp add: fastest_inv_def)
    next
      case False
      then have "st2 = st1" using Some by (simp add: st2_def st1)
      then show ?thesis using keep False delay d by simp
    qed
  qed
  show ?thesis
  proof (cases "pm_alive m (nm p)")
    case False
    then show ?thesis
      using inv1 by (simp add: fastest_step_def st1_def [symmetric] last_delay_def)
  next
    case True
    have "first_min (delay_or_max m nm) (pre @ [p]) (fs_fastest st2)"
      using inv2 by (simp only: fastest_inv_def)
    then have "fs_fastest st2 \<in> set ps"
      using assms(2) first_min_mem by (metis subsetD)
    then have "position_of nm (nm (fs_fastest st2)) ps \<noteq> None"
      by (simp only: position_of_None) simp
    then obtain i where "position_of nm (nm (fs_fastest st2)) ps = Some i" by blast
    moreover obtain b where "fastest_moves m nm tolerance cur st2 = Ok b"
      using fastest_moves_Ok [OF bound inv2] by blast
    moreover have "fastest_inv m nm cur (pre @ [p]) (st2\<lparr>fs_index := word_of_nat i\<rparr>)"
      using inv2 by (simp add: fastest_inv_def)
    ultimately show ?thesis
      using True inv2 by (simp add: fastest_step_def st1_def [symmetric] st2_def [symmetric])
  qed
qed

lemma fastest_loop_inv:
  assumes "delays_bounded m nm ps" "set (pre @ rest) \<subseteq> set ps" "fastest_inv m nm cur pre st"
  shows "\<exists>st'. fastest_loop m nm tolerance ps cur rest st = Ok st' \<and> fastest_inv m nm cur (pre @ rest) st'"
  using assms(2,3)
proof (induction rest arbitrary: pre st)
  case (Cons p rest)
  obtain st1 where st1: "fastest_step m nm tolerance ps cur p st = Ok st1"
      "fastest_inv m nm cur (pre @ [p]) st1"
    using fastest_step_inv [OF assms(1) _ Cons.prems(2), where p = p and tolerance = tolerance]
      Cons.prems(1) by auto
  then show ?case using Cons.IH [of "pre @ [p]" st1] Cons.prems by simp
qed simp

lemma word_pred_less: "0 < n \<Longrightarrow> unat ((word_of_nat n :: u16) - 1) < n"
proof -
  assume n: "0 < n"
  have u: "unat (word_of_nat n :: u16) = n mod 2 ^ 16" by (simp add: unsigned_of_nat take_bit_eq_mod)
  show ?thesis
  proof (cases "(word_of_nat n :: u16) = 0")
    case True
    then have "n mod 2 ^ 16 = 0" using u by simp
    then have "2 ^ 16 \<le> n" using n by (meson dvd_imp_le mod_0_imp_dvd)
    moreover have "unat (- 1 :: u16) < 2 ^ 16"
      using unsigned_less [of "- 1 :: u16"] by (simp only: len_num1 len_bit0 len_bit1) simp
    ultimately show ?thesis using True by simp
  next
    case False
    then have "unat ((word_of_nat n :: u16) - 1) = n mod 2 ^ 16 - 1" using u by (simp add: unat_minus_one)
    also have "\<dots> < n"
      using n mod_less_eq_dividend [of n "2 ^ 16"] by linarith
    finally show ?thesis .
  qed
qed

lemma fastest_of_min:
  assumes "ps \<noteq> []" "delays_bounded m nm ps"
  shows "\<exists>st. fastest_of m nm tolerance idx ps = Ok st \<and> first_min (delay_or_max m nm) ps (fs_fastest st)"
proof -
  obtain first rest where ps: "ps = first # rest" using assms(1) by (cases ps) auto
  have cur: "unat (min idx (word_of_nat (length ps) - 1)) < length ps"
    using word_pred_less [of "length ps"] assms(1)
    by (auto simp: min_def word_le_nat_alt dest: le_less_trans)
  define cur st where "cur = ps ! unat (min idx (word_of_nat (length ps) - 1))"
    and "st = \<lparr>fs_fastest = first, fs_delay = delay_or_max m nm first, fs_absent = True, fs_index = idx\<rparr>"
  have "fastest_inv m nm cur [first] st"
    by (simp add: st_def fastest_inv_def first_min_single)
  then obtain st' where "fastest_loop m nm tolerance ps cur rest st = Ok st'"
      "fastest_inv m nm cur ps st'"
    using fastest_loop_inv [OF assms(2), of "[first]" rest cur st tolerance] ps by auto
  moreover have "fastest_of m nm tolerance idx ps = fastest_loop m nm tolerance ps cur rest st"
    using cur unfolding ps cur_def st_def
    by (simp add: fastest_of_def Let_def delay_or_max_def)
  ultimately show ?thesis by (auto simp: fastest_inv_def)
qed

section \<open>Properties\<close>

text \<open>
  C27. Consistent hashing. With at least one proxy (and fewer than the 32-bit index can count) the
  strategy returns one of the proxies, and appending a proxy to the group either leaves the choice
  for a destination as it was or moves it to the new proxy: no destination moves between old ones.
\<close>

theorem hashring_stable:
  assumes "ps \<noteq> []" "length ps + 1 < 2 ^ 31"
  shows "\<exists>p\<in>set ps. strategy_consistent_hashring etld murmur ps sess = Ok p \<and>
    strategy_consistent_hashring etld murmur (ps @ [q]) sess \<in> {Ok p, Ok q}"
proof -
  define k where "k = (ucast (murmur (get_key etld sess)) :: u64)"
  define i where "i = usize_of_i32 (jump_hash k (word_of_nat (length ps)))"
  define j where "j = usize_of_i32 (jump_hash k (word_of_nat (length ps + 1)))"
  have i: "i < length ps"
    using assms unfolding i_def by (intro jump_hash_index(2)) auto
  have "j \<in> {i, length ps}"
    using assms unfolding i_def j_def by (intro jump_hash_Suc) auto
  moreover have "hashring_loop 5 k ps = Ok (ps ! i)"
    using assms unfolding i_def by (intro hashring_loop_choice) auto
  moreover have "hashring_loop 5 k (ps @ [q]) = Ok ((ps @ [q]) ! j)"
    using hashring_loop_choice [of "ps @ [q]" k] assms(2) by (simp only: j_def) simp
  ultimately have "strategy_consistent_hashring etld murmur ps sess = Ok (ps ! i)"
    "strategy_consistent_hashring etld murmur (ps @ [q]) sess \<in> {Ok (ps ! i), Ok q}"
    using i by (auto simp: strategy_consistent_hashring_def k_def nth_append)
  then show ?thesis using i nth_mem by blast
qed

text \<open>Handles of the witnesses: a proxy is its name, every proxy connects.\<close>

definition plain_ops :: "(string, string) outbound_ops" where
  "plain_ops =
    \<lparr>ob_name = (\<lambda>h. h), ob_support_udp = (\<lambda>_. True), ob_support_connector = (\<lambda>_. ConnTcp),
     ob_connect_stream = (\<lambda>h _. Ok (chained_new h)), ob_connect_datagram = (\<lambda>h _. Ok (chained_new h)),
     ob_connect_stream_with = (\<lambda>h _ _. Ok (chained_new h)),
     ob_connect_datagram_with = (\<lambda>h _ _. Ok (chained_new h))\<rparr>"

definition plain_hc :: "string health_check" where
  "plain_hc = hc_new [] ''http://example.com'' 300 False 0"

definition plain_provider :: "string list \<Rightarrow> string proxy_provider" where
  "plain_provider ps = \<lparr>pp_name = ''p'', pp_proxies = ps, pp_hc = plain_hc\<rparr>"

definition plain_opts :: group_opts where
  "plain_opts = \<lparr>go_name = ''g'', go_udp = True, go_connector = None, go_url = None, go_icon = None\<rparr>"

definition plain_registry :: registry where
  "plain_registry = [''a'' \<mapsto> \<lparr>ps_alive = False, ps_history = []\<rparr>,
     ''b'' \<mapsto> \<lparr>ps_alive = True, ps_history = [\<lparr>dh_time = 0, dh_delay = 7\<rparr>]\<rparr>,
     ''c'' \<mapsto> \<lparr>ps_alive = True, ps_history = [\<lparr>dh_time = 0, dh_delay = 5\<rparr>]\<rparr>]"

definition plain_sess :: session where
  "plain_sess = fst (session_default 0 0)"

theorem hashring_stable_witness:
  "\<exists>p\<in>set [''a'', ''b'']. strategy_consistent_hashring Some (\<lambda>_. 7) [''a'', ''b''] plain_sess = Ok p \<and>
    strategy_consistent_hashring Some (\<lambda>_. 7) ([''a'', ''b''] @ [''c'']) plain_sess \<in> {Ok p, Ok ''c''}"
  by (rule hashring_stable) simp_all

text \<open>
  C19. Round robin. As many calls in a row as there are proxies choose every proxy exactly once, in
  the order of the list starting behind the last choice, and leave the index where it was, so that
  the next calls repeat the round.
\<close>

theorem rr_round:
  assumes "i < length ps"
  shows "rr_run (length ps) ps i = (map Ok (rotate (Suc i) ps), i) \<and>
    mset (fst (rr_run (length ps) ps i)) = mset (map Ok ps)"
  using rr_run_round [OF assms] by (simp add: mset_rotate del: rotate_Suc)

theorem rr_round_witness:
  "rr_run (length [''a'', ''b'', ''c'']) [''a'', ''b'', ''c''] 1 =
    (map Ok (rotate (Suc 1) [''a'', ''b'', ''c'']), 1) \<and>
   mset (fst (rr_run (length [''a'', ''b'', ''c'']) [''a'', ''b'', ''c''] 1)) =
     mset (map Ok [''a'', ''b'', ''c''])"
  by (rule rr_round) simp

text \<open>
  C28. URL test. With at least one proxy, and recorded delays below the initial bound, the group
  never panics and returns the first of the proxies with the smallest last delay, where a proxy
  that is not alive or has no recorded delay counts as the slowest. The choice depends neither on
  the tolerance of the group nor on the index that it stores.
\<close>

theorem urltest_fastest:
  assumes "fst (get_proxies_from_providers ops now touch (ut_providers g)) = ps" "ps \<noteq> []"
    "delays_bounded m (ob_name ops) ps"
  shows "\<exists>p. fst (fastest ops m now touch g) = Ok p \<and> first_min (delay_or_max m (ob_name ops)) ps p \<and>
    (\<forall>t i. fst (fastest ops m now touch (g\<lparr>ut_tolerance := t, ut_index := i\<rparr>)) = Ok p)"
proof -
  let ?f = "delay_or_max m (ob_name ops)"
  have choice: "\<exists>p. fst (fastest ops m now touch g') = Ok p \<and> first_min ?f ps p"
    if "ut_providers g' = ut_providers g" for g' :: "'a urltest_handler"
    using fastest_of_min [OF assms(2,3), of "ut_tolerance g'" "ut_index g'"] assms(1) that
    by (auto simp: fastest_def Let_def case_prod_beta split: sum.split)
  obtain p where p: "fst (fastest ops m now touch g) = Ok p" "first_min ?f ps p"
    using choice [of g] by blast
  have "fst (fastest ops m now touch (g\<lparr>ut_tolerance := t, ut_index := i\<rparr>)) = Ok p" for t i
  proof -
    obtain q where "fst (fastest ops m now touch (g\<lparr>ut_tolerance := t, ut_index := i\<rparr>)) = Ok q"
        "first_min ?f ps q"
      using choice [of "g\<lparr>ut_tolerance := t, ut_index := i\<rparr>"] by auto
    then show ?thesis using first_min_unique [OF p(2)] by blast
  qed
  with p show ?thesis by blast
qed

theorem urltest_fastest_witness:
  "\<exists>p. fst (fastest plain_ops plain_registry 1 True (urltest_new plain_opts 50 [plain_provider [''a'', ''b'', ''c'']])) = Ok p \<and>
    first_min (delay_or_max plain_registry (ob_name plain_ops)) [''a'', ''b'', ''c''] p \<and>
    (\<forall>t i. fst (fastest plain_ops plain_registry 1 True
      ((urltest_new plain_opts 50 [plain_provider [''a'', ''b'', ''c'']])\<lparr>ut_tolerance := t, ut_index := i\<rparr>)) = Ok p)"
  by (rule urltest_fastest)
    (simp_all add: urltest_new_def get_proxies_from_providers_def plain_provider_def plain_ops_def
      delays_bounded_def plain_registry_def last_delay_def pm_alive_def delay_history_def
      duration_max_secs_def)

text \<open>
  C29. Selector. Selecting a name succeeds exactly when a proxy of the group has it, and then the
  selected proxy is the one with that name, for groups that the 16-bit index can count; otherwise
  the selection is as before.
\<close>

theorem select_selected:
  assumes "fst (get_proxies_from_providers ops now False (sl_providers g)) = ps"
    "length ps \<le> 2 ^ 16"
  shows "if n \<in> ob_name ops ` set ps
    then fst (select ops now n g) = Ok () \<and>
      (\<exists>p\<in>set ps. ob_name ops p = n \<and>
        (\<forall>now' touch. fst (selected_proxy ops now' touch (snd (select ops now n g))) = Ok p))
    else select ops now n g = (Err (Other (''proxy '' @ n @ '' not found'')), g)"
proof (cases "position_of (ob_name ops) n ps")
  case None
  then have "n \<notin> ob_name ops ` set ps" by (rule iffD1 [OF position_of_None])
  with None assms(1) show ?thesis by (simp add: select_def Let_def)
next
  case (Some i)
  then have i: "i < length ps" "ob_name ops (ps ! i) = n" by (rule position_of_SomeD)+
  then have mem: "n \<in> ob_name ops ` set ps" by force
  have "unat (word_of_nat i :: u16) = i"
    using i(1) assms(2) by (simp add: unsigned_of_nat take_bit_nat_eq_self)
  then have "fst (selected_proxy ops now' touch (g\<lparr>sl_index := word_of_nat i\<rparr>)) = Ok (ps ! i)"
    for now' touch
    using assms(1) i(1) by (simp add: selected_proxy_def get_proxies_from_providers_def)
  moreover have "select ops now n g = (Ok (), g\<lparr>sl_index := word_of_nat i\<rparr>)"
    using Some assms(1) by (simp add: select_def Let_def)
  ultimately show ?thesis using mem i by auto
qed

theorem select_selected_witness:
  "let g = \<lparr>sl_opts = plain_opts, sl_providers = [plain_provider [''a'', ''b'']], sl_index = 0\<rparr> in
   if ''b'' \<in> ob_name plain_ops ` set [''a'', ''b'']
    then fst (select plain_ops 0 ''b'' g) = Ok () \<and>
      (\<exists>p\<in>set [''a'', ''b'']. ob_name plain_ops p = ''b'' \<and>
        (\<forall>now' touch. fst (selected_proxy plain_ops now' touch (snd (select plain_ops 0 ''b'' g))) = Ok p))
    else select plain_ops 0 ''b'' g = (Err (Other (''proxy '' @ ''b'' @ '' not found'')), g)"
  unfolding Let_def
  by (rule select_selected)
    (simp_all add: get_proxies_from_providers_def plain_provider_def plain_ops_def)

text \<open>
  C26. Sticky sessions. A proxy that the strategy returns is one of the group and alive; and as long
  as the proxy cached for a pair of source and destination is alive, it is returned again and the
  cache is only read.
\<close>

theorem sticky_session_choice:
  assumes "strategy_sticky_session etld murmur lib now clock m nm ps sess c = (r, c')"
    "k = ucast (murmur (get_key_src_and_dst etld sess))"
  shows "(\<forall>p. r = Ok p \<longrightarrow> p \<in> set ps \<and> pm_alive m (nm p)) \<and>
    (\<forall>i. fst (sc_get lib now k c) = Some i \<and> i < length ps \<and> pm_alive m (nm (ps ! i)) \<longrightarrow>
      r = Ok (ps ! i) \<and> c' = snd (sc_get lib now k c))"
proof -
  obtain cached c1 where get: "sc_get lib now k c = (cached, c1)" by (cases "sc_get lib now k c")
  have sound: "p \<in> set ps \<and> pm_alive m (nm p)" if "r = Ok p" for p
  proof -
    obtain hit i idx where "sticky_loop lib now clock m nm k ps idx hit 5 i idx c1 = (r, c')"
      using assms get
      by (cases cached) (auto simp: strategy_sticky_session_def Let_def)
    then show ?thesis using that sticky_loop_Ok by (metis fst_conv)
  qed
  moreover have "r = Ok (ps ! i) \<and> c' = c1"
    if "cached = Some i" "i < length ps" "pm_alive m (nm (ps ! i))" for i
    using assms that get sticky_loop_hit [of i ps m nm lib now clock k 4 0 c1]
    by (simp add: strategy_sticky_session_def Let_def)
  ultimately show ?thesis using get by simp
qed

definition plain_cache :: "(u64 \<Rightarrow> nat option) sticky_cache" where
  "plain_cache = \<lparr>sc_get = (\<lambda>_ k c. (c k, c)), sc_insert = (\<lambda>_ k i c. c(k \<mapsto> i))\<rparr>"

theorem sticky_session_choice_witness:
  "fst (strategy_sticky_session Some (\<lambda>_. 7) plain_cache 0 (\<lambda>_. 0) plain_registry (\<lambda>n. n)
     [''a'', ''b'', ''c''] plain_sess [7 \<mapsto> 1]) = Ok ''b'' \<and>
   ''b'' \<in> set [''a'', ''b'', ''c''] \<and> pm_alive plain_registry ''b''"
proof -
  let ?s = "strategy_sticky_session Some (\<lambda>_. 7) plain_cache 0 (\<lambda>_. 0) plain_registry (\<lambda>n. n)
       [''a'', ''b'', ''c''] plain_sess [7 \<mapsto> 1]"
  have k: "(7 :: u64) = ucast (7 :: u32)" by simp
  have h: "(\<forall>p. fst ?s = Ok p \<longrightarrow> p \<in> set [''a'', ''b'', ''c''] \<and> pm_alive plain_registry p) \<and>
    (\<forall>i. fst (sc_get plain_cache 0 7 [7 \<mapsto> 1]) = Some i \<and> i < length [''a'', ''b'', ''c''] \<and>
        pm_alive plain_registry ([''a'', ''b'', ''c''] ! i) \<longrightarrow>
      fst ?s = Ok ([''a'', ''b'', ''c''] ! i) \<and> snd ?s = snd (sc_get plain_cache 0 7 [7 \<mapsto> 1]))"
    by (rule sticky_session_choice [OF prod.collapse [symmetric] k])
  have "fst (sc_get plain_cache 0 7 [7 \<mapsto> 1]) = Some 1" "pm_alive plain_registry ''b''"
    by (simp_all add: plain_cache_def plain_registry_def pm_alive_def)
  then have "fst ?s = Ok ''b''"
    using conjunct2 [OF h, THEN spec, of 1] by simp
  with conjunct1 [OF h, THEN spec, of "''b''"] show ?thesis by (simp only: simp_thms)
qed

section \<open>What the model shows beside\<close>

text \<open>
  The periodic task of a health check keeps the list of proxies that it captured when it started:
  an update of the provider does not reach it.
\<close>

lemma hc_tick_stale:
  assumes "kick_off hc = (chk, hc')"
  shows "fst (hc_tick now (hc_update new hc')) \<in> {[], hc_proxies hc}"
  using assms by (auto simp: kick_off_def hc_tick_def hc_update_def)

text \<open>
  A lazy health check skips the round when the group was used less than an interval ago, and
  tests when it was not.
\<close>

lemma hc_tick_lazy:
  assumes "hc_lazy hc" "hc_task hc = Some ps" "hc_last hc \<le> now"
    "now - hc_last hc < unat (hc_interval hc) * 10 ^ 9"
  shows "hc_tick now hc = ([], hc)"
  using assms by (simp add: hc_tick_def div_less_iff_less_mult not_le)

text \<open>A selection restored at start is looked up among the proxies of the first provider only.\<close>

lemma selector_new_second_provider:
  "fst (selected_proxy plain_ops 0 False (projr (selector_new plain_ops plain_opts
     [plain_provider [''a''], plain_provider [''b'']] (Some ''b'')))) = Ok ''a''"
  by (simp add: selector_new_def selected_proxy_def plain_provider_def plain_ops_def position_of_def
      get_proxies_from_providers_def)

end
