(* ===== verification/Outbound_Manager.thy ===== *)
theory Outbound_Manager
  imports Group_Select Fake_Dns
begin

text \<open>
  Model of \<^verbatim>\<open>app/outbound/manager.rs\<close>: how the outbound handlers, the proxy providers and the proxy
  groups of a configuration are loaded, and looked up afterwards.

  Handlers are shared pointers: a handle is an address in a heap of handler objects, the groups
  refer to other handlers by address. A plain handler is of an abstract type \<open>'p\<close>; the conversion of
  its configuration, which may drop it, happens before. A provider that several groups use is
  copied into each of them, as loading does not change a provider once it is in the registry.
  A smart group is kept with its options and providers only.
\<close>

section \<open>Handlers\<close>

type_synonym hid = nat

record 'f smart_handler =
  sh_opts :: group_opts
  sh_max_retries :: "u32 option"
  sh_bandwidth_weight :: "'f option"
  sh_providers :: "hid proxy_provider list"

datatype ('p, 'l, 'f) handler_obj =
    PlainObj 'p
  | RelayObj "hid relay_handler"
  | UrlTestObj "hid urltest_handler"
  | FallbackObj "hid fallback_handler"
  | LoadBalanceObj "(hid, 'l) lb_handler"
  | SelectorObj "hid selector_handler"
  | SmartObj "'f smart_handler"

fun obj_name :: "('p \<Rightarrow> string) \<Rightarrow> ('p, 'l, 'f) handler_obj \<Rightarrow> string" where
  "obj_name nm (PlainObj p) = nm p"
| "obj_name nm (RelayObj g) = go_name (rl_opts g)"
| "obj_name nm (UrlTestObj g) = go_name (ut_opts g)"
| "obj_name nm (FallbackObj g) = go_name (fb_opts g)"
| "obj_name nm (LoadBalanceObj g) = go_name (lb_opts g)"
| "obj_name nm (SelectorObj g) = go_name (sl_opts g)"
| "obj_name nm (SmartObj g) = go_name (sh_opts g)"

fun obj_providers :: "('p, 'l, 'f) handler_obj \<Rightarrow> hid proxy_provider list" where
  "obj_providers (PlainObj p) = []"
| "obj_providers (RelayObj g) = rl_providers g"
| "obj_providers (UrlTestObj g) = ut_providers g"
| "obj_providers (FallbackObj g) = fb_providers g"
| "obj_providers (LoadBalanceObj g) = lb_providers g"
| "obj_providers (SelectorObj g) = sl_providers g"
| "obj_providers (SmartObj g) = sh_providers g"

section \<open>The manager\<close>

datatype vehicle_type = VtHttp | VtFile | VtCompatible

text \<open>
  \<open>om_checks\<close> lists the handlers of each health check that loading started, \<open>om_connectors\<close> the
  connector registered with a handler.
\<close>

record ('p, 'l, 'f) outbound_manager =
  om_heap :: "('p, 'l, 'f) handler_obj list"
  om_handlers :: "(string \<times> hid) list"
  om_providers :: "(string \<times> vehicle_type \<times> hid proxy_provider) list"
  om_selectors :: "(string \<times> hid) list"
  om_connectors :: "(hid \<times> hid remote_connector) list"
  om_checks :: "hid list list"

record hc_def =
  hd_enable :: bool
  hd_url :: string
  hd_interval :: u64
  hd_lazy :: "bool option"

datatype provider_def =
    HttpProvider (pd_url: string) (pd_interval: u64) (pd_path: string) (pd_hc: hc_def)
  | FileProvider (pd_path: string) (pd_opt_interval: "u64 option") (pd_hc: hc_def)

text \<open>
  The environment: names, connector options and methods of plain handlers, the content a provider
  fetches, whether an address parses, the iteration order of a hash map with given keys, an empty
  sticky cache and the time.
\<close>

record ('p, 'l, 'c) om_env =
  oe_name :: "'p \<Rightarrow> string"
  oe_dialer :: "'p \<Rightarrow> string option"
  oe_ops :: "(hid, 'c) outbound_ops"
  oe_fetch :: "string \<Rightarrow> 'p list result"
  oe_uri_ok :: "string \<Rightarrow> bool"
  oe_ord :: "string list \<Rightarrow> string list"
  oe_cache0 :: 'l
  oe_now :: nat

definition om_empty :: "('p, 'l, 'f) outbound_manager" where
  "om_empty = \<lparr>om_heap = [], om_handlers = [], om_providers = [], om_selectors = [], om_connectors = [],
     om_checks = []\<rparr>"

definition get_outbound :: "('p, 'l, 'f) outbound_manager \<Rightarrow> string \<Rightarrow> hid option" where
  "get_outbound m n = map_of (om_handlers m) n"

definition get_proxy_provider ::
  "('p, 'l, 'f) outbound_manager \<Rightarrow> string \<Rightarrow> hid proxy_provider option" where
  "get_proxy_provider m n = map_option snd (map_of (om_providers m) n)"

definition get_selector_control :: "('p, 'l, 'f) outbound_manager \<Rightarrow> string \<Rightarrow> hid option" where
  "get_selector_control m n = map_of (om_selectors m) n"

text \<open>The name of a handle, and the methods of handles with the names of this heap.\<close>

definition hname :: "('p, 'l, 'c) om_env \<Rightarrow> ('p, 'l, 'f) outbound_manager \<Rightarrow> hid \<Rightarrow> string" where
  "hname env m h = obj_name (oe_name env) (om_heap m ! h)"

definition heap_ops ::
  "('p, 'l, 'c) om_env \<Rightarrow> ('p, 'l, 'f) outbound_manager \<Rightarrow> (hid, 'c) outbound_ops" where
  "heap_ops env m = (oe_ops env)\<lparr>ob_name := hname env m\<rparr>"

text \<open>Allocate an object, and enter it in the map of handlers under a name.\<close>

definition insert_handler ::
  "string \<Rightarrow> ('p, 'l, 'f) handler_obj \<Rightarrow> ('p, 'l, 'f) outbound_manager \<Rightarrow>
   ('p, 'l, 'f) outbound_manager" where
  "insert_handler n obj m =
    m\<lparr>om_heap := om_heap m @ [obj], om_handlers := AList.update n (length (om_heap m)) (om_handlers m)\<rparr>"

section \<open>Proxy providers\<close>

definition provider_vehicle :: "provider_def \<Rightarrow> vehicle_type" where
  "provider_vehicle d = (case d of HttpProvider _ _ _ _ \<Rightarrow> VtHttp | FileProvider _ _ _ \<Rightarrow> VtFile)"

definition add_provider ::
  "('p, 'l, 'c) om_env \<Rightarrow> string \<Rightarrow> provider_def \<Rightarrow> ('p, 'l, 'f) outbound_manager \<Rightarrow>
   ('p, 'l, 'f) outbound_manager result" where
  "add_provider env n d m =
    (if (case d of HttpProvider url _ _ _ \<Rightarrow> \<not> oe_uri_ok env url | _ \<Rightarrow> False)
     then Err (Exit (''invalid provider url: '' @ pd_url d))
     else
       let hc = hc_new [] (hd_url (pd_hc d)) (hd_interval (pd_hc d))
                  (case hd_lazy (pd_hc d) of Some b \<Rightarrow> b | None \<Rightarrow> False) (oe_now env);
           (chk, p) = proxy_set_provider_new n hc
       in Ok (m\<lparr>om_providers := AList.update n (provider_vehicle d, p) (om_providers m),
                om_checks := om_checks m @ [chk]\<rparr>))"

fun add_providers ::
  "('p, 'l, 'c) om_env \<Rightarrow> (string \<times> provider_def) list \<Rightarrow> ('p, 'l, 'f) outbound_manager \<Rightarrow>
   ('p, 'l, 'f) outbound_manager result" where
  "add_providers env [] m = Ok m"
| "add_providers env ((n, d) # ds) m = bind_result (add_provider env n d m) (add_providers env ds)"

text \<open>\<^verbatim>\<open>initialize\<close>: fetch, then the updater; a failure is logged and the provider stays empty.\<close>

definition init_provider ::
  "('p, 'l, 'c) om_env \<Rightarrow> string \<Rightarrow> ('p, 'l, 'f) outbound_manager \<Rightarrow> ('p, 'l, 'f) outbound_manager" where
  "init_provider env n m =
    (case (map_of (om_providers m) n, oe_fetch env n) of
       (Some (v, p), Inr ps) \<Rightarrow>
         let ids = [length (om_heap m) ..< length (om_heap m) + length ps];
             (chk, p') = proxy_set_updater ids p
         in m\<lparr>om_heap := om_heap m @ map PlainObj ps,
              om_providers := AList.update n (v, p') (om_providers m),
              om_checks := om_checks m @ [chk]\<rparr>
     | _ \<Rightarrow> m)"

definition load_proxy_providers ::
  "('p, 'l, 'c) om_env \<Rightarrow> (string \<times> provider_def) list \<Rightarrow> ('p, 'l, 'f) outbound_manager \<Rightarrow>
   ('p, 'l, 'f) outbound_manager result" where
  "load_proxy_providers env defs m =
    bind_result (add_providers env defs m) (\<lambda>m.
      Ok (fold (init_provider env) (oe_ord env (map fst (om_providers m))) m))"

section \<open>Groups\<close>

fun group_use :: "'f group \<Rightarrow> string list option" where
  "group_use (Relay g) = rel_use_provider g"
| "group_use (UrlTest g) = ut_use_provider g"
| "group_use (Fallback g) = fb_use_provider g"
| "group_use (LoadBalance g) = lb_use_provider g"
| "group_use (Smart g) = sm_use_provider g"
| "group_use (Select g) = sel_use_provider g"

text \<open>Interval and laziness of the health check of a group's own proxies.\<close>

fun group_hc :: "'f group \<Rightarrow> u64 \<times> bool" where
  "group_hc (Relay g) = (0, True)"
| "group_hc (UrlTest g) = (ut_interval g, case ut_lazy g of Some b \<Rightarrow> b | None \<Rightarrow> False)"
| "group_hc (Fallback g) = (fb_interval g, case fb_lazy g of Some b \<Rightarrow> b | None \<Rightarrow> False)"
| "group_hc (LoadBalance g) = (lb_interval g, case lb_lazy g of Some b \<Rightarrow> b | None \<Rightarrow> False)"
| "group_hc (Smart g) = (0, case sm_lazy g of Some b \<Rightarrow> b | None \<Rightarrow> False)"
| "group_hc (Select g) = (0, True)"

definition DEFAULT_LATENCY_TEST_URL :: string where
  "DEFAULT_LATENCY_TEST_URL = ''http://www.gstatic.com/generate_204''"

definition RESERVED_PROVIDER_NAME :: string where
  "RESERVED_PROVIDER_NAME = ''default''"

definition opt_len :: "'a list option \<Rightarrow> nat" where
  "opt_len xs = (case xs of Some l \<Rightarrow> length l | None \<Rightarrow> 0)"

definition check_group_empty :: "string list option \<Rightarrow> string list option \<Rightarrow> bool" where
  "check_group_empty proxies use_provider \<longleftrightarrow> opt_len proxies + opt_len use_provider = 0"

fun find_handlers :: "(string \<times> hid) list \<Rightarrow> string list \<Rightarrow> hid list result" where
  "find_handlers hs [] = Ok []"
| "find_handlers hs (n # ns) =
    (case map_of hs n of
       None \<Rightarrow> Err (InvalidConfig (''proxy '' @ n @ '' not found''))
     | Some h \<Rightarrow> bind_result (find_handlers hs ns) (\<lambda>r. Ok (h # r)))"

text \<open>The text of an \<^verbatim>\<open>InvalidConfig\<close>, the one error that creating a plain provider has.\<close>

definition config_error_text :: "error \<Rightarrow> string" where
  "config_error_text e = (case e of InvalidConfig s \<Rightarrow> ''invalid config: '' @ s | _ \<Rightarrow> [])"

definition make_provider_from_proxies ::
  "('p, 'l, 'c) om_env \<Rightarrow> string \<Rightarrow> string list \<Rightarrow> u64 \<Rightarrow> bool \<Rightarrow> ('p, 'l, 'f) outbound_manager \<Rightarrow>
   (hid proxy_provider \<times> ('p, 'l, 'f) outbound_manager) result" where
  "make_provider_from_proxies env n proxies interval lazy m =
    (if n = PROXY_DIRECT \<or> n = PROXY_REJECT
     then Err (InvalidConfig (''proxy group name `'' @ n @ ''` is reserved''))
     else
       bind_result (find_handlers (om_handlers m) proxies) (\<lambda>hs.
       bind_result (map_err (\<lambda>e. InvalidConfig (''invalid provider config: '' @ config_error_text e))
           (plain_provider_new n hs (hc_new hs DEFAULT_LATENCY_TEST_URL interval lazy (oe_now env))))
         (\<lambda>(chk, pd).
           Ok (pd, m\<lparr>om_providers := AList.update n (VtCompatible, pd) (om_providers m),
                     om_checks := om_checks m @ [chk]\<rparr>))))"

fun append_use_providers ::
  "string list \<Rightarrow> (string \<times> vehicle_type \<times> hid proxy_provider) list \<Rightarrow> hid proxy_provider list \<Rightarrow>
   hid proxy_provider list result" where
  "append_use_providers [] reg ps = Ok ps"
| "append_use_providers (n # ns) reg ps =
    (case map_of reg n of
       None \<Rightarrow> Err (Exit (''provider '' @ n @ '' not found''))
     | Some (_, p) \<Rightarrow> append_use_providers ns reg (ps @ [p]))"

definition maybe_append_use_providers ::
  "string list option \<Rightarrow> (string \<times> vehicle_type \<times> hid proxy_provider) list \<Rightarrow> hid proxy_provider list \<Rightarrow>
   hid proxy_provider list result" where
  "maybe_append_use_providers names reg ps =
    (case names of None \<Rightarrow> Ok ps | Some ns \<Rightarrow> append_use_providers ns reg ps)"

definition group_options :: "string \<Rightarrow> bool \<Rightarrow> string option \<Rightarrow> string option \<Rightarrow> group_opts" where
  "group_options n udp url icon = \<lparr>go_name = n, go_udp = udp, go_connector = None, go_url = url, go_icon = icon\<rparr>"

text \<open>
  The handler of a group. The options that a variant does not set have their defaults: no UDP, and
  consistent hashing for load balancing, whose configured strategy is not passed on.
\<close>

fun group_obj ::
  "('p, 'l, 'c) om_env \<Rightarrow> 'st cache_file \<Rightarrow> ('p, 'l, 'f) outbound_manager \<Rightarrow> 'f group \<Rightarrow>
   hid proxy_provider list \<Rightarrow> ('p, 'l, 'f) handler_obj result" where
  "group_obj env cache m (Relay g) ps =
    Ok (RelayObj \<lparr>rl_opts = group_options (rel_name g) False (rel_url g) (rel_icon g), rl_providers = ps\<rparr>)"
| "group_obj env cache m (UrlTest g) ps =
    Ok (UrlTestObj (urltest_new (group_options (ut_name g) False (Some (ut_url g)) (ut_icon g))
      (case urltest_group.ut_tolerance g of Some t \<Rightarrow> t | None \<Rightarrow> 0) ps))"
| "group_obj env cache m (Fallback g) ps =
    Ok (FallbackObj \<lparr>fb_opts = group_options (fb_name g) False (Some (fb_url g)) (fb_icon g), fb_providers = ps\<rparr>)"
| "group_obj env cache m (LoadBalance g) ps =
    Ok (LoadBalanceObj (lb_new (group_options (lb_name g) False (Some (lb_url g)) (lb_icon g))
      ConsistentHashing (oe_cache0 env) ps))"
| "group_obj env cache m (Smart g) ps =
    Ok (SmartObj \<lparr>sh_opts = group_options (sm_name g) (case sm_udp g of Some b \<Rightarrow> b | None \<Rightarrow> True) (sm_url g) (sm_icon g),
      sh_max_retries = sm_max_retries g, sh_bandwidth_weight = sm_bandwidth_weight g, sh_providers = ps\<rparr>)"
| "group_obj env cache m (Select g) ps =
    bind_result (selector_new (heap_ops env m)
      (group_options (sel_name g) (case sel_udp g of Some b \<Rightarrow> b | None \<Rightarrow> True) (sel_url g) (sel_icon g))
      ps (get_selected (sel_name g) cache)) (\<lambda>s. Ok (SelectorObj s))"

definition register_group ::
  "'f group \<Rightarrow> ('p, 'l, 'f) handler_obj \<Rightarrow> ('p, 'l, 'f) outbound_manager \<Rightarrow>
   ('p, 'l, 'f) outbound_manager" where
  "register_group g obj m =
    (insert_handler (group_name g) obj m)
      \<lparr>om_selectors := (case g of
         Select _ \<Rightarrow> AList.update (group_name g) (length (om_heap m)) (om_selectors m)
       | _ \<Rightarrow> om_selectors m)\<rparr>"

definition own_provider ::
  "('p, 'l, 'c) om_env \<Rightarrow> 'f group \<Rightarrow> ('p, 'l, 'f) outbound_manager \<Rightarrow>
   (hid proxy_provider list \<times> ('p, 'l, 'f) outbound_manager) result" where
  "own_provider env g m =
    (case group_proxies g of
       None \<Rightarrow> Ok ([], m)
     | Some proxies \<Rightarrow>
         bind_result (make_provider_from_proxies env (group_name g) proxies (fst (group_hc g)) (snd (group_hc g)) m)
           (\<lambda>(pd, m). Ok ([pd], m)))"

definition load_group ::
  "('p, 'l, 'c) om_env \<Rightarrow> 'st cache_file \<Rightarrow> 'f group \<Rightarrow> ('p, 'l, 'f) outbound_manager \<Rightarrow>
   ('p, 'l, 'f) outbound_manager result" where
  "load_group env cache g m =
    (if check_group_empty (group_proxies g) (group_use g)
     then Err (InvalidConfig (''proxy group '' @ group_name g @ '' has no proxies''))
     else
       bind_result (own_provider env g m) (\<lambda>(own, m).
       bind_result (maybe_append_use_providers (group_use g) (om_providers m) own) (\<lambda>ps.
       bind_result (group_obj env cache m g ps) (\<lambda>obj. Ok (register_group g obj m)))))"

fun load_groups ::
  "('p, 'l, 'c) om_env \<Rightarrow> 'st cache_file \<Rightarrow> 'f group list \<Rightarrow> ('p, 'l, 'f) outbound_manager \<Rightarrow>
   ('p, 'l, 'f) outbound_manager result" where
  "load_groups env cache [] m = Ok m"
| "load_groups env cache (g # gs) m = bind_result (load_group env cache g m) (load_groups env cache gs)"

definition load_group_outbounds ::
  "('p, 'l, 'c) om_env \<Rightarrow> 'st cache_file \<Rightarrow> 'f group list \<Rightarrow> ('p, 'l, 'f) outbound_manager \<Rightarrow>
   ('p, 'l, 'f) outbound_manager result" where
  "load_group_outbounds env cache groups m =
    bind_result (proxy_groups_dag_sort (oe_ord env) groups) (\<lambda>gs. load_groups env cache gs m)"

section \<open>Loading\<close>

fun load_outbounds ::
  "('p, 'l, 'c) om_env \<Rightarrow> 'p list \<Rightarrow> ('p, 'l, 'f) outbound_manager \<Rightarrow> ('p, 'l, 'f) outbound_manager" where
  "load_outbounds env [] m = m"
| "load_outbounds env (p # ps) m = load_outbounds env ps (insert_handler (oe_name env p) (PlainObj p) m)"

text \<open>The order of the global list: first the names that are not in \<open>proxy_names\<close>, then by position there.\<close>

definition name_rank :: "string list \<Rightarrow> string \<Rightarrow> nat" where
  "name_rank names n = (case position_of id n names of None \<Rightarrow> 0 | Some i \<Rightarrow> Suc i)"

definition global_handlers ::
  "('p, 'l, 'c) om_env \<Rightarrow> string list \<Rightarrow> ('p, 'l, 'f) outbound_manager \<Rightarrow> hid list" where
  "global_handlers env proxy_names m =
    map (\<lambda>n. the (map_of (om_handlers m) n))
      (sort_key (name_rank proxy_names) (oe_ord env (map fst (om_handlers m))))"

definition insert_global ::
  "('p, 'l, 'c) om_env \<Rightarrow> 'st cache_file \<Rightarrow> string list \<Rightarrow> ('p, 'l, 'f) outbound_manager \<Rightarrow>
   ('p, 'l, 'f) outbound_manager result" where
  "insert_global env cache proxy_names m =
    (let g = global_handlers env proxy_names m;
         hc = hc_new g DEFAULT_LATENCY_TEST_URL 0 True (oe_now env)
     in bind_result (map_err (\<lambda>e. Other (config_error_text e)) (plain_provider_new PROXY_GLOBAL g hc)) (\<lambda>(chk, pd).
          let remote = map (\<lambda>n. snd (the (map_of (om_providers m) n)))
                (filter (\<lambda>n. fst (the (map_of (om_providers m) n)) \<in> {VtHttp, VtFile})
                  (oe_ord env (map fst (om_providers m))))
          in bind_result (selector_new (heap_ops env m) (group_options PROXY_GLOBAL True None None)
               (pd # remote) (get_selected PROXY_GLOBAL cache)) (\<lambda>h.
             let m = m\<lparr>om_providers := AList.update RESERVED_PROVIDER_NAME (VtCompatible, pd) (om_providers m),
                       om_checks := om_checks m @ [chk]\<rparr>
             in Ok ((insert_handler PROXY_GLOBAL (SelectorObj h) m)
                  \<lparr>om_selectors := AList.update PROXY_GLOBAL (length (om_heap m)) (om_selectors m)\<rparr>))))"

definition load_handlers ::
  "('p, 'l, 'c) om_env \<Rightarrow> 'st cache_file \<Rightarrow> 'p list \<Rightarrow> 'f group list \<Rightarrow> string list \<Rightarrow>
   ('p, 'l, 'f) outbound_manager \<Rightarrow> ('p, 'l, 'f) outbound_manager result" where
  "load_handlers env cache outbounds groups proxy_names m =
    bind_result (load_group_outbounds env cache groups (load_outbounds env outbounds m))
      (insert_global env cache proxy_names)"

text \<open>
  \<^verbatim>\<open>init_handler_connectors\<close>: groups have no connector option, so only plain handlers are
  registered.
\<close>

definition obj_dialer :: "('p, 'l, 'c) om_env \<Rightarrow> ('p, 'l, 'f) handler_obj \<Rightarrow> string option" where
  "obj_dialer env obj = (case obj of PlainObj p \<Rightarrow> oe_dialer env p | _ \<Rightarrow> None)"

fun register_connectors ::
  "('p, 'l, 'c) om_env \<Rightarrow> hid list \<Rightarrow> ('p, 'l, 'f) outbound_manager \<Rightarrow>
   ('p, 'l, 'f) outbound_manager result" where
  "register_connectors env [] m = Ok m"
| "register_connectors env (h # hs) m =
    (case obj_dialer env (om_heap m ! h) of
       None \<Rightarrow> register_connectors env hs m
     | Some n \<Rightarrow>
         (case get_outbound m n of
            None \<Rightarrow> Err (InvalidConfig (''connector '' @ n @ '' not found''))
          | Some d \<Rightarrow>
              register_connectors env hs
                (m\<lparr>om_connectors := AList.update h (ProxyConnector d DirectConnector) (om_connectors m)\<rparr>)))"

definition init_handler_connectors ::
  "('p, 'l, 'c) om_env \<Rightarrow> ('p, 'l, 'f) outbound_manager \<Rightarrow> ('p, 'l, 'f) outbound_manager result" where
  "init_handler_connectors env m =
    register_connectors env (map (\<lambda>n. the (map_of (om_handlers m) n)) (oe_ord env (map fst (om_handlers m)))) m"

definition manager_new ::
  "('p, 'l, 'c) om_env \<Rightarrow> 'st cache_file \<Rightarrow> 'p list \<Rightarrow> 'f group list \<Rightarrow> (string \<times> provider_def) list \<Rightarrow>
   string list \<Rightarrow> ('p, 'l, 'f) outbound_manager result" where
  "manager_new env cache outbounds groups defs proxy_names =
    bind_result (load_proxy_providers env defs om_empty) (\<lambda>m.
    bind_result (load_handlers env cache outbounds groups proxy_names m) (init_handler_connectors env))"

section \<open>The invariant of the manager\<close>

text \<open>
  Handles are addresses of the heap, a handler is entered under its name, the objects of groups
  refer to objects allocated before them, and a selector control is the handler of its name.
\<close>

definition om_ok :: "('p, 'l, 'c) om_env \<Rightarrow> ('p, 'l, 'f) outbound_manager \<Rightarrow> bool" where
  "om_ok env m \<longleftrightarrow>
    distinct (map fst (om_handlers m)) \<and> distinct (map fst (om_providers m)) \<and>
    (\<forall>n h. map_of (om_handlers m) n = Some h \<longrightarrow> h < length (om_heap m) \<and> hname env m h = n) \<and>
    (\<forall>i < length (om_heap m). \<forall>p \<in> set (obj_providers (om_heap m ! i)). \<forall>h \<in> set (pp_proxies p). h < i) \<and>
    (\<forall>n v p. map_of (om_providers m) n = Some (v, p) \<longrightarrow> (\<forall>h \<in> set (pp_proxies p). h < length (om_heap m))) \<and>
    (\<forall>n h. map_of (om_selectors m) n = Some h \<longrightarrow> map_of (om_handlers m) n = Some h)"

lemma om_okD:
  assumes "om_ok env m"
  shows "distinct (map fst (om_handlers m))" "distinct (map fst (om_providers m))"
    "\<And>n h. map_of (om_handlers m) n = Some h \<Longrightarrow> h < length (om_heap m)"
    "\<And>n h. map_of (om_handlers m) n = Some h \<Longrightarrow> hname env m h = n"
    "\<And>i p h. i < length (om_heap m) \<Longrightarrow> p \<in> set (obj_providers (om_heap m ! i)) \<Longrightarrow> h \<in> set (pp_proxies p) \<Longrightarrow> h < i"
    "\<And>n v p h. map_of (om_providers m) n = Some (v, p) \<Longrightarrow> h \<in> set (pp_proxies p) \<Longrightarrow> h < length (om_heap m)"
    "\<And>n h. map_of (om_selectors m) n = Some h \<Longrightarrow> map_of (om_handlers m) n = Some h"
  using assms unfolding om_ok_def by blast+

lemma om_okI:
  assumes "distinct (map fst (om_handlers m))" "distinct (map fst (om_providers m))"
    "\<And>n h. map_of (om_handlers m) n = Some h \<Longrightarrow> h < length (om_heap m) \<and> hname env m h = n"
    "\<And>i p h. i < length (om_heap m) \<Longrightarrow> p \<in> set (obj_providers (om_heap m ! i)) \<Longrightarrow> h \<in> set (pp_proxies p) \<Longrightarrow> h < i"
    "\<And>n v p h. map_of (om_providers m) n = Some (v, p) \<Longrightarrow> h \<in> set (pp_proxies p) \<Longrightarrow> h < length (om_heap m)"
    "\<And>n h. map_of (om_selectors m) n = Some h \<Longrightarrow> map_of (om_handlers m) n = Some h"
  shows "om_ok env m"
  using assms unfolding om_ok_def by blast

lemma om_ok_empty: "om_ok env om_empty"
  by (rule om_okI) (simp_all add: om_empty_def)

text \<open>The heap only grows, so the names of handles stay.\<close>

definition om_ext :: "('p, 'l, 'f) outbound_manager \<Rightarrow> ('p, 'l, 'f) outbound_manager \<Rightarrow> bool" where
  "om_ext m m' \<longleftrightarrow> prefix (om_heap m) (om_heap m')"

lemma om_ext_nth: "om_ext m m' \<Longrightarrow> h < length (om_heap m) \<Longrightarrow> om_heap m' ! h = om_heap m ! h"
  by (auto simp: om_ext_def prefix_def nth_append)

lemma om_ext_refl [simp]: "om_ext m m"
  by (simp add: om_ext_def)

lemma om_ext_trans: "om_ext m m' \<Longrightarrow> om_ext m' m'' \<Longrightarrow> om_ext m m''"
  by (auto simp: om_ext_def intro: prefix_order.trans)

lemma om_ext_length: "om_ext m m' \<Longrightarrow> length (om_heap m) \<le> length (om_heap m')"
  by (auto simp: om_ext_def dest: prefix_length_le)

lemma om_ext_hname: "om_ext m m' \<Longrightarrow> h < length (om_heap m) \<Longrightarrow> hname env m' h = hname env m h"
  by (simp add: hname_def om_ext_nth)

lemma om_ok_provider:
  assumes "om_ok env m" and "\<And>h. h \<in> set (pp_proxies p) \<Longrightarrow> h < length (om_heap m)"
  shows "om_ok env (m\<lparr>om_providers := AList.update n (v, p) (om_providers m), om_checks := c\<rparr>)"
proof -
  note ok = om_okD [OF assms(1)]
  show ?thesis
  proof (rule om_okI, goal_cases)
    case (2) show ?case using ok(2) by (simp add: distinct_update)
  next
    case (5 n' v' p' h) then show ?case using assms(2) ok(6) by (simp add: update_conv' split: if_splits)
  qed (use ok in \<open>simp_all add: hname_def\<close>)
qed

lemma om_ok_plain_heap:
  assumes "om_ok env m"
  shows "om_ok env (m\<lparr>om_heap := om_heap m @ map PlainObj ps\<rparr>)"
proof -
  note ok = om_okD [OF assms]
  show ?thesis
  proof (rule om_okI, goal_cases)
    case (3 n h) then show ?case using ok(3, 4) [of n h] by (simp add: hname_def nth_append)
  next
    case (4 i p h) then show ?case using ok(5) [of i p h] by (cases "i < length (om_heap m)") (simp_all add: nth_append)
  next
    case (5 n v p h) then show ?case using ok(6) [of n v p h] by simp
  qed (use ok in simp_all)
qed

lemma insert_handler_fields [simp]:
  "om_heap (insert_handler n obj m) = om_heap m @ [obj]"
  "om_handlers (insert_handler n obj m) = AList.update n (length (om_heap m)) (om_handlers m)"
  "om_providers (insert_handler n obj m) = om_providers m"
  "om_selectors (insert_handler n obj m) = om_selectors m"
  "om_ext m (insert_handler n obj m)"
  by (simp_all add: insert_handler_def om_ext_def)

lemma om_ok_insert:
  assumes "om_ok env m" and "obj_name (oe_name env) obj = n"
    and "\<And>p h. p \<in> set (obj_providers obj) \<Longrightarrow> h \<in> set (pp_proxies p) \<Longrightarrow> h < length (om_heap m)"
    and "sel = om_selectors m \<and> map_of (om_selectors m) n = None \<or>
      sel = AList.update n (length (om_heap m)) (om_selectors m)"
  shows "om_ok env ((insert_handler n obj m)\<lparr>om_selectors := sel\<rparr>)"
proof -
  note ok = om_okD [OF assms(1)]
  show ?thesis
  proof (rule om_okI, goal_cases)
    case 1 show ?case using ok(1) by (simp add: distinct_update)
  next
    case (3 n' h) then show ?case
      using ok(3, 4) [of n' h] assms(2) by (cases "n' = n") (simp_all add: hname_def nth_append update_conv')
  next
    case (4 i p h) then show ?case
      using ok(5) [of i p h] assms(3) [of p h] by (cases "i < length (om_heap m)") (simp_all add: nth_append less_Suc_eq)
  next
    case (5 n' v p h) then show ?case using ok(6) [of n' v p h] by simp
  next
    case (6 n' h) then show ?case
      using ok(7) [of n' h] assms(4) by (cases "n' = n") (auto simp: update_conv')
  qed (use ok in simp_all)
qed

section \<open>Loading the providers and the plain handlers\<close>

definition uri_valid :: "('p, 'l, 'c) om_env \<Rightarrow> provider_def \<Rightarrow> bool" where
  "uri_valid env d = (case d of HttpProvider url _ _ _ \<Rightarrow> oe_uri_ok env url | _ \<Rightarrow> True)"

text \<open>What a step that only touches the providers keeps.\<close>

definition provider_step ::
  "('p, 'l, 'c) om_env \<Rightarrow> string set \<Rightarrow> ('p, 'l, 'f) outbound_manager \<Rightarrow> ('p, 'l, 'f) outbound_manager \<Rightarrow> bool" where
  "provider_step env N m m' \<longleftrightarrow> om_ok env m' \<and> om_ext m m' \<and> om_handlers m' = om_handlers m \<and>
    om_selectors m' = om_selectors m \<and> fst ` set (om_providers m') = fst ` set (om_providers m) \<union> N"

lemma provider_step_trans:
  "provider_step env N m m' \<Longrightarrow> provider_step env N' m' m'' \<Longrightarrow> provider_step env (N \<union> N') m m''"
  by (auto simp: provider_step_def intro: om_ext_trans)

lemma proxy_set_provider_new_proxies: "pp_proxies (snd (proxy_set_provider_new n hc)) = []"
  by (simp add: proxy_set_provider_new_def case_prod_beta Let_def)

lemma add_provider_spec:
  assumes "om_ok env m"
  shows "case add_provider env n d m of
      Inr m' \<Rightarrow> uri_valid env d \<and> provider_step env {n} m m' | Inl e \<Rightarrow> \<not> uri_valid env d"
proof (cases "uri_valid env d")
  case True
  then have "\<exists>c p. add_provider env n d m =
      Ok (m\<lparr>om_providers := AList.update n (provider_vehicle d, p) (om_providers m), om_checks := c\<rparr>) \<and> pp_proxies p = []"
    by (cases d; simp add: add_provider_def uri_valid_def case_prod_beta Let_def; metis proxy_set_provider_new_proxies)
  then obtain c p where "add_provider env n d m =
      Ok (m\<lparr>om_providers := AList.update n (provider_vehicle d, p) (om_providers m), om_checks := c\<rparr>)"
    "pp_proxies p = []" by blast
  with True om_ok_provider [OF assms, where p = p and n = n and v = "provider_vehicle d" and c = c] show ?thesis
    by (simp add: provider_step_def om_ext_def dom_update)
next
  case False
  then show ?thesis by (cases d) (simp_all add: add_provider_def uri_valid_def)
qed

lemma add_providers_spec:
  assumes "om_ok env m"
  shows "case add_providers env ds m of
      Inr m' \<Rightarrow> (\<forall>d \<in> snd ` set ds. uri_valid env d) \<and> provider_step env (fst ` set ds) m m'
    | Inl e \<Rightarrow> \<exists>d \<in> snd ` set ds. \<not> uri_valid env d"
  using assms
proof (induction ds arbitrary: m)
  case Nil
  then show ?case by (simp add: provider_step_def)
next
  case (Cons x ds)
  obtain n d where x: "x = (n, d)" by (cases x)
  show ?case
  proof (cases "add_provider env n d m")
    case (Inl e)
    then show ?thesis using add_provider_spec [OF Cons.prems, where n = n and d = d] by (simp add: x)
  next
    case (Inr m')
    then have st: "uri_valid env d" "provider_step env {n} m m'" using add_provider_spec [OF Cons.prems, where n = n and d = d] by simp_all
    then have "om_ok env m'" by (simp add: provider_step_def)
    from Cons.IH [OF this] st provider_step_trans [OF st(2)] show ?thesis
      by (auto simp: x Inr split: sum.splits)
  qed
qed

lemma init_provider_spec:
  assumes "om_ok env m" and "n \<in> fst ` set (om_providers m)"
  shows "provider_step env {} m (init_provider env n m)"
proof (cases "oe_fetch env n")
  case (Inl e)
  then show ?thesis using assms by (simp add: init_provider_def provider_step_def split: option.split)
next
  case (Inr ps)
  from assms(2) obtain v p where p: "map_of (om_providers m) n = Some (v, p)"
    by (metis map_of_eq_None_iff not_None_eq surj_pair)
  let ?m = "m\<lparr>om_heap := om_heap m @ map PlainObj ps\<rparr>"
  let ?ids = "[length (om_heap m) ..< length (om_heap m) + length ps]"
  obtain c p' where u: "proxy_set_updater ?ids p = (c, p')" "pp_proxies p' = ?ids"
    by (simp add: proxy_set_updater_def Let_def)
  have "om_ok env (?m\<lparr>om_providers := AList.update n (v, p') (om_providers ?m), om_checks := om_checks m @ [c]\<rparr>)"
    using om_ok_plain_heap [OF assms(1)] by (rule om_ok_provider) (simp add: u)
  then show ?thesis using assms(2) p u Inr
    by (simp add: init_provider_def provider_step_def om_ext_def Let_def insert_absorb dom_update)
qed

lemma init_providers_spec:
  assumes "om_ok env m" and "set ns \<subseteq> fst ` set (om_providers m)"
  shows "provider_step env {} m (fold (init_provider env) ns m)"
  using assms
proof (induction ns arbitrary: m)
  case (Cons n ns)
  then have st: "provider_step env {} m (init_provider env n m)" by (intro init_provider_spec) simp_all
  then have "provider_step env {} (init_provider env n m) (fold (init_provider env) ns (init_provider env n m))"
    using Cons by (intro Cons.IH) (simp_all add: provider_step_def)
  from provider_step_trans [OF st this] show ?case by simp
qed (simp add: provider_step_def)

lemma load_proxy_providers_spec:
  assumes "om_ok env m" and "\<And>ks. mset (oe_ord env ks) = mset ks"
  shows "case load_proxy_providers env ds m of
      Inr m' \<Rightarrow> (\<forall>d \<in> snd ` set ds. uri_valid env d) \<and> provider_step env (fst ` set ds) m m'
    | Inl e \<Rightarrow> \<exists>d \<in> snd ` set ds. \<not> uri_valid env d"
proof (cases "add_providers env ds m")
  case (Inl e)
  then show ?thesis using add_providers_spec [OF assms(1), where ds = ds] by (simp add: load_proxy_providers_def)
next
  case (Inr m')
  then have st: "\<forall>d \<in> snd ` set ds. uri_valid env d" "provider_step env (fst ` set ds) m m'"
    using add_providers_spec [OF assms(1), where ds = ds] by simp_all
  have "set (oe_ord env (map fst (om_providers m'))) \<subseteq> fst ` set (om_providers m')"
    using mset_eq_setD [OF assms(2) [of "map fst (om_providers m')"]] by simp
  then have "provider_step env {} m' (fold (init_provider env) (oe_ord env (map fst (om_providers m'))) m')"
    using st(2) by (intro init_providers_spec) (simp_all add: provider_step_def)
  from provider_step_trans [OF st(2) this] st(1) show ?thesis by (simp add: load_proxy_providers_def Inr)
qed

lemma load_outbounds_spec:
  assumes "om_ok env m" and "om_selectors m = []"
  shows "om_ok env (load_outbounds env ps m) \<and> om_selectors (load_outbounds env ps m) = [] \<and>
    om_providers (load_outbounds env ps m) = om_providers m \<and>
    fst ` set (om_handlers (load_outbounds env ps m)) = fst ` set (om_handlers m) \<union> oe_name env ` set ps"
  using assms
proof (induction ps arbitrary: m)
  case (Cons p ps)
  let ?m = "insert_handler (oe_name env p) (PlainObj p) m"
  have "om_ok env (?m\<lparr>om_selectors := om_selectors m\<rparr>)"
    using Cons.prems by (intro om_ok_insert) simp_all
  then have "om_ok env ?m" by (simp add: insert_handler_def)
  from Cons.IH [OF this] Cons.prems(2) show ?case by (auto simp: dom_update)
qed simp

section \<open>Loading the groups\<close>

definition uses :: "'f group \<Rightarrow> string list" where
  "uses g = (case group_use g of Some us \<Rightarrow> us | None \<Rightarrow> [])"

lemma find_handlers_Ok: "find_handlers hs ns = Ok r \<longleftrightarrow> map (map_of hs) ns = map Some r"
proof (induction ns arbitrary: r)
  case (Cons n ns)
  show ?case
  proof (cases "find_handlers hs ns")
    case (Inl e)
    then have "map (map_of hs) ns \<noteq> map Some r'" for r' using Cons.IH [of r'] by simp
    then show ?thesis using Inl by (cases r) (simp_all split: option.split)
  next
    case (Inr r')
    then have "map (map_of hs) ns = map Some x \<longleftrightarrow> r' = x" for x using Cons.IH [of x] by simp
    then show ?thesis using Inr by (cases r) (simp_all split: option.split)
  qed
qed auto

lemma find_handlers_total: "(\<exists>r. find_handlers hs ns = Ok r) \<longleftrightarrow> set ns \<subseteq> fst ` set hs"
proof (induction ns)
  case (Cons n ns)
  have "map_of hs n = None \<longleftrightarrow> n \<notin> fst ` set hs" by (rule map_of_eq_None_iff)
  with Cons show ?case by (cases "map_of hs n") (auto simp: bind_result_def split: sum.split)
qed simp

lemma plain_provider_new_Ok:
  "hs \<noteq> [] \<Longrightarrow> \<exists>c pd. plain_provider_new n hs hc = Ok (c, pd) \<and> pp_proxies pd = hs \<and> pp_name pd = n"
  by (simp add: plain_provider_new_def case_prod_beta Let_def)

lemma append_use_providers_Ok:
  "set ns \<subseteq> fst ` set reg \<Longrightarrow>
    append_use_providers ns reg ps = Ok (ps @ map (\<lambda>n. snd (the (map_of reg n))) ns)"
proof (induction ns arbitrary: ps)
  case (Cons n ns)
  then have "map_of reg n \<noteq> None" by (simp add: map_of_eq_None_iff)
  with Cons show ?case by auto
qed simp

lemma append_use_providers_Err:
  "\<not> set ns \<subseteq> fst ` set reg \<Longrightarrow> \<exists>e. append_use_providers ns reg ps = Err e"
proof (induction ns arbitrary: ps)
  case (Cons n ns)
  show ?case
  proof (cases "map_of reg n")
    case None
    then show ?thesis by simp
  next
    case (Some vp)
    then have "n \<in> fst ` set reg" by (metis domI dom_map_of_conv_image_fst)
    then have "\<not> set ns \<subseteq> fst ` set reg" using Cons.prems by simp
    from Cons.IH [OF this] show ?thesis by (cases vp) (simp add: Some)
  qed
qed simp

lemma maybe_append_uses: "maybe_append_use_providers (group_use g) reg ps = append_use_providers (uses g) reg ps"
  by (simp add: maybe_append_use_providers_def uses_def split: option.split)

lemma check_group_empty_iff: "check_group_empty (group_proxies g) (group_use g) \<longleftrightarrow> plist g = [] \<and> uses g = []"
  by (auto simp: check_group_empty_def opt_len_def plist_def uses_def split: option.splits)

lemma group_obj_Ok:
  assumes "ps \<noteq> []"
  shows "\<exists>obj. group_obj env cache m g ps = Ok obj \<and> obj_name (oe_name env) obj = group_name g \<and> obj_providers obj = ps \<and>
    obj_dialer env obj = None"
  using assms
  by (cases g; cases ps)
    (simp_all add: group_options_def urltest_new_def lb_new_def selector_new_def obj_dialer_def Let_def)

text \<open>When a group can be loaded, and what loading it does.\<close>

definition group_valid :: "string set \<Rightarrow> string set \<Rightarrow> 'f group \<Rightarrow> bool" where
  "group_valid H R g \<longleftrightarrow> (plist g \<noteq> [] \<or> uses g \<noteq> []) \<and>
    (group_proxies g \<noteq> None \<longrightarrow>
      group_name g \<noteq> PROXY_DIRECT \<and> group_name g \<noteq> PROXY_REJECT \<and> plist g \<noteq> [] \<and> set (plist g) \<subseteq> H) \<and>
    set (uses g) \<subseteq> R"

lemma group_valid_plist: "group_valid H R g \<Longrightarrow> set (plist g) \<subseteq> H"
  by (cases "group_proxies g") (simp_all add: group_valid_def plist_def)

definition group_loadable :: "('p, 'l, 'f) outbound_manager \<Rightarrow> 'f group \<Rightarrow> bool" where
  "group_loadable m g \<longleftrightarrow> group_valid (fst ` set (om_handlers m)) (fst ` set (om_providers m)) g"

definition own_linked :: "('p, 'l, 'f) outbound_manager \<Rightarrow> 'f group \<Rightarrow> hid proxy_provider list \<Rightarrow> bool" where
  "own_linked m g own \<longleftrightarrow>
    (if group_proxies g = None then own = []
     else \<exists>pd. own = [pd] \<and> map Some (pp_proxies pd) = map (get_outbound m) (plist g))"

definition load_step ::
  "('p, 'l, 'c) om_env \<Rightarrow> 'f group \<Rightarrow> ('p, 'l, 'f) outbound_manager \<Rightarrow> ('p, 'l, 'f) outbound_manager \<Rightarrow> bool" where
  "load_step env g m m' \<longleftrightarrow> om_ok env m' \<and> om_ext m m' \<and>
    om_handlers m' = AList.update (group_name g) (length (om_heap m)) (om_handlers m) \<and>
    (\<forall>n. n \<noteq> group_name g \<longrightarrow> map_of (om_providers m') n = map_of (om_providers m) n \<and>
       map_of (om_selectors m') n = map_of (om_selectors m) n) \<and>
    fst ` set (om_providers m) \<subseteq> fst ` set (om_providers m') \<and>
    (\<exists>obj own. om_heap m' = om_heap m @ [obj] \<and> obj_dialer env obj = None \<and> own_linked m g own \<and>
       obj_providers obj = own @ map (\<lambda>n. snd (the (map_of (om_providers m) n))) (uses g))"

lemma load_stepD:
  assumes "load_step env g m m'"
  shows "om_ok env m'" "om_ext m m'"
    "om_handlers m' = AList.update (group_name g) (length (om_heap m)) (om_handlers m)"
    "\<And>n. n \<noteq> group_name g \<Longrightarrow> map_of (om_providers m') n = map_of (om_providers m) n"
    "\<And>n. n \<noteq> group_name g \<Longrightarrow> map_of (om_selectors m') n = map_of (om_selectors m) n"
    "\<exists>obj own. om_heap m' = om_heap m @ [obj] \<and> obj_dialer env obj = None \<and> own_linked m g own \<and>
       obj_providers obj = own @ map (\<lambda>n. snd (the (map_of (om_providers m) n))) (uses g)"
  using assms by (simp_all add: load_step_def)

lemma own_provider_spec:
  assumes "om_ok env m"
  shows "case own_provider env g m of
      Inr (own, m') \<Rightarrow> own_linked m g own \<and> om_ok env m' \<and> om_heap m' = om_heap m \<and>
        om_handlers m' = om_handlers m \<and> om_selectors m' = om_selectors m \<and>
        (\<forall>n. n \<noteq> group_name g \<longrightarrow> map_of (om_providers m') n = map_of (om_providers m) n) \<and>
        fst ` set (om_providers m') = fst ` set (om_providers m) \<union> (if group_proxies g = None then {} else {group_name g}) \<and>
        (\<forall>p \<in> set own. \<forall>h \<in> set (pp_proxies p). h < length (om_heap m)) \<and>
        (group_proxies g \<noteq> None \<longrightarrow> group_name g \<noteq> PROXY_DIRECT \<and> group_name g \<noteq> PROXY_REJECT \<and> plist g \<noteq> [] \<and>
          set (plist g) \<subseteq> fst ` set (om_handlers m))
    | Inl e \<Rightarrow> group_proxies g \<noteq> None \<and> \<not> (group_name g \<noteq> PROXY_DIRECT \<and> group_name g \<noteq> PROXY_REJECT \<and> plist g \<noteq> [] \<and>
          set (plist g) \<subseteq> fst ` set (om_handlers m))"
proof (cases "group_proxies g")
  case None
  then show ?thesis using assms by (simp add: own_provider_def own_linked_def)
next
  case (Some ps)
  then have pl: "plist g = ps" by (simp add: plist_def)
  let ?bad = "group_name g = PROXY_DIRECT \<or> group_name g = PROXY_REJECT"
  consider "?bad" | "\<not> ?bad" "\<not> set ps \<subseteq> fst ` set (om_handlers m)" | "\<not> ?bad" "ps = []"
    | "\<not> ?bad" "ps \<noteq> []" "set ps \<subseteq> fst ` set (om_handlers m)" by blast
  then show ?thesis
  proof cases
    case 1
    then show ?thesis by (auto simp: own_provider_def make_provider_from_proxies_def Some)
  next
    case 2
    then obtain e where "find_handlers (om_handlers m) ps = Err e"
      using find_handlers_total [of "om_handlers m" ps] by (metis sum.exhaust)
    then show ?thesis using 2 by (simp add: own_provider_def make_provider_from_proxies_def Some pl)
  next
    case 3
    then show ?thesis
      by (simp add: own_provider_def make_provider_from_proxies_def Some pl plain_provider_new_def)
  next
    case 4
    then obtain hs where hs: "find_handlers (om_handlers m) ps = Ok hs"
      using find_handlers_total [of "om_handlers m" ps] by blast
    then have lk: "map (map_of (om_handlers m)) ps = map Some hs" by (simp add: find_handlers_Ok)
    then have "hs \<noteq> []" using 4(2) by auto
    then obtain c pd where pd: "plain_provider_new (group_name g) hs
        (hc_new hs DEFAULT_LATENCY_TEST_URL (fst (group_hc g)) (snd (group_hc g)) (oe_now env)) = Ok (c, pd)"
      "pp_proxies pd = hs"
      using plain_provider_new_Ok by blast
    have less: "h < length (om_heap m)" if "h \<in> set hs" for h
    proof -
      from that have "Some h \<in> set (map (map_of (om_handlers m)) ps)" unfolding lk by simp
      then show ?thesis using om_okD(3) [OF assms] by force
    qed
    have "om_ok env (m\<lparr>om_providers := AList.update (group_name g) (VtCompatible, pd) (om_providers m),
        om_checks := om_checks m @ [c]\<rparr>)"
      using assms less by (intro om_ok_provider) (simp_all add: pd(2))
    then show ?thesis
      using 4 hs pd lk less
      by (simp add: own_provider_def make_provider_from_proxies_def Some pl own_linked_def update_conv' dom_update
          get_outbound_def [abs_def])
  qed
qed

lemma used_cong:
  assumes "k \<notin> set ns" and "\<And>n. n \<noteq> k \<Longrightarrow> map_of reg' n = map_of reg n"
  shows "map (\<lambda>n. snd (the (map_of reg' n))) ns = map (\<lambda>n. snd (the (map_of reg n))) ns"
proof (rule map_cong [OF refl])
  fix n assume "n \<in> set ns"
  with assms(1) have "n \<noteq> k" by blast
  with assms(2) show "snd (the (map_of reg' n)) = snd (the (map_of reg n))" by simp
qed

lemma load_group_spec:
  assumes ok: "om_ok env m" and fresh: "map_of (om_selectors m) (group_name g) = None"
    and nu: "group_name g \<notin> set (uses g)"
  shows "case load_group env cache g m of
      Inr m' \<Rightarrow> group_loadable m g \<and> load_step env g m m' | Inl e \<Rightarrow> \<not> group_loadable m g"
proof (cases "plist g = [] \<and> uses g = []")
  case True
  then show ?thesis by (simp add: load_group_def check_group_empty_iff group_loadable_def group_valid_def)
next
  case ne: False
  show ?thesis
  proof (cases "own_provider env g m")
    case (Inl e)
    then show ?thesis using own_provider_spec [OF ok, where g = g] ne
      by (auto simp: load_group_def check_group_empty_iff group_loadable_def group_valid_def)
  next
    case (Inr om)
    obtain own m1 where om: "om = (own, m1)" by (cases om)
    from own_provider_spec [OF ok, where g = g] Inr om
    have o: "own_linked m g own" "om_ok env m1" "om_heap m1 = om_heap m" "om_handlers m1 = om_handlers m"
      "om_selectors m1 = om_selectors m"
      "\<And>n. n \<noteq> group_name g \<Longrightarrow> map_of (om_providers m1) n = map_of (om_providers m) n"
      "fst ` set (om_providers m1) = fst ` set (om_providers m) \<union> (if group_proxies g = None then {} else {group_name g})"
      "\<And>p h. p \<in> set own \<Longrightarrow> h \<in> set (pp_proxies p) \<Longrightarrow> h < length (om_heap m)"
      "group_proxies g \<noteq> None \<longrightarrow> group_name g \<noteq> PROXY_DIRECT \<and> group_name g \<noteq> PROXY_REJECT \<and> plist g \<noteq> [] \<and>
          set (plist g) \<subseteq> fst ` set (om_handlers m)"
      by simp_all
    have us: "set (uses g) \<subseteq> fst ` set (om_providers m1) \<longleftrightarrow> set (uses g) \<subseteq> fst ` set (om_providers m)"
      using nu o(7) by auto
    show ?thesis
    proof (cases "set (uses g) \<subseteq> fst ` set (om_providers m)")
      case False
      then obtain e where "append_use_providers (uses g) (om_providers m1) own = Err e"
        using append_use_providers_Err us by blast
      then show ?thesis using False ne Inr om
        by (simp add: load_group_def check_group_empty_iff maybe_append_uses group_loadable_def group_valid_def)
    next
      case True
      let ?used = "map (\<lambda>n. snd (the (map_of (om_providers m) n))) (uses g)"
      have used: "map (\<lambda>n. snd (the (map_of (om_providers m1) n))) (uses g) = ?used"
        using nu o(6) by (rule used_cong)
      have "own @ ?used \<noteq> []"
        using ne o(1) by (auto simp: own_linked_def plist_def split: if_splits option.splits)
      then obtain obj where obj: "group_obj env cache m1 g (own @ ?used) = Ok obj"
        "obj_name (oe_name env) obj = group_name g" "obj_providers obj = own @ ?used"
        "obj_dialer env obj = None"
        using group_obj_Ok by blast
      have "append_use_providers (uses g) (om_providers m1) own = Ok (own @ ?used)"
        using True us by (simp add: append_use_providers_Ok used)
      then have ld: "load_group env cache g m = Ok (register_group g obj m1)"
        using ne Inr om obj(1) by (simp add: load_group_def check_group_empty_iff maybe_append_uses)
      have below: "h < length (om_heap m1)" if p: "p \<in> set (obj_providers obj)" and h: "h \<in> set (pp_proxies p)" for p h
      proof (cases "p \<in> set own")
        case False
        then obtain n where n: "n \<in> set (uses g)" "p = snd (the (map_of (om_providers m) n))" using p obj(3) by auto
        then have "map_of (om_providers m) n \<noteq> None" using True by (auto simp: map_of_eq_None_iff)
        then obtain v where "map_of (om_providers m) n = Some (v, p)" using n(2) by (cases "the (map_of (om_providers m) n)") auto
        then show ?thesis using om_okD(6) [OF ok] h o(3) by simp
      qed (use o(3, 8) h in simp)
      have "om_ok env (register_group g obj m1)"
        unfolding register_group_def
        using o(2) obj(2) below fresh o(5) by (intro om_ok_insert) (simp_all split: group.split)
      then have "load_step env g m (register_group g obj m1)"
        using o obj(3, 4)
        by (auto simp: load_step_def register_group_def om_ext_def update_conv' split: group.split)
      moreover have "group_loadable m g" using ne True o(9) by (auto simp: group_loadable_def group_valid_def)
      ultimately show ?thesis by (simp add: ld)
    qed
  qed
qed

definition group_linked :: "('p, 'l, 'f) outbound_manager \<Rightarrow> 'f group \<Rightarrow> bool" where
  "group_linked m g \<longleftrightarrow> (\<exists>h own. get_outbound m (group_name g) = Some h \<and> own_linked m g own \<and>
    obj_providers (om_heap m ! h) = own @ map (\<lambda>n. snd (the (map_of (om_providers m) n))) (uses g))"

lemma sorted_deps_Cons:
  assumes "sorted_deps (g # gs)"
  shows "sorted_deps gs" and "\<And>g'. g' \<in> set (g # gs) \<Longrightarrow> group_name g' \<notin> set (plist g)"
proof -
  show "sorted_deps gs"
    unfolding sorted_deps_def
  proof (intro allI impI)
    fix i j assume "i < length gs" "j \<le> i"
    then show "group_name (gs ! i) \<notin> set (plist (gs ! j))"
      using assms [unfolded sorted_deps_def, rule_format, of "Suc i" "Suc j"] by simp
  qed
  fix g' assume "g' \<in> set (g # gs)"
  then obtain i where "i < length (g # gs)" "g' = (g # gs) ! i" by (metis in_set_conv_nth)
  then show "group_name g' \<notin> set (plist g)"
    using assms [unfolded sorted_deps_def, rule_format, of i 0] by simp
qed

lemma own_linked_cong:
  "(\<And>n. n \<in> set (plist g) \<Longrightarrow> get_outbound m' n = get_outbound m n) \<Longrightarrow> own_linked m' g own = own_linked m g own"
  by (simp add: own_linked_def cong: map_cong)

lemma load_step_linked:
  assumes "om_ok env m" "load_step env g m m1" "om_ext m1 m'" "group_name g \<notin> set (plist g)" "group_name g \<notin> set (uses g)"
    and "\<And>n. n \<in> insert (group_name g) (set (plist g)) \<Longrightarrow> get_outbound m' n = get_outbound m1 n"
    and "\<And>n. n \<in> set (uses g) \<Longrightarrow> map_of (om_providers m') n = map_of (om_providers m1) n"
  shows "group_linked m' g"
proof -
  note st = load_stepD [OF assms(2)]
  from st(6) obtain obj own where o: "om_heap m1 = om_heap m @ [obj]" "own_linked m g own"
    "obj_providers obj = own @ map (\<lambda>n. snd (the (map_of (om_providers m) n))) (uses g)" by blast
  have "get_outbound m' (group_name g) = Some (length (om_heap m))"
    using assms(6) [of "group_name g"] st(3) by (simp add: get_outbound_def update_conv')
  moreover have "om_heap m' ! length (om_heap m) = obj"
    using om_ext_nth [OF assms(3), of "length (om_heap m)"] o(1) by simp
  moreover have "own_linked m' g own"
  proof -
    have "get_outbound m' n = get_outbound m n" if "n \<in> set (plist g)" for n
    proof -
      have "n \<noteq> group_name g" using that assms(4) by blast
      then show ?thesis using assms(6) [of n] that st(3) by (simp add: get_outbound_def update_conv')
    qed
    then show ?thesis using o(2) own_linked_cong [of g m' m own] by simp
  qed
  moreover have "map (\<lambda>n. snd (the (map_of (om_providers m') n))) (uses g) =
      map (\<lambda>n. snd (the (map_of (om_providers m) n))) (uses g)"
  proof (rule map_cong [OF refl])
    fix n assume n: "n \<in> set (uses g)"
    then have "n \<noteq> group_name g" using assms(5) by blast
    then show "snd (the (map_of (om_providers m') n)) = snd (the (map_of (om_providers m) n))"
      using assms(7) [OF n] st(4) by simp
  qed
  ultimately show ?thesis
    unfolding group_linked_def
    by (intro exI [of _ "length (om_heap m)"] exI [of _ own]) (simp add: o(3))
qed

text \<open>The dialers that the handlers ask for are among those in \<open>D\<close>.\<close>

definition dialers_from :: "('p, 'l, 'c) om_env \<Rightarrow> string set \<Rightarrow> ('p, 'l, 'f) outbound_manager \<Rightarrow> bool" where
  "dialers_from env D m \<longleftrightarrow>
    (\<forall>n h d. map_of (om_handlers m) n = Some h \<longrightarrow> obj_dialer env (om_heap m ! h) = Some d \<longrightarrow> d \<in> D)"

lemma dialers_from_insert:
  assumes "om_ok env m" "dialers_from env D m" "set_option (obj_dialer env obj) \<subseteq> D"
    and "om_heap m' = om_heap m @ [obj]" "om_handlers m' = AList.update n (length (om_heap m)) (om_handlers m)"
  shows "dialers_from env D m'"
  unfolding dialers_from_def
proof (intro allI impI)
  fix n' h d assume h: "map_of (om_handlers m') n' = Some h" and d: "obj_dialer env (om_heap m' ! h) = Some d"
  show "d \<in> D"
  proof (cases "n' = n")
    case True
    then have "h = length (om_heap m)" using h assms(5) by (simp add: update_conv')
    then show ?thesis using d assms(3, 4) by simp
  next
    case False
    then have "map_of (om_handlers m) n' = Some h" using h assms(5) by (simp add: update_conv')
    moreover from om_okD(3) [OF assms(1) this] have "om_heap m' ! h = om_heap m ! h" by (simp add: assms(4) nth_append)
    ultimately show ?thesis using assms(2) d unfolding dialers_from_def by metis
  qed
qed

definition groups_step ::
  "('p, 'l, 'c) om_env \<Rightarrow> 'f group list \<Rightarrow> ('p, 'l, 'f) outbound_manager \<Rightarrow> ('p, 'l, 'f) outbound_manager \<Rightarrow> bool" where
  "groups_step env gs m m' \<longleftrightarrow> om_ok env m' \<and> om_ext m m' \<and>
    fst ` set (om_handlers m') = fst ` set (om_handlers m) \<union> group_name ` set gs \<and>
    (\<forall>n. n \<notin> group_name ` set gs \<longrightarrow> map_of (om_handlers m') n = map_of (om_handlers m) n \<and>
       map_of (om_providers m') n = map_of (om_providers m) n) \<and>
    (\<forall>D. dialers_from env D m \<longrightarrow> dialers_from env D m') \<and> (\<forall>g \<in> set gs. group_linked m' g)"

lemma load_groups_spec:
  assumes "om_ok env m" "distinct (map group_name gs)" "sorted_deps gs"
    and "\<And>g. g \<in> set gs \<Longrightarrow> map_of (om_selectors m) (group_name g) = None"
    and "\<And>g g'. g \<in> set gs \<Longrightarrow> g' \<in> set gs \<Longrightarrow> group_name g' \<notin> set (uses g)"
  shows "case load_groups env cache gs m of
      Inr m' \<Rightarrow> (\<forall>g \<in> set gs. group_valid (fst ` set (om_handlers m) \<union> group_name ` set gs) (fst ` set (om_providers m)) g) \<and>
        groups_step env gs m m'
    | Inl e \<Rightarrow> \<not> (\<forall>g \<in> set gs. group_valid (fst ` set (om_handlers m) \<union> group_name ` set gs) (fst ` set (om_providers m)) g)"
  using assms
proof (induction gs arbitrary: m)
  case Nil
  then show ?case by (simp add: groups_step_def)
next
  case (Cons g gs)
  note sd = sorted_deps_Cons [OF Cons.prems(3)]
  let ?H = "fst ` set (om_handlers m)" and ?R = "fst ` set (om_providers m)"
  have own: "group_loadable m g \<longleftrightarrow> group_valid (?H \<union> group_name ` set (g # gs)) ?R g"
    using sd(2) unfolding group_loadable_def group_valid_def by auto
  have lg: "case load_group env cache g m of
      Inr m' \<Rightarrow> group_loadable m g \<and> load_step env g m m' | Inl e \<Rightarrow> \<not> group_loadable m g"
    using Cons.prems(1, 4, 5) by (intro load_group_spec) simp_all
  show ?case
  proof (cases "load_group env cache g m")
    case (Inl e)
    then show ?thesis using lg own by auto
  next
    case (Inr m1)
    then have st: "group_loadable m g" "load_step env g m m1" using lg by simp_all
    note m1 = load_stepD [OF st(2)]
    have ng: "group_name g' \<noteq> group_name g" if "g' \<in> set gs" for g'
      using that Cons.prems(2) by (metis distinct.simps(2) image_eqI list.simps(9) set_map)
    have H1: "fst ` set (om_handlers m1) = insert (group_name g) ?H" using m1(3) by (simp add: dom_update)
    have R1: "n \<in> fst ` set (om_providers m1) \<longleftrightarrow> n \<in> ?R" if "n \<noteq> group_name g" for n
      using m1(4) [OF that] map_of_eq_None_iff [of "om_providers m1" n] map_of_eq_None_iff [of "om_providers m" n] by auto
    have v1: "group_valid (fst ` set (om_handlers m1) \<union> group_name ` set gs) (fst ` set (om_providers m1)) g' \<longleftrightarrow>
        group_valid (?H \<union> group_name ` set (g # gs)) ?R g'" if g': "g' \<in> set gs" for g'
    proof -
      have "n \<in> fst ` set (om_providers m1) \<longleftrightarrow> n \<in> ?R" if "n \<in> set (uses g')" for n
      proof -
        have "n \<noteq> group_name g" using Cons.prems(5) [of g' g] g' that by auto
        then show ?thesis by (rule R1)
      qed
      then have "set (uses g') \<subseteq> fst ` set (om_providers m1) \<longleftrightarrow> set (uses g') \<subseteq> ?R" by blast
      then show ?thesis by (simp add: group_valid_def H1)
    qed
    have IH: "case load_groups env cache gs m1 of
        Inr m' \<Rightarrow> (\<forall>g' \<in> set gs. group_valid (fst ` set (om_handlers m1) \<union> group_name ` set gs) (fst ` set (om_providers m1)) g') \<and>
          groups_step env gs m1 m'
      | Inl e \<Rightarrow> \<not> (\<forall>g' \<in> set gs. group_valid (fst ` set (om_handlers m1) \<union> group_name ` set gs) (fst ` set (om_providers m1)) g')"
      using m1(1, 5) sd(1) Cons.prems(2, 4, 5) ng by (intro Cons.IH) simp_all
    show ?thesis
    proof (cases "load_groups env cache gs m1")
      case Inl': (Inl e)
      then show ?thesis using IH v1 by (auto simp: Inr)
    next
      case Inr': (Inr m')
      then have gst: "groups_step env gs m1 m'" using IH by simp
      then have m': "om_ext m1 m'" "\<And>n. n \<notin> group_name ` set gs \<Longrightarrow> map_of (om_handlers m') n = map_of (om_handlers m1) n"
        "\<And>n. n \<notin> group_name ` set gs \<Longrightarrow> map_of (om_providers m') n = map_of (om_providers m1) n"
        unfolding groups_step_def by blast+
      have "group_linked m' g"
      proof (rule load_step_linked [OF Cons.prems(1) st(2) m'(1)])
        show "group_name g \<notin> set (plist g)" "group_name g \<notin> set (uses g)" using sd(2) Cons.prems(5) by auto
        show "get_outbound m' n = get_outbound m1 n" if "n \<in> insert (group_name g) (set (plist g))" for n
        proof -
          have "n \<notin> group_name ` set gs" using that sd(2) ng by force
          from m'(2) [OF this] show ?thesis by (simp add: get_outbound_def)
        qed
        show "map_of (om_providers m') n = map_of (om_providers m1) n" if "n \<in> set (uses g)" for n
          using that Cons.prems(5) [of g] by (intro m'(3)) auto
      qed
      moreover have "dialers_from env D m \<longrightarrow> dialers_from env D m1" for D
        using m1(3, 6) dialers_from_insert [OF Cons.prems(1), where m' = m1] by fastforce
      ultimately have "groups_step env (g # gs) m m'"
        using gst m1(2, 4) om_ext_trans [OF m1(2) m'(1)] H1
        by (auto simp: groups_step_def m1(3) update_conv')
      moreover have "\<forall>g' \<in> set (g # gs). group_valid (?H \<union> group_name ` set (g # gs)) ?R g'"
        using IH v1 own st(1) Inr' by auto
      ultimately show ?thesis by (simp add: Inr Inr')
    qed
  qed
qed

section \<open>The global selector and the connectors\<close>

lemma the_image_dom: "(\<lambda>n. the (f n)) ` dom f = ran f"
  by (force simp: ran_def dom_def)

lemma set_global_handlers:
  assumes "\<And>ks. mset (oe_ord env ks) = mset ks" "distinct (map fst (om_handlers m))"
  shows "set (global_handlers env names m) = ran (map_of (om_handlers m))"
proof -
  have "set (sort_key (name_rank names) (oe_ord env (map fst (om_handlers m)))) = dom (map_of (om_handlers m))"
    using mset_eq_setD [OF assms(1) [of "map fst (om_handlers m)"]] by (simp add: dom_map_of_conv_image_fst)
  then show ?thesis by (simp add: global_handlers_def the_image_dom del: set_sort)
qed

definition global_linked :: "('p, 'l, 'f) outbound_manager \<Rightarrow> bool" where
  "global_linked m \<longleftrightarrow> (\<exists>h s pd rest. get_outbound m PROXY_GLOBAL = Some h \<and>
    get_selector_control m PROXY_GLOBAL = Some h \<and> om_heap m ! h = SelectorObj s \<and> sl_providers s = pd # rest \<and>
    set (pp_proxies pd) = {x. \<exists>n. n \<noteq> PROXY_GLOBAL \<and> get_outbound m n = Some x})"

definition with_global ::
  "hid selector_handler \<Rightarrow> hid proxy_provider \<Rightarrow> hid list list \<Rightarrow> ('p, 'l, 'f) outbound_manager \<Rightarrow>
   ('p, 'l, 'f) outbound_manager" where
  "with_global s pd c m =
    (insert_handler PROXY_GLOBAL (SelectorObj s)
      (m\<lparr>om_providers := AList.update RESERVED_PROVIDER_NAME (VtCompatible, pd) (om_providers m), om_checks := c\<rparr>))
      \<lparr>om_selectors := AList.update PROXY_GLOBAL (length (om_heap m)) (om_selectors m)\<rparr>"

lemma with_global_fields [simp]:
  "om_heap (with_global s pd c m) = om_heap m @ [SelectorObj s]"
  "om_handlers (with_global s pd c m) = AList.update PROXY_GLOBAL (length (om_heap m)) (om_handlers m)"
  "om_providers (with_global s pd c m) = AList.update RESERVED_PROVIDER_NAME (VtCompatible, pd) (om_providers m)"
  "om_selectors (with_global s pd c m) = AList.update PROXY_GLOBAL (length (om_heap m)) (om_selectors m)"
  by (simp_all add: with_global_def)

lemma insert_global_Ok:
  assumes "om_handlers m \<noteq> []" "\<And>ks. mset (oe_ord env ks) = mset ks"
  shows "\<exists>pd rest s c. insert_global env cache names m = Ok (with_global s pd c m) \<and>
    sl_providers s = pd # rest \<and> go_name (sl_opts s) = PROXY_GLOBAL \<and>
    pp_proxies pd = global_handlers env names m \<and>
    (\<forall>p \<in> set rest. \<exists>n v. map_of (om_providers m) n = Some (v, p))"
proof -
  let ?g = "global_handlers env names m"
  have "length ?g = length (om_handlers m)"
    using mset_eq_length [OF assms(2) [of "map fst (om_handlers m)"]] by (simp add: global_handlers_def)
  then have "?g \<noteq> []" using assms(1) by auto
  then obtain c pd where pd: "plain_provider_new PROXY_GLOBAL ?g (hc_new ?g DEFAULT_LATENCY_TEST_URL 0 True (oe_now env)) = Ok (c, pd)"
    "pp_proxies pd = ?g" using plain_provider_new_Ok by blast
  let ?rest = "map (\<lambda>n. snd (the (map_of (om_providers m) n)))
      (filter (\<lambda>n. fst (the (map_of (om_providers m) n)) \<in> {VtHttp, VtFile}) (oe_ord env (map fst (om_providers m))))"
  obtain s where s: "selector_new (heap_ops env m) (group_options PROXY_GLOBAL True None None) (pd # ?rest)
      (get_selected PROXY_GLOBAL cache) = Ok s" "sl_providers s = pd # ?rest" "go_name (sl_opts s) = PROXY_GLOBAL"
    by (simp add: selector_new_def group_options_def Let_def)
  have "\<exists>n v. map_of (om_providers m) n = Some (v, p)" if p: "p \<in> set ?rest" for p
  proof -
    from p obtain n where n: "n \<in> set (oe_ord env (map fst (om_providers m)))" "p = snd (the (map_of (om_providers m) n))" by auto
    then have "map_of (om_providers m) n \<noteq> None"
      using mset_eq_setD [OF assms(2) [of "map fst (om_providers m)"]] by (auto simp: map_of_eq_None_iff)
    then show ?thesis using n(2) by (metis option.collapse prod.collapse)
  qed
  moreover have "insert_global env cache names m = Ok (with_global s pd (om_checks m @ [c]) m)"
    using pd(1) s(1) by (simp add: insert_global_def with_global_def Let_def)
  ultimately show ?thesis using s(2, 3) pd(2)
    by (intro exI [of _ pd] exI [of _ ?rest] exI [of _ s] exI [of _ "om_checks m @ [c]"]) simp
qed

lemma register_connectors_spec:
  "case register_connectors env hs m of
     Inr m' \<Rightarrow> m' = m\<lparr>om_connectors := om_connectors m'\<rparr> \<and>
       (\<forall>h \<in> set hs. \<forall>d. obj_dialer env (om_heap m ! h) = Some d \<longrightarrow> (\<exists>c. get_outbound m d = Some c)) \<and>
       (\<forall>h. map_of (om_connectors m') h =
         (case if h \<in> set hs then obj_dialer env (om_heap m ! h) else None of
            Some d \<Rightarrow> Some (ProxyConnector (the (get_outbound m d)) DirectConnector)
          | None \<Rightarrow> map_of (om_connectors m) h))
   | Inl e \<Rightarrow> \<exists>h \<in> set hs. \<exists>d. obj_dialer env (om_heap m ! h) = Some d \<and> get_outbound m d = None"
proof (induction hs arbitrary: m)
  case (Cons h hs)
  show ?case
  proof (cases "obj_dialer env (om_heap m ! h)")
    case None
    then show ?thesis using Cons.IH [of m] by (auto split: sum.splits if_splits option.splits)
  next
    case (Some d)
    show ?thesis
    proof (cases "get_outbound m d")
      case None
      then show ?thesis using Some by auto
    next
      case Some': (Some c)
      let ?m = "m\<lparr>om_connectors := AList.update h (ProxyConnector c DirectConnector) (om_connectors m)\<rparr>"
      have "get_outbound ?m = get_outbound m" by (simp add: get_outbound_def fun_eq_iff)
      then show ?thesis using Cons.IH [of ?m] Some Some'
        by (auto simp: update_conv' split: sum.splits if_splits option.splits)
    qed
  qed
qed simp

lemma insert_global_spec:
  assumes "om_ok env m" "\<And>ks. mset (oe_ord env ks) = mset ks" "map_of (om_handlers m) PROXY_GLOBAL = None"
  shows "case insert_global env cache names m of
      Inr m' \<Rightarrow> om_handlers m \<noteq> [] \<and> om_ok env m' \<and> om_ext m m' \<and> global_linked m' \<and>
        (\<forall>n. n \<noteq> PROXY_GLOBAL \<longrightarrow> get_outbound m' n = get_outbound m n) \<and>
        (\<forall>n. n \<noteq> RESERVED_PROVIDER_NAME \<longrightarrow> map_of (om_providers m') n = map_of (om_providers m) n) \<and>
        (\<forall>D. dialers_from env D m \<longrightarrow> dialers_from env D m')
    | Inl e \<Rightarrow> om_handlers m = []"
proof (cases "om_handlers m = []")
  case True
  have "oe_ord env [] = []" using assms(2) [of "[]"] by simp
  then have "global_handlers env names m = []" using True by (simp add: global_handlers_def)
  then show ?thesis using True by (simp add: insert_global_def plain_provider_new_def)
next
  case False
  obtain pd rest s c where g: "insert_global env cache names m = Ok (with_global s pd c m)"
    "sl_providers s = pd # rest" "go_name (sl_opts s) = PROXY_GLOBAL" "pp_proxies pd = global_handlers env names m"
    "\<forall>p \<in> set rest. \<exists>n v. map_of (om_providers m) n = Some (v, p)"
    using insert_global_Ok [OF False assms(2), where cache = cache and names = names] by blast
  let ?m' = "with_global s pd c m"
  let ?m = "m\<lparr>om_providers := AList.update RESERVED_PROVIDER_NAME (VtCompatible, pd) (om_providers m), om_checks := c\<rparr>"
  note ok = om_okD [OF assms(1)]
  have all: "set (pp_proxies pd) = ran (map_of (om_handlers m))"
    using set_global_handlers [OF assms(2) ok(1)] g(4) by simp
  have pd: "h < length (om_heap m)" if "h \<in> set (pp_proxies pd)" for h
    using that ok(3) by (auto simp: all ran_def)
  have m: "om_ok env ?m" using assms(1) pd by (rule om_ok_provider)
  have "h < length (om_heap ?m)" if p: "p \<in> set (obj_providers (SelectorObj s))" and h: "h \<in> set (pp_proxies p)" for p h
  proof (cases "p = pd")
    case True
    then show ?thesis using pd h by simp
  next
    case False
    then have "p \<in> set rest" using p g(2) by simp
    with g(5) obtain n v where "map_of (om_providers m) n = Some (v, p)" by blast
    from ok(6) [OF this h] show ?thesis by simp
  qed
  then have "om_ok env ((insert_handler PROXY_GLOBAL (SelectorObj s) ?m)
      \<lparr>om_selectors := AList.update PROXY_GLOBAL (length (om_heap m)) (om_selectors m)\<rparr>)"
    using m g(3) by (intro om_ok_insert) simp_all
  then have ok': "om_ok env ?m'" by (simp add: with_global_def)
  have out: "get_outbound ?m' n = (if n = PROXY_GLOBAL then Some (length (om_heap m)) else get_outbound m n)" for n
    by (simp add: get_outbound_def update_conv')
  have "n \<noteq> PROXY_GLOBAL" if "map_of (om_handlers m) n = Some x" for n x using that assms(3) by auto
  then have "set (pp_proxies pd) = {x. \<exists>n. n \<noteq> PROXY_GLOBAL \<and> get_outbound ?m' n = Some x}"
    by (auto simp: all ran_def out get_outbound_def [of m])
  then have "global_linked ?m'"
    unfolding global_linked_def using g(2)
    by (intro exI [of _ "length (om_heap m)"] exI [of _ s] exI [of _ pd] exI [of _ rest])
      (simp add: out get_selector_control_def update_conv')
  moreover have "dialers_from env D m \<longrightarrow> dialers_from env D ?m'" for D
    using dialers_from_insert [OF assms(1), of D "SelectorObj s" ?m' PROXY_GLOBAL] by (simp add: obj_dialer_def)
  moreover have "map_of (om_providers ?m') n = map_of (om_providers m) n" if "n \<noteq> RESERVED_PROVIDER_NAME" for n
    using that by (simp add: update_conv')
  ultimately show ?thesis using g(1) ok' False out by (simp add: om_ext_def)
qed

lemma group_linked_frame:
  assumes "group_linked m g" "om_ok env m" "om_ext m m'"
    and "\<And>n. n \<in> insert (group_name g) (set (plist g)) \<Longrightarrow> get_outbound m' n = get_outbound m n"
    and "\<And>n. n \<in> set (uses g) \<Longrightarrow> map_of (om_providers m') n = map_of (om_providers m) n"
  shows "group_linked m' g"
proof -
  from assms(1) obtain h own where h: "get_outbound m (group_name g) = Some h" "own_linked m g own"
    "obj_providers (om_heap m ! h) = own @ map (\<lambda>n. snd (the (map_of (om_providers m) n))) (uses g)"
    unfolding group_linked_def by blast
  have "h < length (om_heap m)" using om_okD(3) [OF assms(2)] h(1) by (simp add: get_outbound_def)
  then have "om_heap m' ! h = om_heap m ! h" by (rule om_ext_nth [OF assms(3)])
  moreover have "own_linked m' g own" using h(2) own_linked_cong [of g m' m own] assms(4) by simp
  moreover have "map (\<lambda>n. snd (the (map_of (om_providers m') n))) (uses g) =
      map (\<lambda>n. snd (the (map_of (om_providers m) n))) (uses g)" using assms(5) by simp
  ultimately show ?thesis unfolding group_linked_def
    using assms(4) [of "group_name g"] h(1, 3) by (intro exI [of _ h] exI [of _ own]) simp
qed

lemma om_ok_connectors: "om_ok env m \<Longrightarrow> om_ok env (m\<lparr>om_connectors := c\<rparr>)"
  by (simp add: om_ok_def hname_def)

lemma get_outbound_connectors [simp]: "get_outbound (m\<lparr>om_connectors := c\<rparr>) = get_outbound m"
  by (simp add: get_outbound_def fun_eq_iff)

lemma linked_connectors [simp]:
  "group_linked (m\<lparr>om_connectors := c\<rparr>) g = group_linked m g"
  "global_linked (m\<lparr>om_connectors := c\<rparr>) = global_linked m"
  by (simp_all add: group_linked_def own_linked_def global_linked_def get_selector_control_def)

section \<open>Properties\<close>

text \<open>What makes a configuration loadable, and the dialers its proxies name.\<close>

definition manager_valid ::
  "('p, 'l, 'c) om_env \<Rightarrow> 'p list \<Rightarrow> 'f group list \<Rightarrow> (string \<times> provider_def) list \<Rightarrow> bool" where
  "manager_valid env outs groups defs \<longleftrightarrow>
    (\<forall>d \<in> snd ` set defs. uri_valid env d) \<and> distinct (map group_name groups) \<and> deps_acyclic groups \<and>
    (\<forall>g \<in> set groups. group_valid (oe_name env ` set outs \<union> group_name ` set groups) (fst ` set defs) g) \<and>
    (outs \<noteq> [] \<or> groups \<noteq> [])"

definition dialers_ok :: "('p, 'l, 'c) om_env \<Rightarrow> 'p list \<Rightarrow> 'f group list \<Rightarrow> bool" where
  "dialers_ok env outs groups \<longleftrightarrow> (\<forall>p \<in> set outs. set_option (oe_dialer env p) \<subseteq>
    insert PROXY_GLOBAL (oe_name env ` set outs \<union> group_name ` set groups))"

lemma load_outbounds_dialers:
  assumes "om_ok env m" "om_selectors m = []" "dialers_from env D m" "\<And>p. p \<in> set ps \<Longrightarrow> set_option (oe_dialer env p) \<subseteq> D"
  shows "dialers_from env D (load_outbounds env ps m)"
  using assms
proof (induction ps arbitrary: m)
  case (Cons p ps)
  let ?m = "insert_handler (oe_name env p) (PlainObj p) m"
  have "om_ok env (?m\<lparr>om_selectors := om_selectors m\<rparr>)"
    using Cons.prems(1, 2) by (intro om_ok_insert) simp_all
  then have "om_ok env ?m" by (simp add: insert_handler_def)
  moreover have "dialers_from env D ?m"
    using Cons.prems(1, 3, 4) by (rule_tac dialers_from_insert [where obj = "PlainObj p"]) (simp_all add: obj_dialer_def)
  ultimately show ?case using Cons.prems(2, 4) by (simp add: Cons.IH)
qed simp

lemma load_group_outbounds_spec:
  assumes "om_ok env m" "\<And>ks. mset (oe_ord env ks) = mset ks" "om_selectors m = []"
    and "\<And>g g'. g \<in> set gs \<Longrightarrow> g' \<in> set gs \<Longrightarrow> group_name g' \<notin> set (uses g)"
  shows "case load_group_outbounds env cache gs m of
      Inr m' \<Rightarrow> distinct (map group_name gs) \<and> deps_acyclic gs \<and> groups_step env gs m m' \<and>
        (\<forall>g \<in> set gs. group_valid (fst ` set (om_handlers m) \<union> group_name ` set gs) (fst ` set (om_providers m)) g)
    | Inl e \<Rightarrow> \<not> (distinct (map group_name gs) \<and> deps_acyclic gs \<and>
        (\<forall>g \<in> set gs. group_valid (fst ` set (om_handlers m) \<union> group_name ` set gs) (fst ` set (om_providers m)) g))"
proof (cases "proxy_groups_dag_sort (oe_ord env) gs")
  case (Inl e)
  then show ?thesis using dag_sort_spec [OF assms(2), of gs] by (auto simp: load_group_outbounds_def)
next
  case (Inr gs')
  then have s: "mset gs' = mset gs" "sorted_deps gs'" "distinct (map group_name gs)" "deps_acyclic gs"
    using dag_sort_spec [OF assms(2), of gs] by simp_all
  have set: "set gs' = set gs" using s(1) by (rule mset_eq_setD)
  have "distinct (map group_name gs')" using s(1, 3) by (metis mset_eq_imp_distinct_iff mset_map)
  then have "case load_groups env cache gs' m of
      Inr m' \<Rightarrow> (\<forall>g \<in> set gs'. group_valid (fst ` set (om_handlers m) \<union> group_name ` set gs') (fst ` set (om_providers m)) g) \<and>
        groups_step env gs' m m'
    | Inl e \<Rightarrow> \<not> (\<forall>g \<in> set gs'. group_valid (fst ` set (om_handlers m) \<union> group_name ` set gs') (fst ` set (om_providers m)) g)"
    using assms(1, 3, 4) s(2) by (intro load_groups_spec) (simp_all add: set)
  then show ?thesis using s(3, 4) Inr
    by (simp add: load_group_outbounds_def set groups_step_def split: sum.splits)
qed

definition names_free :: "('p, 'l, 'c) om_env \<Rightarrow> 'p list \<Rightarrow> 'f group list \<Rightarrow> (string \<times> provider_def) list \<Rightarrow> bool" where
  "names_free env outs groups defs \<longleftrightarrow>
    PROXY_GLOBAL \<notin> oe_name env ` set outs \<union> group_name ` set groups \<and> RESERVED_PROVIDER_NAME \<notin> fst ` set defs \<and>
    (\<forall>g \<in> set groups. \<forall>g' \<in> set groups. group_name g' \<notin> set (uses g))"

definition manager_linked ::
  "('p, 'l, 'c) om_env \<Rightarrow> 'p list \<Rightarrow> 'f group list \<Rightarrow> ('p, 'l, 'f) outbound_manager \<Rightarrow> bool" where
  "manager_linked env outs groups m \<longleftrightarrow> om_ok env m \<and> global_linked m \<and> (\<forall>g \<in> set groups. group_linked m g) \<and>
    (\<forall>n. get_outbound m n \<noteq> None \<longleftrightarrow> n \<in> insert PROXY_GLOBAL (oe_name env ` set outs \<union> group_name ` set groups))"

lemma load_handlers_spec:
  fixes groups :: "'f group list" and m :: "('p, 'l, 'f) outbound_manager"
  assumes ord: "\<And>ks. mset (oe_ord env ks) = mset ks" and free: "names_free env outs groups defs"
    and m: "om_ok env m" "om_handlers m = []" "om_selectors m = []" "fst ` set (om_providers m) = fst ` set defs"
    and D: "\<And>p. p \<in> set outs \<Longrightarrow> set_option (oe_dialer env p) \<subseteq> D"
  shows "case load_handlers env cache outs groups names m of
      Inr m' \<Rightarrow> distinct (map group_name groups) \<and> deps_acyclic groups \<and>
        (\<forall>g \<in> set groups. group_valid (oe_name env ` set outs \<union> group_name ` set groups) (fst ` set defs) g) \<and>
        (outs \<noteq> [] \<or> groups \<noteq> []) \<and> manager_linked env outs groups m' \<and> dialers_from env D m'
    | Inl e \<Rightarrow> \<not> (distinct (map group_name groups) \<and> deps_acyclic groups \<and>
        (\<forall>g \<in> set groups. group_valid (oe_name env ` set outs \<union> group_name ` set groups) (fst ` set defs) g) \<and>
        (outs \<noteq> [] \<or> groups \<noteq> []))"
proof -
  let ?m = "load_outbounds env outs m"
  note lo = load_outbounds_spec [OF m(1, 3), of outs]
  have H: "fst ` set (om_handlers ?m) = oe_name env ` set outs" "fst ` set (om_providers ?m) = fst ` set defs"
    using lo m(2, 4) by simp_all
  have "dialers_from env D m" by (simp add: dialers_from_def m(2))
  then have dm: "dialers_from env D ?m" using load_outbounds_dialers [OF m(1, 3)] D by blast
  have lg: "case load_group_outbounds env cache groups ?m of
      Inr m' \<Rightarrow> distinct (map group_name groups) \<and> deps_acyclic groups \<and> groups_step env groups ?m m' \<and>
        (\<forall>g \<in> set groups. group_valid (oe_name env ` set outs \<union> group_name ` set groups) (fst ` set defs) g)
    | Inl e \<Rightarrow> \<not> (distinct (map group_name groups) \<and> deps_acyclic groups \<and>
        (\<forall>g \<in> set groups. group_valid (oe_name env ` set outs \<union> group_name ` set groups) (fst ` set defs) g))"
    using load_group_outbounds_spec [OF _ ord, of ?m groups cache] lo free
    unfolding H names_free_def by blast
  show ?thesis
  proof (cases "load_group_outbounds env cache groups ?m")
    case (Inl e)
    then show ?thesis using lg by (auto simp: load_handlers_def)
  next
    case (Inr m1)
    then have v: "distinct (map group_name groups)" "deps_acyclic groups"
      "\<forall>g \<in> set groups. group_valid (oe_name env ` set outs \<union> group_name ` set groups) (fst ` set defs) g"
      and gs: "groups_step env groups ?m m1" using lg by simp_all
    then have m1: "om_ok env m1" "fst ` set (om_handlers m1) = oe_name env ` set outs \<union> group_name ` set groups"
      "dialers_from env D m1" "\<forall>g \<in> set groups. group_linked m1 g" using dm H(1) by (simp_all add: groups_step_def)
    then have dom: "get_outbound m1 n \<noteq> None \<longleftrightarrow> n \<in> oe_name env ` set outs \<union> group_name ` set groups" for n
      by (metis get_outbound_def map_of_eq_None_iff)
    from this [of PROXY_GLOBAL] free have "map_of (om_handlers m1) PROXY_GLOBAL = None"
      by (simp add: names_free_def get_outbound_def)
    note ig = insert_global_spec [OF m1(1) ord this, where cache = cache and names = names]
    have ne: "om_handlers m1 = [] \<longleftrightarrow> \<not> (outs \<noteq> [] \<or> groups \<noteq> [])" using m1(2) by auto
    show ?thesis
    proof (cases "insert_global env cache names m1")
      case Inl': (Inl e)
      then show ?thesis using ig ne Inr by (simp add: load_handlers_def)
    next
      case Inr': (Inr m2)
      with ig have m2: "om_handlers m1 \<noteq> []" "om_ok env m2" "om_ext m1 m2" "global_linked m2"
        "\<And>n. n \<noteq> PROXY_GLOBAL \<Longrightarrow> get_outbound m2 n = get_outbound m1 n"
        "\<And>n. n \<noteq> RESERVED_PROVIDER_NAME \<Longrightarrow> map_of (om_providers m2) n = map_of (om_providers m1) n"
        "dialers_from env D m2" using m1(3) by simp_all
      have "group_linked m2 g" if g: "g \<in> set groups" for g
      proof (rule group_linked_frame [OF _ m1(1) m2(3)])
        show "group_linked m1 g" using m1(4) g by blast
        show "get_outbound m2 n = get_outbound m1 n" if n: "n \<in> insert (group_name g) (set (plist g))" for n
        proof (rule m2(5))
          have "set (plist g) \<subseteq> oe_name env ` set outs \<union> group_name ` set groups"
            using v(3) g group_valid_plist by blast
          then show "n \<noteq> PROXY_GLOBAL" using n g free by (auto simp: names_free_def)
        qed
        show "map_of (om_providers m2) n = map_of (om_providers m1) n" if "n \<in> set (uses g)" for n
          using that v(3) g free by (intro m2(6)) (auto simp: names_free_def group_valid_def)
      qed
      moreover have "get_outbound m2 PROXY_GLOBAL \<noteq> None" using m2(4) by (auto simp: global_linked_def)
      then have "get_outbound m2 n \<noteq> None \<longleftrightarrow> n \<in> insert PROXY_GLOBAL (oe_name env ` set outs \<union> group_name ` set groups)" for n
        using dom m2(5) by (cases "n = PROXY_GLOBAL") simp_all
      ultimately have "manager_linked env outs groups m2" using m2(2, 4) by (simp add: manager_linked_def)
      then show ?thesis using v m2(1, 7) ne Inr Inr' by (simp add: load_handlers_def)
    qed
  qed
qed

definition dialers_linked :: "('p, 'l, 'c) om_env \<Rightarrow> ('p, 'l, 'f) outbound_manager \<Rightarrow> bool" where
  "dialers_linked env m \<longleftrightarrow> (\<forall>n h d. get_outbound m n = Some h \<longrightarrow> obj_dialer env (om_heap m ! h) = Some d \<longrightarrow>
    (\<exists>c. get_outbound m d = Some c \<and> map_of (om_connectors m) h = Some (ProxyConnector c DirectConnector)))"

lemma init_connectors_spec:
  assumes "\<And>ks. mset (oe_ord env ks) = mset ks" "manager_linked env outs groups m"
    and D: "dialers_from env {d. \<exists>p \<in> set outs. oe_dialer env p = Some d} m"
  shows "case init_handler_connectors env m of
      Inr m' \<Rightarrow> manager_linked env outs groups m' \<and> dialers_linked env m' | Inl e \<Rightarrow> \<not> dialers_ok env outs groups"
proof -
  let ?hs = "map (\<lambda>n. the (map_of (om_handlers m) n)) (oe_ord env (map fst (om_handlers m)))"
  have hs: "set ?hs = ran (map_of (om_handlers m))"
    using mset_eq_setD [OF assms(1) [of "map fst (om_handlers m)"]] the_image_dom [of "map_of (om_handlers m)"]
    by (simp add: dom_map_of_conv_image_fst)
  note rc = register_connectors_spec [where env = env and hs = ?hs and m = m]
  show ?thesis
  proof (cases "register_connectors env ?hs m")
    case (Inl e)
    with rc obtain n h d where h: "map_of (om_handlers m) n = Some h" "obj_dialer env (om_heap m ! h) = Some d"
      "get_outbound m d = None" unfolding hs by (auto simp: ran_def)
    then obtain p where "p \<in> set outs" "oe_dialer env p = Some d" using D unfolding dialers_from_def by blast
    moreover have "d \<notin> insert PROXY_GLOBAL (oe_name env ` set outs \<union> group_name ` set groups)"
      using assms(2) h(3) unfolding manager_linked_def by blast
    ultimately have "\<not> dialers_ok env outs groups" by (auto simp: dialers_ok_def)
    then show ?thesis using Inl by (simp add: init_handler_connectors_def)
  next
    case (Inr m')
    with rc obtain c where m': "m' = m\<lparr>om_connectors := c\<rparr>"
      and con: "\<And>h. h \<in> ran (map_of (om_handlers m)) \<Longrightarrow> \<forall>d. obj_dialer env (om_heap m ! h) = Some d \<longrightarrow>
        (\<exists>x. get_outbound m d = Some x) \<and> map_of c h = Some (ProxyConnector (the (get_outbound m d)) DirectConnector)"
      unfolding hs by (cases m') (auto split: option.splits)
    have "dialers_linked env m'"
      unfolding dialers_linked_def
    proof (intro allI impI)
      fix n h d assume "get_outbound m' n = Some h" "obj_dialer env (om_heap m' ! h) = Some d"
      then have "h \<in> ran (map_of (om_handlers m))" "obj_dialer env (om_heap m ! h) = Some d"
        by (auto simp: m' get_outbound_def ran_def)
      with con show "\<exists>x. get_outbound m' d = Some x \<and> map_of (om_connectors m') h = Some (ProxyConnector x DirectConnector)"
        by (fastforce simp: m')
    qed
    moreover have "manager_linked env outs groups m'" using assms(2) by (simp add: manager_linked_def m' om_ok_connectors)
    ultimately show ?thesis using Inr by (simp add: init_handler_connectors_def)
  qed
qed

lemma manager_new_spec:
  fixes groups :: "'f group list"
  assumes "\<And>ks. mset (oe_ord env ks) = mset ks" and "names_free env outs groups defs"
  shows "case (manager_new env cache outs groups defs names :: ('p, 'l, 'f) outbound_manager result) of
      Inr m \<Rightarrow> manager_valid env outs groups defs \<and> manager_linked env outs groups m \<and> dialers_linked env m
    | Inl e \<Rightarrow> \<not> (manager_valid env outs groups defs \<and> dialers_ok env outs groups)"
proof -
  let ?e = "om_empty :: ('p, 'l, 'f) outbound_manager" and ?D = "{d. \<exists>p \<in> set outs. oe_dialer env p = Some d}"
  have lp: "case load_proxy_providers env defs ?e of
      Inr m \<Rightarrow> (\<forall>d \<in> snd ` set defs. uri_valid env d) \<and> provider_step env (fst ` set defs) ?e m
    | Inl e \<Rightarrow> \<exists>d \<in> snd ` set defs. \<not> uri_valid env d"
    using om_ok_empty assms(1) by (rule load_proxy_providers_spec)
  show ?thesis
  proof (cases "load_proxy_providers env defs ?e")
    case (Inl e)
    then show ?thesis using lp by (auto simp: manager_new_def manager_valid_def)
  next
    case (Inr m0)
    with lp have uri: "\<forall>d \<in> snd ` set defs. uri_valid env d" and m0: "om_ok env m0" "om_handlers m0 = []"
      "om_selectors m0 = []" "fst ` set (om_providers m0) = fst ` set defs"
      by (simp_all add: provider_step_def om_empty_def)
    have "set_option (oe_dialer env p) \<subseteq> ?D" if "p \<in> set outs" for p using that by auto
    note lh = load_handlers_spec [OF assms m0 this, where cache = cache and names = names]
    show ?thesis
    proof (cases "load_handlers env cache outs groups names m0")
      case Inl': (Inl e)
      then show ?thesis using lh uri Inr by (auto simp: manager_new_def manager_valid_def)
    next
      case Inr': (Inr m1)
      with lh uri have m1: "manager_valid env outs groups defs" "manager_linked env outs groups m1" "dialers_from env ?D m1"
        by (simp_all add: manager_valid_def)
      from init_connectors_spec [OF assms(1) this(2, 3)] m1(1) show ?thesis
        by (simp add: manager_new_def Inr Inr' split: sum.splits)
    qed
  qed
qed

text \<open>
  C4. Loading the outbounds is correct and complete. With a configuration that does not use the names
  the manager reserves, whatever the order in which hash maps are iterated, and also if providers
  cannot be fetched: loading fails exactly for configurations that are not valid (an address of a
  provider that does not parse, equal group names, a loop between groups, an empty group, an unknown
  proxy or provider, no proxy at all) or name an unknown dialer. If it succeeds then the names that can be looked up are
  those of the proxies, the groups and the global selector; each group refers to the handlers of its
  proxies, in order, and to the providers it uses; the global selector lists every other handler;
  the object graph has no cycle; and a proxy with a dialer has a connector through that handler.
\<close>

theorem manager_loads:
  fixes groups :: "'f group list"
  assumes "\<And>ks. mset (oe_ord env ks) = mset ks" and "names_free env outs groups defs"
  shows "case (manager_new env cache outs groups defs names :: ('p, 'l, 'f) outbound_manager result) of
      Inr m \<Rightarrow> manager_valid env outs groups defs \<and> manager_linked env outs groups m \<and> dialers_linked env m
    | Inl e \<Rightarrow> \<not> (manager_valid env outs groups defs \<and> dialers_ok env outs groups)"
  using assms by (rule manager_new_spec)

definition plain_om_env :: "(string, unit, unit) om_env" where
  "plain_om_env = \<lparr>oe_name = id, oe_dialer = (\<lambda>p. if p = ''b'' then Some ''a'' else None),
    oe_ops = \<lparr>ob_name = (\<lambda>_. []), ob_support_udp = (\<lambda>_. True), ob_support_connector = (\<lambda>_. ConnAll),
      ob_connect_stream = (\<lambda>_ _. Err Panic), ob_connect_datagram = (\<lambda>_ _. Err Panic),
      ob_connect_stream_with = (\<lambda>_ _ _. Err Panic), ob_connect_datagram_with = (\<lambda>_ _ _. Err Panic)\<rparr>,
    oe_fetch = (\<lambda>_. Err UnexpectedEof), oe_uri_ok = (\<lambda>_. True), oe_ord = id, oe_cache0 = (), oe_now = 0\<rparr>"

definition plain_groups :: "unit group list" where
  "plain_groups = [plain_select ''g'' [''f'', ''DIRECT''], plain_select ''f'' [''a'', ''b'']]"

lemma plain_manager_valid:
  "manager_valid plain_om_env [''DIRECT'', ''a'', ''b''] plain_groups []"
  "dialers_ok plain_om_env [''DIRECT'', ''a'', ''b''] plain_groups"
  "names_free plain_om_env [''DIRECT'', ''a'', ''b''] plain_groups []"
proof -
  have p: "plist (plain_select n ps) = ps" "uses (plain_select n ps) = []" "group_name (plain_select n ps) = n" for n ps
    by (simp_all add: plain_select_def plist_def uses_def)
  have "deps_acyclic plain_groups"
    unfolding deps_acyclic_def
    by (rule exI [of _ "\<lambda>n. if n = ''g'' then 2 else if n = ''f'' then 1 else 0"]) (simp add: plain_groups_def p)
  then show "manager_valid plain_om_env [''DIRECT'', ''a'', ''b''] plain_groups []"
    by (simp add: manager_valid_def group_valid_def plain_groups_def p plain_om_env_def PROXY_DIRECT_def PROXY_REJECT_def)
  show "dialers_ok plain_om_env [''DIRECT'', ''a'', ''b''] plain_groups"
    by (simp add: dialers_ok_def plain_om_env_def)
  show "names_free plain_om_env [''DIRECT'', ''a'', ''b''] plain_groups []"
    by (simp add: names_free_def plain_groups_def p plain_om_env_def PROXY_GLOBAL_def)
qed

theorem manager_loads_witness:
  "\<exists>m. manager_new plain_om_env (cache_file_new None True :: unit cache_file) [''DIRECT'', ''a'', ''b''] plain_groups [] [] = Ok m \<and>
     manager_linked plain_om_env [''DIRECT'', ''a'', ''b''] plain_groups m \<and> dialers_linked plain_om_env m"
proof -
  have "mset (oe_ord plain_om_env ks) = mset ks" for ks by (simp add: plain_om_env_def)
  from manager_loads [OF this plain_manager_valid(3), where cache = "cache_file_new None True :: unit cache_file" and names = "[]"]
    plain_manager_valid(1, 2)
  show ?thesis
    by (cases "manager_new plain_om_env (cache_file_new None True :: unit cache_file) [''DIRECT'', ''a'', ''b''] plain_groups [] []") simp_all
qed

section \<open>What the model shows beside\<close>

text \<open>The configured strategy of a load-balancing group does not reach its handler.\<close>

lemma lb_strategy_ignored:
  "group_obj env cache m (LoadBalance g) ps = Ok (LoadBalanceObj h) \<Longrightarrow> lb_fn h = HashringFn"
  by (auto simp: lb_new_def)

text \<open>The health check of a group's own proxies requests the default address, not the group's.\<close>

lemma own_provider_url:
  "own_provider env g m = Ok ([pd], m') \<Longrightarrow> hc_url (pp_hc pd) = DEFAULT_LATENCY_TEST_URL"
  by (auto simp: own_provider_def make_provider_from_proxies_def plain_provider_new_def kick_off_def hc_new_def
      bind_result_def Let_def split: option.splits sum.splits if_splits prod.splits)

end
