(* ===== verification/Dispatcher.thy ===== *)
theory Dispatcher
  imports Router Dns_Resolver Outbound_Manager Statistics
begin

text \<open>
  Model of \<^verbatim>\<open>app/dispatcher/dispatcher_impl.rs\<close>, where the components meet: the resolver turns a fake
  address back into a name, the router chooses an outbound, the manager has its handler, the
  handler connects and the statistics manager tracks the connection. For datagrams also the table of
  sessions by outbound and source, with its expiry, and the address translation of the replies.

  The handlers' methods, the proxy a group would use now, the clock and the fresh identifier are
  fields of an environment. Copying between the two streams is not modelled, nor is the work of the
  tasks that forward packets: a session keeps the packets handed to its sender.
\<close>

section \<open>The dispatcher\<close>

datatype run_mode = ModeGlobal | ModeRule | ModeDirect

fun run_mode_to_string :: "run_mode \<Rightarrow> string" where
  "run_mode_to_string ModeGlobal = ''global''"
| "run_mode_to_string ModeRule = ''rule''"
| "run_mode_to_string ModeDirect = ''direct''"

record ('p, 'l, 'f, 'n, 'x, 't, 'u, 'k, 'q, 'r, 's, 'st) dispatcher =
  dp_manager :: "('p, 'l, 'f) outbound_manager"
  dp_router :: "('n, 'x, 't, 'u) router"
  dp_resolver :: "('k, 'n, 'q, 'r, 's, 'st) resolver"
  dp_mode :: run_mode
  dp_stats :: stats_manager
  dp_tcp_buffer :: nat

record ('n, 'x, 't, 'u, 'k, 'm, 'q, 'r, 's, 'c) dispatch_env =
  de_resolver :: "('k, 'm, 'n, 'x, 'q, 'r, 's) resolver_env"
  de_lib :: "('n, 'x, 't, 'u) provider_lib"
  de_world :: world
  de_ops :: "(hid, 'c) outbound_ops"
  de_active :: "hid \<Rightarrow> string option"
  de_payload :: "('n, 'x) rule_matcher \<Rightarrow> string"
  de_uuid :: nat
  de_now :: nat

definition DEFAULT_BUFFER_SIZE :: nat where
  "DEFAULT_BUFFER_SIZE = 16 * 1024"

definition dispatcher_new ::
  "('p, 'l, 'f) outbound_manager \<Rightarrow> ('n, 'x, 't, 'u) router \<Rightarrow> ('k, 'n, 'q, 'r, 's, 'st) resolver \<Rightarrow> run_mode \<Rightarrow>
   stats_manager \<Rightarrow> nat option \<Rightarrow> ('p, 'l, 'f, 'n, 'x, 't, 'u, 'k, 'q, 'r, 's, 'st) dispatcher" where
  "dispatcher_new om rt er mode sm buffer_size =
    \<lparr>dp_manager = om, dp_router = rt, dp_resolver = er, dp_mode = mode, dp_stats = sm,
     dp_tcp_buffer = (case buffer_size of Some n \<Rightarrow> n | None \<Rightarrow> DEFAULT_BUFFER_SIZE)\<rparr>"

definition set_mode :: "run_mode \<Rightarrow> ('p, 'l, 'f, 'n, 'x, 't, 'u, 'k, 'q, 'r, 's, 'st) dispatcher \<Rightarrow>
   ('p, 'l, 'f, 'n, 'x, 't, 'u, 'k, 'q, 'r, 's, 'st) dispatcher" where
  "set_mode mode d = d\<lparr>dp_mode := mode\<rparr>"

definition get_mode :: "('p, 'l, 'f, 'n, 'x, 't, 'u, 'k, 'q, 'r, 's, 'st) dispatcher \<Rightarrow> run_mode" where
  "get_mode d = dp_mode d"

text \<open>The free function \<^verbatim>\<open>reverse_lookup\<close>, whose conversions expect success.\<close>

definition expect_valid :: "socks_addr result \<Rightarrow> socks_addr option result" where
  "expect_valid r = (case r of Inl _ \<Rightarrow> Err Panic | Inr a \<Rightarrow> Ok (Some a))"

definition reverse_dest ::
  "('k, 'm, 'n, 'x, 'q, 'r, 's) resolver_env \<Rightarrow> socks_addr \<Rightarrow> ('k, 'n, 'q, 'r, 's, 'st) resolver \<Rightarrow>
   socks_addr option result \<times> ('k, 'n, 'q, 'r, 's, 'st) resolver" where
  "reverse_dest env dst er =
    (case dst of
       Ip sa \<Rightarrow>
         if fake_ip_enabled er then
           if resolver_is_fake_ip env (socket_ip sa) er then
             (case resolver_reverse_lookup env (socket_ip sa) er of
                (Some host, er) \<Rightarrow> (expect_valid (try_from_pair host (socket_port sa)), er)
              | (None, er) \<Rightarrow> (Ok None, er))
           else (Ok (Some (Ip sa)), er)
         else
           (case cached_for env (socket_ip sa) er of
              Some resolved \<Rightarrow> (expect_valid (try_from_pair resolved (socket_port sa)), er)
            | None \<Rightarrow> (Ok (Some (Ip sa)), er))
     | Domain host prt \<Rightarrow> (expect_valid (try_from_pair host prt), er))"

definition choose_outbound ::
  "('n, 'x, 't, 'u) provider_lib \<Rightarrow> world \<Rightarrow> ('n, 'x, 't, 'u) router \<Rightarrow> run_mode \<Rightarrow> session \<Rightarrow>
   (string \<times> ('n, 'x) rule_matcher option) result \<times> session" where
  "choose_outbound lib w rt mode sess =
    (case mode of
       ModeGlobal \<Rightarrow> (Ok (PROXY_GLOBAL, None), sess)
     | ModeRule \<Rightarrow> (case match_route lib rt w sess of (r, st) \<Rightarrow> (r, rs_sess st))
     | ModeDirect \<Rightarrow> (Ok (PROXY_DIRECT, None), sess))"

definition find_handler :: "('p, 'l, 'f) outbound_manager \<Rightarrow> string \<Rightarrow> hid result" where
  "find_handler om n =
    (case get_outbound om n of
       Some h \<Rightarrow> Ok h
     | None \<Rightarrow> (case get_outbound om PROXY_DIRECT of Some h \<Rightarrow> Ok h | None \<Rightarrow> Err Panic))"

text \<open>\<^verbatim>\<open>type_name\<close> of the matchers.\<close>

fun matcher_type_name :: "('n, 'r) rule_matcher \<Rightarrow> string" where
  "matcher_type_name (MDomain _ _) = ''Domain''"
| "matcher_type_name (MDomainSuffix _ _) = ''DomainSuffix''"
| "matcher_type_name (MDomainRegex _ _) = ''DomainRegex''"
| "matcher_type_name (MDomainKeyword _ _) = ''DomainKeyword''"
| "matcher_type_name (MGeoIP _ _ _ _) = ''GeoIP''"
| "matcher_type_name (MGeoSite _ _ _) = ''GeoSite''"
| "matcher_type_name (MIpCidr _ _ _ _) = ''IPCIDR''"
| "matcher_type_name (MPort _ _ _) = ''Port''"
| "matcher_type_name (MProcess _ _ _) = ''Process''"
| "matcher_type_name (MRuleSet _ _) = ''RuleSet''"
| "matcher_type_name (MFinal _) = ''Match''"
| "matcher_type_name (MNetwork _ _) = ''Network''"

definition rule_text :: "(('n, 'r) rule_matcher \<Rightarrow> string) \<Rightarrow> ('n, 'r) rule_matcher option \<Rightarrow> (string \<times> string) option" where
  "rule_text pay rule = map_option (\<lambda>r. (matcher_type_name r, pay r)) rule"

section \<open>Streams\<close>

datatype 'c stream_outcome =
    Unresolved
  | Connected hid "'c chained" session
  | ConnectFailed hid error session

text \<open>The part of \<^verbatim>\<open>dispatch_stream\<close> behind the lookup of the destination.\<close>

definition dispatch_resolved ::
  "('n, 'x, 't, 'u, 'k, 'm, 'q, 'r, 's, 'c) dispatch_env \<Rightarrow> session \<Rightarrow>
   ('p, 'l, 'f, 'n, 'x, 't, 'u, 'k, 'q, 'r, 's, 'st) dispatcher \<Rightarrow>
   'c stream_outcome result \<times> ('p, 'l, 'f, 'n, 'x, 't, 'u, 'k, 'q, 'r, 's, 'st) dispatcher" where
  "dispatch_resolved env sess d =
    (case choose_outbound (de_lib env) (de_world env) (dp_router d) (dp_mode d) sess of
       (Inl e, _) \<Rightarrow> (Err e, d)
     | (Inr (outbound_name, rule), sess) \<Rightarrow>
         (case find_handler (dp_manager d) outbound_name of
            Inl e \<Rightarrow> (Err e, d)
          | Inr h \<Rightarrow>
              (case ob_connect_stream (de_ops env) h sess of
                 Inl Panic \<Rightarrow> (Err Panic, d)
               | Inl e \<Rightarrow> (Ok (ConnectFailed h e sess), d)
               | Inr rhs \<Rightarrow>
                   (case session_clone sess of
                      Inl e \<Rightarrow> (Err e, d)
                    | Inr s \<Rightarrow>
                        (Ok (Connected h rhs sess),
                         d\<lparr>dp_stats := tracked_new (de_uuid env) (de_now env) s (rule_text (de_payload env) rule)
                             (ch_chain rhs) (dp_stats d)\<rparr>)))))"

definition dispatch_stream ::
  "('n, 'x, 't, 'u, 'k, 'm, 'q, 'r, 's, 'c) dispatch_env \<Rightarrow> session \<Rightarrow>
   ('p, 'l, 'f, 'n, 'x, 't, 'u, 'k, 'q, 'r, 's, 'st) dispatcher \<Rightarrow>
   'c stream_outcome result \<times> ('p, 'l, 'f, 'n, 'x, 't, 'u, 'k, 'q, 'r, 's, 'st) dispatcher" where
  "dispatch_stream env sess d =
    (case reverse_dest (de_resolver env) (destination sess) (dp_resolver d) of
       (Inl e, er) \<Rightarrow> (Err e, d\<lparr>dp_resolver := er\<rparr>)
     | (Inr None, er) \<Rightarrow> (Ok Unresolved, d\<lparr>dp_resolver := er\<rparr>)
     | (Inr (Some dest), er) \<Rightarrow>
         (case socks_clone dest of
            Inl e \<Rightarrow> (Err e, d\<lparr>dp_resolver := er\<rparr>)
          | Inr dst \<Rightarrow> dispatch_resolved env (sess\<lparr>destination := dst\<rparr>) (d\<lparr>dp_resolver := er\<rparr>)))"

section \<open>Datagrams\<close>

text \<open>
  \<^verbatim>\<open>OutboundHandleMap\<close>. A session has the connection, the session and the original destination that
  its receiving task captured, the time of the last use and the packets given to its sender.
\<close>

record 'c handle_val =
  us_conn :: "'c chained"
  us_sess :: session
  us_orig :: socks_addr
  us_last :: nat
  us_sent :: "udp_packet list"

type_synonym 'c udp_table = "((string \<times> socket_addr) \<times> 'c handle_val) list"

definition UDP_TIMEOUT :: nat where
  "UDP_TIMEOUT = 10 * 10 ^ 9"

definition udp_insert :: "string \<Rightarrow> socket_addr \<Rightarrow> 'c handle_val \<Rightarrow> 'c udp_table \<Rightarrow> 'c udp_table" where
  "udp_insert n a s tbl = AList.update (n, a) s tbl"

definition get_outbound_sender_mut :: "nat \<Rightarrow> string \<Rightarrow> socket_addr \<Rightarrow> 'c udp_table \<Rightarrow> bool \<times> 'c udp_table" where
  "get_outbound_sender_mut now n a tbl =
    ((n, a) \<in> fst ` set tbl, AList.map_entry (n, a) (\<lambda>s. s\<lparr>us_last := now\<rparr>) tbl)"

text \<open>A tick of the cleaner; \<^verbatim>\<open>duration_since\<close> is zero for a time in the future.\<close>

definition udp_clean :: "nat \<Rightarrow> 'c udp_table \<Rightarrow> 'c udp_table" where
  "udp_clean now tbl = filter (\<lambda>(k, s). now - us_last s < UDP_TIMEOUT) tbl"

text \<open>Dropping the table aborts the tasks of all sessions.\<close>

definition udp_drop :: "'c udp_table \<Rightarrow> 'c udp_table" where
  "udp_drop tbl = []"

definition udp_send :: "string \<Rightarrow> socket_addr \<Rightarrow> udp_packet \<Rightarrow> 'c udp_table \<Rightarrow> 'c udp_table" where
  "udp_send n a pkt tbl = AList.map_entry (n, a) (\<lambda>s. s\<lparr>us_sent := us_sent s @ [pkt]\<rparr>) tbl"

text \<open>The receiving task: what becomes of a packet from the remote side.\<close>

definition udp_reply :: "'c handle_val \<Rightarrow> udp_packet \<Rightarrow> udp_packet" where
  "udp_reply s pkt = pkt\<lparr>src_addr := us_orig s, dst_addr := Ip (source (us_sess s))\<rparr>"

text \<open>The loop body of the first task of \<^verbatim>\<open>dispatch_datagram\<close> behind the lookup of the destination.\<close>

definition packet_resolved ::
  "('n, 'x, 't, 'u, 'k, 'm, 'q, 'r, 's, 'c) dispatch_env \<Rightarrow> session \<Rightarrow> udp_packet \<Rightarrow> socks_addr \<Rightarrow>
   ('p, 'l, 'f, 'n, 'x, 't, 'u, 'k, 'q, 'r, 's, 'st) dispatcher \<Rightarrow> 'c udp_table \<Rightarrow>
   unit result \<times> ('p, 'l, 'f, 'n, 'x, 't, 'u, 'k, 'q, 'r, 's, 'st) dispatcher \<times> 'c udp_table" where
  "packet_resolved env sess pkt orig d tbl =
    (case choose_outbound (de_lib env) (de_world env) (dp_router d) (dp_mode d) sess of
       (Inl e, _) \<Rightarrow> (Err e, d, tbl)
     | (Inr (outbound_name, rule), sess) \<Rightarrow>
         (case find_handler (dp_manager d) outbound_name of
            Inl e \<Rightarrow> (Err e, d, tbl)
          | Inr h \<Rightarrow>
              let n = (case de_active env h of Some a \<Rightarrow> a | None \<Rightarrow> outbound_name) in
              (case bind_result (socks_clone (src_addr pkt)) must_into_socket_addr of
                 Inl e \<Rightarrow> (Err e, d, tbl)
               | Inr a \<Rightarrow>
                   (case get_outbound_sender_mut (de_now env) n a tbl of
                      (True, tbl) \<Rightarrow> (Ok (), d, udp_send n a pkt tbl)
                    | (False, tbl) \<Rightarrow>
                        (case ob_connect_datagram (de_ops env) h sess of
                           Inl Panic \<Rightarrow> (Err Panic, d, tbl)
                         | Inl _ \<Rightarrow> (Ok (), d, tbl)
                         | Inr conn \<Rightarrow>
                             (case session_clone sess of
                                Inl e \<Rightarrow> (Err e, d, tbl)
                              | Inr s \<Rightarrow>
                                  (Ok (), d\<lparr>dp_stats := tracked_new (de_uuid env) (de_now env) s
                                       (rule_text (de_payload env) rule) (ch_chain conn) (dp_stats d)\<rparr>,
                                   udp_send n a pkt (udp_insert n a
                                     \<lparr>us_conn = conn, us_sess = sess, us_orig = orig, us_last = de_now env, us_sent = []\<rparr>
                                     tbl))))))))"

definition dispatch_packet ::
  "('n, 'x, 't, 'u, 'k, 'm, 'q, 'r, 's, 'c) dispatch_env \<Rightarrow> session \<Rightarrow> udp_packet \<Rightarrow>
   ('p, 'l, 'f, 'n, 'x, 't, 'u, 'k, 'q, 'r, 's, 'st) dispatcher \<Rightarrow> 'c udp_table \<Rightarrow>
   unit result \<times> ('p, 'l, 'f, 'n, 'x, 't, 'u, 'k, 'q, 'r, 's, 'st) dispatcher \<times> 'c udp_table" where
  "dispatch_packet env sess0 pkt d tbl =
    (case session_clone sess0 of
       Inl e \<Rightarrow> (Err e, d, tbl)
     | Inr sess \<Rightarrow>
         (case reverse_dest (de_resolver env) (dst_addr pkt) (dp_resolver d) of
            (Inl e, er) \<Rightarrow> (Err e, d\<lparr>dp_resolver := er\<rparr>, tbl)
          | (Inr None, er) \<Rightarrow> (Ok (), d\<lparr>dp_resolver := er\<rparr>, tbl)
          | (Inr (Some dest), er) \<Rightarrow>
              (case bind_result (socks_clone (dst_addr pkt)) (\<lambda>orig.
                    bind_result (bind_result (socks_clone (src_addr pkt)) must_into_socket_addr) (\<lambda>a.
                    bind_result (socks_clone dest) (\<lambda>dst. Ok (orig, a, dst)))) of
                 Inl e \<Rightarrow> (Err e, d\<lparr>dp_resolver := er\<rparr>, tbl)
               | Inr (orig, a, dst) \<Rightarrow>
                   packet_resolved env (sess\<lparr>source := a, destination := dst\<rparr>) (pkt\<lparr>dst_addr := dest\<rparr>) orig
                     (d\<lparr>dp_resolver := er\<rparr>) tbl)))"

section \<open>Facts\<close>

lemma try_from_pair_clone: "try_from_pair host prt = Ok a \<Longrightarrow> socks_clone a = Ok a"
  by (auto simp: try_from_pair_def split: option.splits if_splits)

lemma expect_valid_Some: "expect_valid r = Ok (Some a) \<longleftrightarrow> r = Ok a"
  by (simp add: expect_valid_def split: sum.split)

lemma reverse_dest_clone:
  "reverse_dest env dst er = (Ok (Some a), er') \<Longrightarrow> socks_clone a = Ok a"
  by (auto simp: reverse_dest_def expect_valid_Some try_from_pair_clone
      split: socks_addr.splits if_splits prod.splits option.splits)

lemma reverse_dest_None:
  "reverse_dest env dst er = (Ok None, er') \<Longrightarrow>
    \<exists>sa. dst = Ip sa \<and> resolver_is_fake_ip env (socket_ip sa) er \<and> fst (resolver_reverse_lookup env (socket_ip sa) er) = None"
  by (auto simp: reverse_dest_def expect_valid_def
      split: socks_addr.splits if_splits prod.splits option.splits sum.splits)

lemma choose_outbound_frame:
  assumes "choose_outbound lib w rt mode sess = (r, sess')"
  shows "source sess' = source sess" and "destination sess' = destination sess"
proof -
  obtain ip a where "rs_sess (snd (match_route lib rt w sess)) = sess \<lparr> resolved_ip := ip, asn := a \<rparr>"
    using match_route_frame by blast
  then have "source (rs_sess (snd (match_route lib rt w sess))) = source sess"
    "destination (rs_sess (snd (match_route lib rt w sess))) = destination sess" by simp_all
  with assms show "source sess' = source sess" and "destination sess' = destination sess"
    by (auto simp: choose_outbound_def case_prod_beta split: run_mode.splits)
qed

text \<open>A manager that loaded a direct proxy has a handler for every name.\<close>

lemma find_handler_total:
  assumes "manager_linked oenv outs groups om" "PROXY_DIRECT \<in> oe_name oenv ` set outs"
  shows "\<exists>h. find_handler om n = Ok h \<and>
    hname oenv om h = (if get_outbound om n \<noteq> None then n else PROXY_DIRECT)"
proof -
  have ok: "\<And>n h. get_outbound om n = Some h \<Longrightarrow> hname oenv om h = n"
    using assms(1) om_okD(4) by (auto simp: manager_linked_def get_outbound_def)
  have "get_outbound om PROXY_DIRECT \<noteq> None" using assms by (auto simp: manager_linked_def)
  then obtain h where "get_outbound om PROXY_DIRECT = Some h" by blast
  then show ?thesis using ok by (cases "get_outbound om n") (auto simp: find_handler_def)
qed

section \<open>The table of datagram sessions\<close>

text \<open>Tables that packets and ticks lead to, for an inbound with the session \<open>sess0\<close> and environments from \<open>E\<close>.\<close>

inductive udp_reach ::
  "('n, 'x, 't, 'u, 'k, 'm, 'q, 'r, 's, 'c) dispatch_env set \<Rightarrow> session \<Rightarrow>
   ('p, 'l, 'f, 'n, 'x, 't, 'u, 'k, 'q, 'r, 's, 'st) dispatcher \<Rightarrow> 'c udp_table \<Rightarrow> bool" for E sess0 where
  udp_start: "udp_reach E sess0 d []"
| udp_packet: "udp_reach E sess0 d tbl \<Longrightarrow> env \<in> E \<Longrightarrow> dispatch_packet env sess0 pkt d tbl = (r, d', tbl') \<Longrightarrow>
    udp_reach E sess0 d' tbl'"
| udp_tick: "udp_reach E sess0 d tbl \<Longrightarrow> udp_reach E sess0 d (udp_clean now tbl)"
| udp_other: "udp_reach E sess0 d tbl \<Longrightarrow> udp_reach E sess0 d' tbl"

text \<open>The socket address that a packet comes from, where it has one.\<close>

definition packet_source :: "udp_packet \<Rightarrow> socket_addr result" where
  "packet_source pkt = bind_result (socks_clone (src_addr pkt)) must_into_socket_addr"

definition session_for :: "socket_addr \<Rightarrow> 'c handle_val \<Rightarrow> bool" where
  "session_for a s \<longleftrightarrow> source (us_sess s) = a \<and> us_sent s \<noteq> [] \<and> (\<forall>pkt \<in> set (us_sent s). packet_source pkt = Ok a)"

definition udp_ok :: "'c udp_table \<Rightarrow> bool" where
  "udp_ok tbl \<longleftrightarrow> distinct (map fst tbl) \<and> (\<forall>n a s. map_of tbl (n, a) = Some s \<longrightarrow> session_for a s)"

lemma map_of_map_entry:
  "map_of (AList.map_entry k f tbl) k' = (if k' = k then map_option f (map_of tbl k') else map_of tbl k')"
  by (induction tbl) auto

lemma distinct_map_entry: "distinct (map fst (AList.map_entry k f tbl)) = distinct (map fst tbl)"
  by (induction tbl) (auto simp: AList.dom_map_entry)

lemma udp_ok_clean:
  assumes "udp_ok tbl"
  shows "udp_ok (udp_clean now tbl)"
proof -
  have "distinct (map fst (filter P tbl))" for P using assms by (auto simp: udp_ok_def distinct_map intro: inj_on_subset)
  moreover have "map_of (filter P tbl) k = Some s \<Longrightarrow> map_of tbl k = Some s" for P k s
    using assms by (auto simp: udp_ok_def map_of_eq_Some_iff intro: map_of_is_SomeI dest!: map_of_SomeD)
  ultimately show ?thesis using assms unfolding udp_ok_def udp_clean_def by blast
qed

lemma udp_ok_reuse:
  assumes "udp_ok tbl" "packet_source pkt = Ok a" "(n, a) \<in> fst ` set tbl"
  shows "udp_ok (udp_send n a pkt (snd (get_outbound_sender_mut now n a tbl)))"
  using assms
  by (auto simp: udp_ok_def udp_send_def get_outbound_sender_mut_def map_of_map_entry distinct_map_entry session_for_def
      split: if_splits)

lemma udp_ok_new:
  assumes "udp_ok tbl" "packet_source pkt = Ok a" "source (us_sess s) = a" "us_sent s = []"
  shows "udp_ok (udp_send n a pkt (udp_insert n a s tbl))"
  using assms
  by (auto simp: udp_ok_def udp_send_def udp_insert_def map_of_map_entry distinct_map_entry distinct_update update_conv'
      session_for_def split: if_splits)

lemma get_sender_absent:
  "(n, a) \<notin> fst ` set tbl \<Longrightarrow> get_outbound_sender_mut now n a tbl = (False, tbl)"
  by (induction tbl) (auto simp: get_outbound_sender_mut_def)

lemma packet_resolved_ok:
  assumes "udp_ok tbl" "packet_source pkt = Ok (source sess)" "packet_resolved env sess pkt orig d tbl = (r, d', tbl')"
  shows "udp_ok tbl'"
proof -
  obtain c s where c: "choose_outbound (de_lib env) (de_world env) (dp_router d) (dp_mode d) sess = (c, s)" by (metis surj_pair)
  show ?thesis
  proof (cases "\<exists>nr h. c = Ok nr \<and> find_handler (dp_manager d) (fst nr) = Ok h")
    case False
    then have "tbl' = tbl" using assms(3) c by (cases c; cases "find_handler (dp_manager d) (fst (projr c))")
        (auto simp: packet_resolved_def)
    then show ?thesis using assms(1) by simp
  next
    case True
    then obtain n0 rule h where n0: "c = Ok (n0, rule)" "find_handler (dp_manager d) n0 = Ok h" by auto
    let ?n = "case de_active env h of Some a \<Rightarrow> a | None \<Rightarrow> n0"
    note src = assms(2) [unfolded packet_source_def]
    show ?thesis
    proof (cases "(?n, source sess) \<in> fst ` set tbl")
      case True
      then have "tbl' = udp_send ?n (source sess) pkt (snd (get_outbound_sender_mut (de_now env) ?n (source sess) tbl))"
        using assms(3) c n0 src by (simp add: packet_resolved_def get_outbound_sender_mut_def Let_def)
      then show ?thesis using udp_ok_reuse [OF assms(1, 2) True] by simp
    next
      case False
      have "source s = source sess" using choose_outbound_frame(1) [OF c] .
      then show ?thesis using assms(3) c n0 src get_sender_absent [OF False] assms(1, 2)
        by (auto simp: packet_resolved_def Let_def intro: udp_ok_new split: sum.splits error.splits)
    qed
  qed
qed

lemma dispatch_packet_ok:
  assumes "udp_ok tbl" "dispatch_packet env sess0 pkt d tbl = (r, d', tbl')"
  shows "udp_ok tbl'"
proof -
  obtain rd er where rd: "reverse_dest (de_resolver env) (dst_addr pkt) (dp_resolver d) = (rd, er)" by (metis surj_pair)
  show ?thesis
  proof (cases "\<exists>sess dest orig a dst. session_clone sess0 = Ok sess \<and> rd = Ok (Some dest) \<and>
      socks_clone (dst_addr pkt) = Ok orig \<and> packet_source pkt = Ok a \<and> socks_clone dest = Ok dst")
    case True
    then obtain sess dest orig a dst where x: "session_clone sess0 = Ok sess" "rd = Ok (Some dest)"
      "socks_clone (dst_addr pkt) = Ok orig" "packet_source pkt = Ok a" "socks_clone dest = Ok dst" by blast
    then have "packet_resolved env (sess\<lparr>source := a, destination := dst\<rparr>) (pkt\<lparr>dst_addr := dest\<rparr>) orig
        (d\<lparr>dp_resolver := er\<rparr>) tbl = (r, d', tbl')"
      using assms(2) rd by (simp add: dispatch_packet_def packet_source_def)
    then show ?thesis by (rule packet_resolved_ok [OF assms(1), rotated]) (use x(4) in \<open>simp add: packet_source_def\<close>)
  next
    case False
    then have "tbl' = tbl" using assms(2) rd
      by (auto simp: dispatch_packet_def packet_source_def bind_result_def split: sum.splits option.splits)
    then show ?thesis using assms(1) by simp
  qed
qed

lemma udp_reach_ok: "udp_reach E sess0 d tbl \<Longrightarrow> udp_ok tbl"
proof (induction rule: udp_reach.induct)
  case udp_start
  show ?case by (simp add: udp_ok_def)
next
  case (udp_packet d tbl env pkt r d' tbl')
  then show ?case by (blast intro: dispatch_packet_ok)
next
  case (udp_tick d tbl now)
  then show ?case by (simp add: udp_ok_clean)
next
  case (udp_other d tbl d')
  then show ?case by simp
qed

section \<open>Properties\<close>



text \<open>
  C11. Datagram sessions keep the sources apart: whatever packets and clean-ups came before, the sender
  of a session under a source address has been given packets of that source only, at least one, every
  reply of the session goes to that source, and there is one session per outbound and source.
\<close>

theorem udp_isolation:
  assumes "udp_reach E sess0 d tbl" "map_of tbl (n, a) = Some s"
  shows "distinct (map fst tbl) \<and> us_sent s \<noteq> [] \<and> (\<forall>pkt \<in> set (us_sent s). packet_source pkt = Ok a) \<and>
    dst_addr (udp_reply s pkt') = Ip a"
  using udp_reach_ok [OF assms(1)] assms(2) by (simp add: udp_ok_def session_for_def udp_reply_def)

lemmas packet_defs = dispatch_packet_def packet_resolved_def choose_outbound_def must_into_socket_addr_def
  get_outbound_sender_mut_def session_clone_def udp_send_def udp_insert_def

text \<open>
  C40. Replies of a datagram session are attributed to the destination of its first packet. In direct
  mode two packets of one source to different addresses share a session, and what comes back from the
  second address reaches the client with the first one as its source.
\<close>

theorem udp_reply_source:
  assumes "dp_mode d = ModeDirect" "\<not> fake_ip_enabled (dp_resolver d)" "\<And>ip. cached_for (de_resolver env) ip (dp_resolver d) = None"
    "find_handler (dp_manager d) PROXY_DIRECT = Ok h" "de_active env h = None"
    "\<And>s. ob_connect_datagram (de_ops env) h s = Ok conn" "session_clone sess0 = Ok sess"
    "dispatch_packet env sess0 \<lparr>pkt_data = b, src_addr = Ip a, dst_addr = Ip x\<rparr> d [] = (r1, d1, tbl1)"
    "dispatch_packet env sess0 \<lparr>pkt_data = c, src_addr = Ip a, dst_addr = Ip y\<rparr> d1 tbl1 = (r2, d2, tbl2)"
  shows "\<exists>s. tbl2 = [((PROXY_DIRECT, a), s)] \<and>
    us_sent s = [\<lparr>pkt_data = b, src_addr = Ip a, dst_addr = Ip x\<rparr>, \<lparr>pkt_data = c, src_addr = Ip a, dst_addr = Ip y\<rparr>] \<and>
    udp_reply s \<lparr>pkt_data = e, src_addr = Ip y, dst_addr = f\<rparr> = \<lparr>pkt_data = e, src_addr = Ip x, dst_addr = Ip a\<rparr>"
proof -
  have rd: "reverse_dest (de_resolver env) (Ip z) (dp_resolver d) = (Ok (Some (Ip z)), dp_resolver d)" for z
    using assms(2, 3) by (simp add: reverse_dest_def)
  let ?s = "\<lparr>us_conn = conn, us_sess = sess\<lparr>source := a, destination := Ip x\<rparr>, us_orig = Ip x, us_last = de_now env,
      us_sent = [\<lparr>pkt_data = b, src_addr = Ip a, dst_addr = Ip x\<rparr>]\<rparr>"
  have 1: "tbl1 = [((PROXY_DIRECT, a), ?s)] \<and> dp_mode d1 = ModeDirect \<and> dp_resolver d1 = dp_resolver d \<and> dp_manager d1 = dp_manager d"
    using assms(1, 4-8) rd
    by (auto simp: packet_defs)
  then have "tbl2 = [((PROXY_DIRECT, a), ?s\<lparr>us_sent := us_sent ?s @ [\<lparr>pkt_data = c, src_addr = Ip a, dst_addr = Ip y\<rparr>]\<rparr>)]"
    using assms(4-7, 9) rd
    by (auto simp: packet_defs)
  then show ?thesis by (simp add: udp_reply_def)
qed

section \<open>Witnesses\<close>

definition plain_denv ::
  "(ip_addr \<times> nat, string, (u32 \<times> nat) list, (u128 \<times> nat) list, bool, string, unit, unit, unit cache_file, string) dispatch_env" where
  "plain_denv = \<lparr>de_resolver = plain_renv, de_lib = plain_lib, de_world = plain_world,
    de_ops = \<lparr>ob_name = (\<lambda>_. []), ob_support_udp = (\<lambda>_. True), ob_support_connector = (\<lambda>_. ConnAll),
      ob_connect_stream = (\<lambda>_ _. Ok (chained_new ''c'')), ob_connect_datagram = (\<lambda>_ _. Ok (chained_new ''c'')),
      ob_connect_stream_with = (\<lambda>_ _ _. Err Panic), ob_connect_datagram_with = (\<lambda>_ _ _. Err Panic)\<rparr>,
    de_active = (\<lambda>_. None), de_payload = (\<lambda>_. []), de_uuid = 1, de_now = 0\<rparr>"

type_synonym plain_d =
  "(string, unit, unit, ip_addr \<times> nat, string, (u32 \<times> nat) list, (u128 \<times> nat) list, bool, unit, unit, unit cache_file, unit) dispatcher"

definition plain_dispatcher :: "(string, unit, unit) outbound_manager \<Rightarrow> plain_d" where
  "plain_dispatcher om = dispatcher_new om plain_router plain_resolver ModeDirect stats_new None"

lemma plain_reverse: "reverse_dest plain_renv (Ip sa) plain_resolver = (Ok (Some (Ip sa)), plain_resolver)"
  by (simp add: reverse_dest_def fake_ip_enabled_def cached_for_def plain_resolver_def resolver_bare_def)

lemma plain_linked:
  obtains om where "manager_linked plain_om_env [''DIRECT'', ''a'', ''b''] plain_groups om"
proof -
  have "mset (oe_ord plain_om_env ks) = mset ks" for ks by (simp add: plain_om_env_def)
  from manager_new_spec [OF this plain_manager_valid(3), where cache = "cache_file_new None True :: unit cache_file" and names = "[]"]
    plain_manager_valid(1, 2)
  show ?thesis using that
    by (cases "manager_new plain_om_env (cache_file_new None True :: unit cache_file) [''DIRECT'', ''a'', ''b''] plain_groups [] []") auto
qed



definition packet_to :: "u32 \<Rightarrow> udp_packet" where
  "packet_to ip = \<lparr>pkt_data = [7], src_addr = Ip (SocketV4 1 5000), dst_addr = Ip (SocketV4 ip 53)\<rparr>"

declare plain_denv_def [sample_defs] plain_dispatcher_def [sample_defs] plain_session_def [sample_defs]
  packet_to_def [sample_defs]

lemma plain_packets:
  assumes "find_handler om PROXY_DIRECT = Ok h"
  obtains d1 tbl1 d2 tbl2 s where
    "dispatch_packet plain_denv plain_session (packet_to 8) (plain_dispatcher om) [] = (Ok (), d1, tbl1)"
    "dispatch_packet plain_denv plain_session (packet_to 9) d1 tbl1 = (Ok (), d2, tbl2)"
    "map_of tbl2 (PROXY_DIRECT, SocketV4 1 5000) = Some s" "us_sent s = [packet_to 8, packet_to 9]"
proof -
  have "\<exists>d1 tbl1. dispatch_packet plain_denv plain_session (packet_to 8) (plain_dispatcher om) [] = (Ok (), d1, tbl1) \<and>
      dp_mode d1 = ModeDirect \<and> dp_resolver d1 = plain_resolver \<and> dp_manager d1 = om \<and>
      (\<exists>s. tbl1 = [((PROXY_DIRECT, SocketV4 1 5000), s)] \<and> us_sent s = [packet_to 8])"
    using assms plain_reverse by (simp add: packet_defs sample_defs dispatcher_new_def)
  then obtain d1 tbl1 s where 1: "dispatch_packet plain_denv plain_session (packet_to 8) (plain_dispatcher om) [] = (Ok (), d1, tbl1)"
    "dp_mode d1 = ModeDirect" "dp_resolver d1 = plain_resolver" "dp_manager d1 = om"
    "tbl1 = [((PROXY_DIRECT, SocketV4 1 5000), s)]" "us_sent s = [packet_to 8]" by blast
  then have "\<exists>d2 tbl2. dispatch_packet plain_denv plain_session (packet_to 9) d1 tbl1 = (Ok (), d2, tbl2) \<and>
      (\<exists>s. map_of tbl2 (PROXY_DIRECT, SocketV4 1 5000) = Some s \<and> us_sent s = [packet_to 8, packet_to 9])"
    using assms plain_reverse by (simp add: packet_defs sample_defs)
  then show ?thesis using that 1(1) by blast
qed

lemma plain_direct:
  obtains om h where "find_handler (om :: (string, unit, unit) outbound_manager) PROXY_DIRECT = Ok h"
proof -
  obtain om where om: "manager_linked plain_om_env [''DIRECT'', ''a'', ''b''] plain_groups om" by (rule plain_linked)
  have "PROXY_DIRECT \<in> oe_name plain_om_env ` set [''DIRECT'', ''a'', ''b'']" by (simp add: PROXY_DIRECT_def plain_om_env_def)
  from find_handler_total [OF om this, of PROXY_DIRECT] show ?thesis using that by blast
qed

theorem udp_isolation_witness:
  "\<exists>d tbl s. udp_reach {plain_denv} plain_session (d :: plain_d) tbl \<and> us_sent s = [packet_to 8, packet_to 9] \<and>
    map_of tbl (PROXY_DIRECT, SocketV4 1 5000) = Some s \<and> distinct (map fst tbl) \<and>
    dst_addr (udp_reply s (packet_to 3)) = Ip (SocketV4 1 5000)"
proof -
  obtain om h where "find_handler (om :: (string, unit, unit) outbound_manager) PROXY_DIRECT = Ok h" by (rule plain_direct)
  then obtain d1 tbl1 d2 tbl2 s where
    1: "dispatch_packet plain_denv plain_session (packet_to 8) (plain_dispatcher om) [] = (Ok (), d1, tbl1)" and
    2: "dispatch_packet plain_denv plain_session (packet_to 9) d1 tbl1 = (Ok (), d2, tbl2)" and
    s: "map_of tbl2 (PROXY_DIRECT, SocketV4 1 5000) = Some s" "us_sent s = [packet_to 8, packet_to 9]"
    by (rule plain_packets)
  have r: "udp_reach {plain_denv} plain_session d2 tbl2"
    by (rule udp_packet [OF udp_packet [OF udp_start _ 1] _ 2]) simp_all
  show ?thesis using udp_isolation [OF r s(1), of "packet_to 3"] r s
    by (intro exI [of _ d2] exI [of _ tbl2] exI [of _ s]) simp
qed

theorem udp_reply_source_witness:
  "\<exists>om d1 tbl1 d2 s. dispatch_packet plain_denv plain_session (packet_to 8) (plain_dispatcher om) [] = (Ok (), d1, tbl1) \<and>
    dispatch_packet plain_denv plain_session (packet_to 9) d1 tbl1 = (Ok (), d2, [((PROXY_DIRECT, SocketV4 1 5000), s)]) \<and>
    udp_reply s \<lparr>pkt_data = [6], src_addr = Ip (SocketV4 9 53), dst_addr = Ip (SocketV4 0 0)\<rparr> =
      \<lparr>pkt_data = [6], src_addr = Ip (SocketV4 8 53), dst_addr = Ip (SocketV4 1 5000)\<rparr>"
proof -
  obtain om h where h: "find_handler (om :: (string, unit, unit) outbound_manager) PROXY_DIRECT = Ok h" by (rule plain_direct)
  then obtain d1 tbl1 d2 tbl2 s where
    1: "dispatch_packet plain_denv plain_session (packet_to 8) (plain_dispatcher om) [] = (Ok (), d1, tbl1)" and
    2: "dispatch_packet plain_denv plain_session (packet_to 9) d1 tbl1 = (Ok (), d2, tbl2)"
    by (rule plain_packets)
  have env: "de_active plain_denv h = None" "session_clone plain_session = Ok plain_session"
    "ob_connect_datagram (de_ops plain_denv) h s = Ok (chained_new ''c'')" for s
    by (simp_all add: plain_denv_def plain_session_def session_clone_def)
  have d: "dp_mode (plain_dispatcher om) = ModeDirect" "\<not> fake_ip_enabled (dp_resolver (plain_dispatcher om))"
    "cached_for (de_resolver plain_denv) ip (dp_resolver (plain_dispatcher om)) = None"
    "find_handler (dp_manager (plain_dispatcher om)) PROXY_DIRECT = Ok h" for ip
    using h by (simp_all add: plain_dispatcher_def dispatcher_new_def fake_ip_enabled_def cached_for_def plain_resolver_def resolver_bare_def)
  from udp_reply_source [OF d env(1, 3, 2) 1 [unfolded packet_to_def] 2 [unfolded packet_to_def]] 1 2
  show ?thesis by (intro exI [of _ om] exI [of _ d1] exI [of _ tbl1] exI [of _ d2]) auto
qed

end
