(* ===== verification/Spec2Isabelle.thy ===== *)
theory Spec2Isabelle
  imports Socks5 Trojan Ring_Buffer Dispatcher
begin

text \<open>
  A verification development for clash-rs, a rule-based proxy.
\<close>

end
